(* ===== verification/Prelude.thy ===== *)
theory Prelude
  imports Main "HOL-Library.Word"
begin

unbundle bit_operations_syntax

text \<open>
  What every component shares: the machine integer types of \<open>types.h\<close>, the outcome type of
  kernel code with its sequencing combinators, a small program logic over them, and lemmas on
  lists and bytes.

  A kernel routine is a function from the state to an \<open>outcome\<close>:
  \<^item> \<open>Done a s\<close>: it returned \<open>a\<close> in state \<open>s\<close>;
  \<^item> \<open>Panic m\<close>: it called \<open>panic(m)\<close>, which never returns;
  \<^item> \<open>Fault\<close>: the C program has no defined meaning here (null or dangling pointer, index out
    of an array's bounds);
  \<^item> \<open>LongJmp s\<close>: it called \<open>klongjmp\<close>, unwinding to \<open>syscall()\<close>;
  \<^item> \<open>Sleep s\<close>: the process gave up the CPU inside \<open>sched()\<close>, in state \<open>s\<close>.
\<close>

type_synonym u8 = "8 word"
type_synonym u16 = "16 word"
type_synonym u32 = "32 word"
type_synonym u64 = "64 word"

datatype ('a, 's) outcome =
    Done 'a 's
  | Panic string
  | Fault
  | LongJmp 's
  | Sleep 's

type_synonym ('s, 'a) kmon = "'s \<Rightarrow> ('a, 's) outcome"

named_theorems wp_rule \<open>rules of the total-correctness logic\<close>
named_theorems keeps_rule \<open>rules that carry an invariant through a routine\<close>
named_theorems kdefs \<open>the combinators unfolded, for symbolic execution\<close>

section \<open>Combinators\<close>

definition ret :: "'a \<Rightarrow> ('s, 'a) kmon" where
  [kdefs]: "ret a = (\<lambda>s. Done a s)"

definition bnd :: "('s, 'a) kmon \<Rightarrow> ('a \<Rightarrow> ('s, 'b) kmon) \<Rightarrow> ('s, 'b) kmon" where
  [kdefs]: "bnd m f = (\<lambda>s. case m s of
      Done a s' \<Rightarrow> f a s'
    | Panic e \<Rightarrow> Panic e
    | Fault \<Rightarrow> Fault
    | LongJmp s' \<Rightarrow> LongJmp s'
    | Sleep s' \<Rightarrow> Sleep s')"

definition sq :: "('s, unit) kmon \<Rightarrow> ('s, 'b) kmon \<Rightarrow> ('s, 'b) kmon" where
  [kdefs]: "sq m k = bnd m (\<lambda>_. k)"

definition panic :: "string \<Rightarrow> ('s, 'a) kmon" where
  [kdefs]: "panic m = (\<lambda>_. Panic m)"

definition fault :: "('s, 'a) kmon" where
  [kdefs]: "fault = (\<lambda>_. Fault)"

definition longjmp :: "('s, 'a) kmon" where
  [kdefs]: "longjmp = (\<lambda>s. LongJmp s)"

definition getk :: "('s \<Rightarrow> 'a) \<Rightarrow> ('s, 'a) kmon" where
  [kdefs]: "getk f = (\<lambda>s. Done (f s) s)"

definition modk :: "('s \<Rightarrow> 's) \<Rightarrow> ('s, unit) kmon" where
  [kdefs]: "modk f = (\<lambda>s. Done () (f s))"

text \<open>\<open>whenk b m\<close> is \<open>if (b) m;\<close>, \<open>needs b\<close> faults unless \<open>b\<close> holds.\<close>

definition whenk :: "bool \<Rightarrow> ('s, unit) kmon \<Rightarrow> ('s, unit) kmon" where
  [kdefs]: "whenk b m = (if b then m else ret ())"

definition needs :: "bool \<Rightarrow> ('s, unit) kmon" where
  [kdefs]: "needs b = (if b then ret () else fault)"

text \<open>A counted loop \<open>for (i : xs) body(i)\<close> without an early exit.\<close>

fun for_each :: "'x list \<Rightarrow> ('x \<Rightarrow> ('s, unit) kmon) \<Rightarrow> ('s, unit) kmon" where
  "for_each [] body = ret ()"
| "for_each (x # xs) body = sq (body x) (for_each xs body)"

text \<open>A loop that leaves with the first result its body finds.\<close>

fun find_k :: "'x list \<Rightarrow> ('x \<Rightarrow> ('s, 'a option) kmon) \<Rightarrow> ('s, 'a option) kmon" where
  "find_k [] body = ret None"
| "find_k (x # xs) body = bnd (body x) (\<lambda>r. case r of None \<Rightarrow> find_k xs body | Some a \<Rightarrow> ret (Some a))"

lemma bnd_ret [simp]: "bnd (ret a) f = f a"
  by (simp add: kdefs)

lemma sq_ret [simp]: "sq (ret u) k = k"
  by (simp add: kdefs)

lemma bnd_assoc: "bnd (bnd m f) g = bnd m (\<lambda>a. bnd (f a) g)"
  by (auto simp: bnd_def split: outcome.splits)

lemma bnd_ret_right [simp]: "bnd m ret = m"
  by (rule ext) (simp add: kdefs split: outcome.splits)

lemma for_each_append: "for_each (xs @ ys) body = sq (for_each xs body) (for_each ys body)"
  by (induction xs) (simp_all add: sq_def bnd_assoc)

lemma bnd_Done [simp]: "m s = Done a s' \<Longrightarrow> bnd m f s = f a s'"
  by (simp add: bnd_def)

lemma sq_Done [simp]: "m s = Done u s' \<Longrightarrow> sq m k s = k s'"
  by (simp add: sq_def bnd_def)

lemma bnd_DoneD: "bnd m f s = Done b t \<Longrightarrow> \<exists>a s'. m s = Done a s' \<and> f a s' = Done b t"
  by (auto simp: bnd_def split: outcome.splits)

lemma sq_DoneD: "sq m k s = Done b t \<Longrightarrow> \<exists>s'. m s = Done () s' \<and> k s' = Done b t"
  by (auto simp: sq_def dest: bnd_DoneD)

lemma bnd_DoneE:
  assumes "bnd m f s = Done b t"
  obtains a s' where "m s = Done a s'" and "f a s' = Done b t"
  using bnd_DoneD [OF assms] by blast

lemma sq_DoneE:
  assumes "sq m k s = Done b t"
  obtains s' where "m s = Done () s'" and "k s' = Done b t"
  using sq_DoneD [OF assms] by blast

section \<open>Total correctness\<close>

text \<open>\<open>wp m Q s\<close>: from \<open>s\<close> the routine returns, with a result and state in \<open>Q\<close>.\<close>

definition wp :: "('s, 'a) kmon \<Rightarrow> ('a \<Rightarrow> 's \<Rightarrow> bool) \<Rightarrow> 's \<Rightarrow> bool" where
  "wp m Q s = (case m s of Done a s' \<Rightarrow> Q a s' | _ \<Rightarrow> False)"

lemma wp_iff: "wp m Q s \<longleftrightarrow> (\<exists>a s'. m s = Done a s' \<and> Q a s')"
  by (auto simp: wp_def split: outcome.splits)

lemma wp_Done: "wp m Q s \<Longrightarrow> m s = Done a s' \<Longrightarrow> Q a s'"
  by (simp add: wp_def)

lemma wp_ret [simp, wp_rule]: "wp (ret a) Q s = Q a s"
  by (simp add: wp_def kdefs)

lemma wp_bnd [wp_rule]: "wp (bnd m f) Q s = wp m (\<lambda>a. wp (f a) Q) s"
  by (auto simp: wp_def bnd_def split: outcome.splits)

lemma wp_sq [wp_rule]: "wp (sq m k) Q s = wp m (\<lambda>_. wp k Q) s"
  by (simp add: sq_def wp_bnd)

lemma wp_getk [simp, wp_rule]: "wp (getk f) Q s = Q (f s) s"
  by (simp add: wp_def kdefs)

lemma wp_modk [simp, wp_rule]: "wp (modk f) Q s = Q () (f s)"
  by (simp add: wp_def kdefs)

lemma wp_whenk [wp_rule]: "wp (whenk b m) Q s = (if b then wp m Q s else Q () s)"
  by (simp add: whenk_def)

lemma wp_needs [wp_rule]: "wp (needs b) Q s = (b \<and> Q () s)"
  by (simp add: needs_def wp_def kdefs)

lemma wp_panic [simp, wp_rule]: "wp (panic m) Q s = False"
  by (simp add: wp_def kdefs)

lemma wp_fault [simp, wp_rule]: "wp fault Q s = False"
  by (simp add: wp_def kdefs)

lemma wp_longjmp [simp, wp_rule]: "wp longjmp Q s = False"
  by (simp add: wp_def kdefs)

lemma wp_if [wp_rule]: "wp (if b then m else k) Q s = (if b then wp m Q s else wp k Q s)"
  by simp

lemma wp_mono: "wp m Q s \<Longrightarrow> (\<And>a s'. Q a s' \<Longrightarrow> R a s') \<Longrightarrow> wp m R s"
  by (auto simp: wp_iff)

lemma wp_conj: "wp m Q s \<Longrightarrow> wp m R s \<Longrightarrow> wp m (\<lambda>a s'. Q a s' \<and> R a s') s"
  by (auto simp: wp_iff)

section \<open>Invariants of a routine\<close>

text \<open>
  \<open>keeps I m\<close>: every state that \<open>m\<close> leaves behind, by returning, by jumping out or by
  sleeping, satisfies \<open>I\<close> when the state it started from does.
\<close>

fun leaves :: "('s \<Rightarrow> bool) \<Rightarrow> ('a, 's) outcome \<Rightarrow> bool" where
  "leaves I (Done a s) = I s"
| "leaves I (Panic e) = True"
| "leaves I Fault = True"
| "leaves I (LongJmp s) = I s"
| "leaves I (Sleep s) = I s"

definition keeps :: "('s \<Rightarrow> bool) \<Rightarrow> ('s, 'a) kmon \<Rightarrow> bool" where
  "keeps I m = (\<forall>s. I s \<longrightarrow> leaves I (m s))"

lemma keepsI: "(\<And>s. I s \<Longrightarrow> leaves I (m s)) \<Longrightarrow> keeps I m"
  by (simp add: keeps_def)

lemma keeps_Done: "keeps I m \<Longrightarrow> I s \<Longrightarrow> m s = Done a s' \<Longrightarrow> I s'"
  by (metis keeps_def leaves.simps(1))

lemma keeps_ret [keeps_rule, intro!]: "keeps I (ret a)"
  by (simp add: keeps_def kdefs)

lemma keeps_bnd [keeps_rule, intro!]: "keeps I m \<Longrightarrow> (\<And>a. keeps I (f a)) \<Longrightarrow> keeps I (bnd m f)"
  unfolding keeps_def bnd_def
  by (fastforce split: outcome.splits dest: spec)

lemma keeps_sq [keeps_rule, intro!]: "keeps I m \<Longrightarrow> keeps I k \<Longrightarrow> keeps I (sq m k)"
  by (simp add: sq_def keeps_bnd)

lemma keeps_getk [keeps_rule, intro!]: "keeps I (getk f)"
  by (simp add: keeps_def kdefs)

lemma keeps_modk [keeps_rule]: "(\<And>s. I s \<Longrightarrow> I (f s)) \<Longrightarrow> keeps I (modk f)"
  by (simp add: keeps_def kdefs)

lemma keeps_whenk [keeps_rule, intro!]: "(b \<Longrightarrow> keeps I m) \<Longrightarrow> keeps I (whenk b m)"
  by (simp add: whenk_def keeps_ret)

lemma keeps_needs [keeps_rule, intro!]: "keeps I (needs b)"
  by (simp add: keeps_def kdefs)

lemma keeps_panic [keeps_rule, intro!]: "keeps I (panic e)"
  by (simp add: keeps_def kdefs)

lemma keeps_fault [keeps_rule, intro!]: "keeps I fault"
  by (simp add: keeps_def kdefs)

lemma keeps_longjmp [keeps_rule, intro!]: "keeps I longjmp"
  by (simp add: keeps_def kdefs)

lemma keeps_if [keeps_rule, intro!]:
  "(b \<Longrightarrow> keeps I m) \<Longrightarrow> (\<not> b \<Longrightarrow> keeps I k) \<Longrightarrow> keeps I (if b then m else k)"
  by simp

lemma keeps_option [keeps_rule]:
  "(x = None \<Longrightarrow> keeps I m) \<Longrightarrow> (\<And>a. x = Some a \<Longrightarrow> keeps I (k a))
   \<Longrightarrow> keeps I (case x of None \<Rightarrow> m | Some a \<Rightarrow> k a)"
  by (cases x) simp_all

lemma keeps_prod [keeps_rule]: "(\<And>a b. p = (a, b) \<Longrightarrow> keeps I (f a b)) \<Longrightarrow> keeps I (case p of (a, b) \<Rightarrow> f a b)"
  by (cases p) simp

lemma keeps_for_each [keeps_rule]: "(\<And>x. x \<in> set xs \<Longrightarrow> keeps I (body x)) \<Longrightarrow> keeps I (for_each xs body)"
  by (induction xs) (auto intro: keeps_sq)

section \<open>Bytes\<close>

text \<open>
  The machine is little-endian: \<open>to_le n w\<close> are the \<open>n\<close> bytes of \<open>w\<close> in memory order and
  \<open>of_le bs\<close> reads them back, as a cast of a byte pointer to an integer pointer does.
\<close>

definition to_le :: "nat \<Rightarrow> 'a::len word \<Rightarrow> u8 list" where
  "to_le n w = map (\<lambda>i. ucast (drop_bit (8 * i) w)) [0..<n]"

primrec of_le :: "u8 list \<Rightarrow> 'a::len word" where
  "of_le [] = 0"
| "of_le (b # bs) = ucast b OR push_bit 8 (of_le bs)"

lemma length_to_le [simp]: "length (to_le n w) = n"
  by (simp add: to_le_def)

lemma nth_to_le [simp]: "i < n \<Longrightarrow> to_le n w ! i = ucast (drop_bit (8 * i) w)"
  by (simp add: to_le_def)

lemma bit_of_le:
  "bit (of_le bs :: 'a::len word) k
   \<longleftrightarrow> k < LENGTH('a) \<and> k div 8 < length bs \<and> bit (bs ! (k div 8)) (k mod 8)"
proof (induction bs arbitrary: k)
  case Nil
  then show ?case by simp
next
  case (Cons b bs)
  show ?case
  proof (cases "k < 8")
    case True
    then show ?thesis
      by (auto simp: bit_or_iff bit_push_bit_iff bit_ucast_iff)
  next
    case False
    then have k: "k div 8 = Suc ((k - 8) div 8)" "k mod 8 = (k - 8) mod 8"
      by (auto simp: le_div_geq le_mod_geq)
    have nb: "\<not> bit b k"
      using False by (auto dest: bit_imp_le_length)
    show ?thesis
      using False nb
      by (auto simp: bit_or_iff bit_push_bit_iff bit_ucast_iff Cons.IH k)
  qed
qed

lemma of_le_to_le [simp]: "LENGTH('a) \<le> 8 * n \<Longrightarrow> of_le (to_le n (w :: 'a::len word)) = w"
proof (rule bit_word_eqI)
  fix k assume le: "LENGTH('a) \<le> 8 * n" and k: "k < LENGTH('a)"
  have "k div 8 < n" using le k by (simp add: div_less_iff_less_mult)
  then show "bit (of_le (to_le n w) :: 'a word) k = bit w k"
    using k by (simp add: bit_of_le bit_ucast_iff bit_drop_bit_eq)
qed

lemma to_le_of_le:
  assumes "length bs = n" and "8 * n \<le> LENGTH('a)"
  shows "to_le n (of_le bs :: 'a::len word) = bs"
proof (rule nth_equalityI)
  show "length (to_le n (of_le bs :: 'a word)) = length bs" using assms by simp
  fix i assume "i < length (to_le n (of_le bs :: 'a word))"
  then have i: "i < n" by simp
  have "bit (ucast (drop_bit (8 * i) (of_le bs :: 'a word)) :: u8) k = bit (bs ! i) k"
    if k: "k < 8" for k
  proof -
    have "8 * i + k < 8 * n" using i k by simp
    then have "8 * i + k < LENGTH('a)" using assms by simp
    moreover have "(8 * i + k) div 8 = i" "(8 * i + k) mod 8 = k" using k by auto
    ultimately show ?thesis
      using i k assms by (simp add: bit_ucast_iff bit_drop_bit_eq bit_of_le)
  qed
  then show "to_le n (of_le bs :: 'a word) ! i = bs ! i"
    using i by (auto intro!: bit_word_eqI)
qed

text \<open>Reading and writing \<open>length xs\<close> bytes at an offset of a byte array.\<close>

definition bslice :: "nat \<Rightarrow> nat \<Rightarrow> 'x list \<Rightarrow> 'x list" where
  "bslice off n bs = take n (drop off bs)"

definition splice_at :: "nat \<Rightarrow> 'x list \<Rightarrow> 'x list \<Rightarrow> 'x list" where
  "splice_at off xs bs = take off bs @ xs @ drop (off + length xs) bs"

lemma length_bslice: "length (bslice off n bs) = min n (length bs - off)"
  by (simp add: bslice_def min_def)

lemma length_splice_at [simp]:
  "off + length xs \<le> length bs \<Longrightarrow> length (splice_at off xs bs) = length bs"
  by (simp add: splice_at_def)

lemma nth_splice_at:
  "off + length xs \<le> length bs \<Longrightarrow> i < length bs \<Longrightarrow>
   splice_at off xs bs ! i = (if off \<le> i \<and> i < off + length xs then xs ! (i - off) else bs ! i)"
  by (auto simp: splice_at_def nth_append min_def)

lemma nth_bslice: "i < n \<Longrightarrow> off + i < length bs \<Longrightarrow> bslice off n bs ! i = bs ! (off + i)"
  by (simp add: bslice_def)

lemma bslice_splice_same [simp]:
  "off + length xs \<le> length bs \<Longrightarrow> n = length xs \<Longrightarrow> bslice off n (splice_at off xs bs) = xs"
  by (simp add: bslice_def splice_at_def)

lemma bslice_splice_other:
  "off + length xs \<le> length bs \<Longrightarrow> off' + n \<le> off \<or> off + length xs \<le> off' \<Longrightarrow>
   bslice off' n (splice_at off xs bs) = bslice off' n bs"
  by (rule nth_equalityI) (auto simp: length_bslice nth_bslice nth_splice_at)

lemma splice_bslice_same: "off + n \<le> length bs \<Longrightarrow> splice_at off (bslice off n bs) bs = bs"
  by (rule nth_equalityI) (auto simp: length_bslice nth_splice_at nth_bslice)

end
