(* ===== verification/Kernel.thy ===== *)
theory Kernel
  imports Prelude
begin

text \<open>
  The data of the kernel, as its header files declare it, and one record \<open>kstate\<close> that holds
  every global variable the modelled code touches.

  \<^item> Pointers into a global array (\<open>bcache.buf\<close>, \<open>itable.inode\<close>, \<open>ftable.file\<close>, \<open>proc\<close>) are
    indices of that array; the list head of the buffer cache is the index \<open>NBUF\<close>.
  \<^item> Pages handed out by \<open>kalloc()\<close> live in \<open>heap\<close>, keyed by physical address. A page holds the
    object it was last written as (\<open>kobj\<close>); a page on the free list holds the \<open>struct run\<close> that
    links it. Using a page as something it does not hold is a \<open>Fault\<close>.
  \<^item> A spinlock is a name (\<open>lockid\<close>); \<open>held\<close> is the set of those this CPU holds, so that
    \<open>holding(lk)\<close> is membership and \<open>noff\<close> is its size. The lock words themselves are the
    subject of theory \<open>Spinlock\<close>.
  \<^item> A wait channel is the address passed to \<open>sleep\<close> and \<open>wakeup\<close>, named by \<open>chan\<close>.
  \<^item> \<open>conout\<close> lists the calls of \<open>printf\<close>; what one of them prints is the subject of theory \<open>Printf\<close>.
  \<^item> \<open>devsw\<close> tells for which major numbers the device switch has its functions installed.
  \<^item> \<open>layout\<close> is what the linker decides: where the global arrays and the end of the kernel lie.
\<close>

section \<open>Constants (param.h, fs.h, riscv.h, memlayout.h, stat.h, fcntl.h, tx.h, virtio.h)\<close>

definition NPROC :: nat where [simp]: "NPROC = 64"
definition NOFILE :: nat where [simp]: "NOFILE = 16"
definition NFILE :: nat where [simp]: "NFILE = 100"
definition NINODE :: nat where [simp]: "NINODE = 50"
definition NDEV :: int where [simp]: "NDEV = 10"
definition ROOTDEV :: u32 where [simp]: "ROOTDEV = 1"
definition MAXARG :: nat where [simp]: "MAXARG = 32"
definition MAXOPBLOCKS :: nat where [simp]: "MAXOPBLOCKS = 10"
definition LOGBLOCKS :: nat where [simp]: "LOGBLOCKS = MAXOPBLOCKS * 3"
definition NBUF :: nat where [simp]: "NBUF = MAXOPBLOCKS * 3"
definition FSSIZE :: nat where [simp]: "FSSIZE = 2000"
definition MAXPATH :: nat where [simp]: "MAXPATH = 128"

definition ROOTINO :: u32 where [simp]: "ROOTINO = 1"
definition BSIZE :: nat where [simp]: "BSIZE = 1024"
definition FSMAGIC :: u32 where [simp]: "FSMAGIC = 0x10203040"
definition NDIRECT :: nat where [simp]: "NDIRECT = 12"
definition NINDIRECT :: nat where [simp]: "NINDIRECT = BSIZE div 4"
definition MAXFILE :: nat where [simp]: "MAXFILE = NDIRECT + NINDIRECT"
definition DINODE_SIZE :: nat where [simp]: "DINODE_SIZE = 64"
definition IPB :: nat where [simp]: "IPB = BSIZE div DINODE_SIZE"
definition BPB :: nat where [simp]: "BPB = BSIZE * 8"
definition DIRSIZ :: nat where [simp]: "DIRSIZ = 14"
definition DIRENT_SIZE :: nat where [simp]: "DIRENT_SIZE = 16"

definition T_DIR :: u16 where [simp]: "T_DIR = 1"
definition T_FILE :: u16 where [simp]: "T_FILE = 2"
definition T_DEVICE :: u16 where [simp]: "T_DEVICE = 3"

definition O_RDONLY :: u32 where [simp]: "O_RDONLY = 0"
definition O_WRONLY :: u32 where [simp]: "O_WRONLY = 1"
definition O_RDWR :: u32 where [simp]: "O_RDWR = 2"
definition O_CREATE :: u32 where [simp]: "O_CREATE = 0x200"
definition O_TRUNC :: u32 where [simp]: "O_TRUNC = 0x400"

definition TX_INACTIVE :: int where [simp]: "TX_INACTIVE = 0"
definition TX_ACTIVE :: int where [simp]: "TX_ACTIVE = 1"
definition TX_ABORTED :: int where [simp]: "TX_ABORTED = 2"
definition TX_COMMITTED :: int where [simp]: "TX_COMMITTED = 3"
definition MAX_WORKSET :: nat where [simp]: "MAX_WORKSET = 16"
definition MAX_UNDO :: nat where [simp]: "MAX_UNDO = 16"

definition NUM :: nat where [simp]: "NUM = 8"

definition PGSIZE :: nat where [simp]: "PGSIZE = 4096"
definition KERNBASE :: u64 where [simp]: "KERNBASE = 0x80000000"
definition PHYSTOP :: u64 where [simp]: "PHYSTOP = KERNBASE + 128 * 1024 * 1024"

section \<open>Names of locks, wait channels and transactional objects\<close>

text \<open>The sleep locks are fields of \<open>struct buf\<close> and \<open>struct inode\<close>.\<close>

datatype slk = SLBuf nat | SLInode nat

datatype hdr = HNull | HInode nat | HBuf nat

datatype lockid =
    BcacheLock | ItableLock | FtableLock | LogLock | KmemLock | TicksLock | PidLock | WaitLock
  | ConsLock | PrLock | UartLock | VdiskLock
  | ProcLock nat | PipeLock u64 | XobjLock hdr | SleepLk slk

datatype chan =
    ChLog | ChTicks | ChConsR | ChUart | ChDiskFree
  | ChSleepLock slk | ChProc nat | ChPipeRead u64 | ChPipeWrite u64 | ChBuf nat

section \<open>Structures\<close>

record sleeplock =
  sl_locked :: bool
  sl_pid :: int

record tx_data =
  xo_writer :: u64
  xo_reader_count :: int

record buf =
  b_valid :: bool
  b_disk :: bool
  b_dev :: u32
  b_blockno :: u32
  b_lock :: sleeplock
  b_refcnt :: u32
  b_prev :: nat
  b_next :: nat
  b_xobj :: tx_data
  b_data :: u64

record superblock =
  sb_magic :: u32
  sb_size :: u32
  sb_nblocks :: u32
  sb_ninodes :: u32
  sb_nlog :: u32
  sb_logstart :: u32
  sb_inodestart :: u32
  sb_bmapstart :: u32

record inode_data =
  d_type :: u16
  d_major :: u16
  d_minor :: u16
  d_nlink :: u16
  d_size :: u32
  d_addrs :: "u32 list"

record inode =
  i_dev :: u32
  i_inum :: u32
  i_ref :: int
  i_lock :: sleeplock
  i_valid :: bool
  i_xobj :: tx_data
  i_data :: u64

datatype ftype = FD_NONE | FD_PIPE | FD_INODE | FD_DEVICE

record kfile =
  f_type :: ftype
  f_ref :: int
  f_readable :: bool
  f_writable :: bool
  f_pipe :: u64
  f_ip :: "nat option"
  f_off :: u32
  f_major :: u16

record pipe =
  pi_data :: "u8 list"
  pi_nread :: u32
  pi_nwrite :: u32
  pi_readopen :: bool
  pi_writeopen :: bool

text \<open>\<open>struct tx_ops\<close> has two instances in the program, told apart by name.\<close>

datatype tx_ops = NoOps | InodeOps | BufferOps

record workset_entry =
  w_header :: hdr
  w_shadow_data :: u64
  w_read_only :: bool
  w_newly_allocated :: bool
  w_ops :: tx_ops

datatype undo_op = UndoIunlock | UndoBufUnlock | UndoB | UndoC

record transaction =
  t_status :: int
  t_retry_count :: int
  t_start_time :: u64
  t_saved_tf :: u64
  t_kjmp_valid :: bool
  t_workset :: "workset_entry list"
  t_workset_size :: nat
  t_undo :: "(undo_op \<times> hdr) list"
  t_undo_size :: nat

datatype tfreg =
    TF_kernel_satp | TF_kernel_sp | TF_kernel_trap | TF_epc | TF_kernel_hartid
  | TF_ra | TF_sp | TF_gp | TF_tp | TF_t0 | TF_t1 | TF_t2 | TF_s0 | TF_s1
  | TF_a0 | TF_a1 | TF_a2 | TF_a3 | TF_a4 | TF_a5 | TF_a6 | TF_a7
  | TF_s2 | TF_s3 | TF_s4 | TF_s5 | TF_s6 | TF_s7 | TF_s8 | TF_s9 | TF_s10 | TF_s11
  | TF_t3 | TF_t4 | TF_t5 | TF_t6

type_synonym trapframe = "tfreg \<Rightarrow> u64"

datatype procstate = UNUSED | USED | SLEEPING | RUNNABLE | RUNNING | ZOMBIE

record proc =
  p_state :: procstate
  p_chan :: "chan option"
  p_killed :: bool
  p_xstate :: int
  p_pid :: int
  p_parent :: "nat option"
  p_kstack :: u64
  p_sz :: u64
  p_pagetable :: u64
  p_trapframe :: u64
  p_ofile :: "nat option list"
  p_cwd :: "nat option"
  p_name :: "u8 list"
  p_tx :: u64

text \<open>
  The content of a page of physical memory. A page table maps its 512 indices to entries;
  \<open>Bytes\<close> is a page of plain bytes by offset.
\<close>

datatype kobj =
    Run u64
  | Bytes "nat \<Rightarrow> u8"
  | PageTable "nat \<Rightarrow> u64"
  | InodeData inode_data
  | BufData "u8 list"
  | Tx transaction
  | Trapframe trapframe
  | Pipe pipe

record klog =
  lg_start :: u32
  lg_outstanding :: int
  lg_committing :: bool
  lg_dev :: u32
  lh_n :: int
  lh_block :: "u32 list"

record layout =
  l_addr :: "hdr \<Rightarrow> u64"
  l_end :: u64
  l_etext :: u64
  l_trampoline :: u64
  l_uservec :: u64
  l_userret :: u64
  l_kernelvec :: u64
  l_usertrap :: u64

text \<open>An argument of \<open>printf\<close>: a register, or a string (\<open>None\<close> is the null pointer).\<close>

datatype parg = PInt u64 | PStr "u8 list option"

record kcons =
  c_buf :: "u8 list"
  c_r :: u32
  c_w :: u32
  c_e :: u32

text \<open>The serial port: the driver's \<open>tx_busy\<close>, whether the transmit register is empty, the bytes
  written to it so far, the input bytes that wait in the receive FIFO, and the writes to the
  configuration registers.\<close>

record kuart =
  u_tx_busy :: bool
  u_tx_idle :: bool
  u_sent :: "u8 list"
  u_rx :: "u8 list"
  u_regs :: "(nat \<times> u8) list"

text \<open>The control registers of the hart that the trap code reads and writes.\<close>

datatype csr = SSTATUS | SEPC | SCAUSE | STVAL | STVEC | SATP | TIME | STIMECMP | TP

text \<open>The disk driver's \<open>struct disk\<close> with the queue it shares with the device. A descriptor points to a
  command header, to the bytes of a block buffer or to a status byte. \<open>v_mmio\<close> are the device's registers.\<close>

datatype daddr = DNull | DReq nat | DData u64 | DStatus nat

record vdesc =
  ds_addr :: daddr
  ds_len :: u32
  ds_flags :: u16
  ds_next :: u16

record vinfo =
  vi_b :: "nat option"
  vi_status :: u8

record vreq =
  rq_type :: u32
  rq_reserved :: u32
  rq_sector :: u64

record vdisk =
  v_desc_page :: u64
  v_avail_page :: u64
  v_used_page :: u64
  v_desc :: "vdesc list"
  v_avail_idx :: u16
  v_avail :: "u16 list"
  v_dev_idx :: u16
  v_used :: "u32 list"
  v_free :: "bool list"
  v_used_idx :: u16
  v_info :: "vinfo list"
  v_ops :: "vreq list"
  v_mmio :: "nat \<Rightarrow> u32"

record kstate =
  lay :: layout
  held :: "lockid set"
  cur :: "nat option"
  ticks :: u32
  conout :: "(string \<times> parg list) list"
  freelist :: u64
  heap :: "u64 \<Rightarrow> kobj option"
  bufs :: "nat \<Rightarrow> buf"
  disk :: "u32 \<Rightarrow> u8 list"
  dwrites :: "(u32 \<times> u8 list) list"
  klog :: klog
  sb :: superblock
  itable :: "nat \<Rightarrow> inode"
  ftable :: "nat \<Rightarrow> kfile"
  procs :: "nat \<Rightarrow> proc"
  nextpid :: int
  initproc :: "nat option"
  kernel_pagetable :: u64
  fs_first :: bool
  devsw :: "nat \<Rightarrow> bool"
  cons :: kcons
  uart :: kuart
  csrs :: "csr \<Rightarrow> u64"
  plic :: "u64 \<Rightarrow> u32"
  vd :: vdisk

type_synonym 'a K = "(kstate, 'a) kmon"

section \<open>Access to the arrays and to the heap\<close>

definition upd_buf :: "nat \<Rightarrow> (buf \<Rightarrow> buf) \<Rightarrow> unit K" where
  [kdefs]: "upd_buf b f = modk (\<lambda>s. s\<lparr>bufs := (bufs s)(b := f (bufs s b))\<rparr>)"

definition upd_inode :: "nat \<Rightarrow> (inode \<Rightarrow> inode) \<Rightarrow> unit K" where
  [kdefs]: "upd_inode i f = modk (\<lambda>s. s\<lparr>itable := (itable s)(i := f (itable s i))\<rparr>)"

definition upd_file :: "nat \<Rightarrow> (kfile \<Rightarrow> kfile) \<Rightarrow> unit K" where
  [kdefs]: "upd_file i f = modk (\<lambda>s. s\<lparr>ftable := (ftable s)(i := f (ftable s i))\<rparr>)"

definition upd_proc :: "nat \<Rightarrow> (proc \<Rightarrow> proc) \<Rightarrow> unit K" where
  [kdefs]: "upd_proc i f = modk (\<lambda>s. s\<lparr>procs := (procs s)(i := f (procs s i))\<rparr>)"

definition upd_log :: "(klog \<Rightarrow> klog) \<Rightarrow> unit K" where
  [kdefs]: "upd_log f = modk (\<lambda>s. s\<lparr>klog := f (klog s)\<rparr>)"

text \<open>Storing an object in a page needs the page to be allocated: it is not on the free list.\<close>

definition put_obj :: "u64 \<Rightarrow> kobj \<Rightarrow> unit K" where
  [kdefs]: "put_obj pa ob = (\<lambda>s. case heap s pa of
      None \<Rightarrow> Fault
    | Some (Run _) \<Rightarrow> Fault
    | Some _ \<Rightarrow> Done () (s\<lparr>heap := (heap s)(pa \<mapsto> ob)\<rparr>))"

definition get_bdata :: "u64 \<Rightarrow> u8 list K" where
  [kdefs]: "get_bdata pa = (\<lambda>s. case heap s pa of Some (BufData bs) \<Rightarrow> Done bs s | _ \<Rightarrow> Fault)"

definition get_idata :: "u64 \<Rightarrow> inode_data K" where
  [kdefs]: "get_idata pa = (\<lambda>s. case heap s pa of Some (InodeData d) \<Rightarrow> Done d s | _ \<Rightarrow> Fault)"

definition get_tx :: "u64 \<Rightarrow> transaction K" where
  [kdefs]: "get_tx pa = (\<lambda>s. case heap s pa of Some (Tx t) \<Rightarrow> Done t s | _ \<Rightarrow> Fault)"

definition get_pipe :: "u64 \<Rightarrow> pipe K" where
  [kdefs]: "get_pipe pa = (\<lambda>s. case heap s pa of Some (Pipe p) \<Rightarrow> Done p s | _ \<Rightarrow> Fault)"

definition get_tf :: "u64 \<Rightarrow> trapframe K" where
  [kdefs]: "get_tf pa = (\<lambda>s. case heap s pa of Some (Trapframe t) \<Rightarrow> Done t s | _ \<Rightarrow> Fault)"

definition upd_tx :: "u64 \<Rightarrow> (transaction \<Rightarrow> transaction) \<Rightarrow> unit K" where
  [kdefs]: "upd_tx pa f = bnd (get_tx pa) (\<lambda>t. put_obj pa (Tx (f t)))"

definition upd_idata :: "u64 \<Rightarrow> (inode_data \<Rightarrow> inode_data) \<Rightarrow> unit K" where
  [kdefs]: "upd_idata pa f = bnd (get_idata pa) (\<lambda>d. put_obj pa (InodeData (f d)))"

text \<open>\<open>a[i]\<close> of an array kept as a list.\<close>

definition nth_k :: "'x list \<Rightarrow> nat \<Rightarrow> 'x K" where
  [kdefs]: "nth_k xs i = (if i < length xs then ret (xs ! i) else fault)"

text \<open>\<open>printf\<close>: the format and its arguments go to the console.\<close>

definition printk :: "string \<Rightarrow> parg list \<Rightarrow> unit K" where
  [kdefs]: "printk m args = modk (\<lambda>s. s\<lparr>conout := conout s @ [(m, args)]\<rparr>)"

definition NL :: string where
  "NL = [CHR 0x0A]"

definition no_sleeplock :: sleeplock where
  "no_sleeplock = \<lparr>sl_locked = False, sl_pid = 0\<rparr>"

definition no_tx_data :: tx_data where
  "no_tx_data = \<lparr>xo_writer = 0, xo_reader_count = 0\<rparr>"

lemma wp_put_obj [wp_rule]:
  "wp (put_obj pa ob) Q s \<longleftrightarrow>
   (\<exists>x. heap s pa = Some x \<and> (\<forall>r. x \<noteq> Run r)) \<and> Q () (s\<lparr>heap := (heap s)(pa \<mapsto> ob)\<rparr>)"
  by (auto simp: wp_def put_obj_def split: option.splits kobj.splits)

lemma wp_get_bdata [wp_rule]: "wp (get_bdata pa) Q s \<longleftrightarrow> (\<exists>bs. heap s pa = Some (BufData bs) \<and> Q bs s)"
  by (auto simp: wp_def get_bdata_def split: option.splits kobj.splits)

lemma wp_get_idata [wp_rule]: "wp (get_idata pa) Q s \<longleftrightarrow> (\<exists>d. heap s pa = Some (InodeData d) \<and> Q d s)"
  by (auto simp: wp_def get_idata_def split: option.splits kobj.splits)

lemma wp_get_tx [wp_rule]: "wp (get_tx pa) Q s \<longleftrightarrow> (\<exists>t. heap s pa = Some (Tx t) \<and> Q t s)"
  by (auto simp: wp_def get_tx_def split: option.splits kobj.splits)

lemma wp_get_pipe [wp_rule]: "wp (get_pipe pa) Q s \<longleftrightarrow> (\<exists>p. heap s pa = Some (Pipe p) \<and> Q p s)"
  by (auto simp: wp_def get_pipe_def split: option.splits kobj.splits)

lemma put_obj_DoneD:
  "put_obj pa ob s = Done u t \<Longrightarrow>
   (\<exists>x. heap s pa = Some x \<and> (\<forall>r. x \<noteq> Run r)) \<and> t = s\<lparr>heap := (heap s)(pa \<mapsto> ob)\<rparr>"
  by (auto simp: put_obj_def split: option.splits kobj.splits)

end
