(* ===== verification/Spinlock.thy ===== *)
theory Spinlock
  imports Kernel
begin

text \<open>
  \<open>spinlock.c\<close>, at two levels.

  The first part models the lock words, the per-CPU nesting counter and the interrupt-enable
  bit, with the atomic actions of \<open>acquire\<close> and \<open>release\<close> as separate steps that any number of
  CPUs interleave. Its invariant gives mutual exclusion, that interrupts are off on a CPU that
  holds or waits for a lock, and that \<open>noff\<close> counts the locks.

  The second part is what the rest of the kernel model uses: \<open>held\<close>, the set of locks this CPU
  holds. The last lemmas relate the two.
\<close>

section \<open>The lock words\<close>

record spinlock =
  lk_locked :: bool
  lk_cpu :: "nat option"

record cpu =
  c_noff :: int
  c_intena :: bool
  c_sie :: bool

record machine =
  m_locks :: "lockid \<Rightarrow> spinlock"
  m_cpus :: "nat \<Rightarrow> cpu"

type_synonym 'a M = "(machine, 'a) kmon"

definition upd_cpu :: "nat \<Rightarrow> (cpu \<Rightarrow> cpu) \<Rightarrow> unit M" where
  [kdefs]: "upd_cpu c f = modk (\<lambda>m. m\<lparr>m_cpus := (m_cpus m)(c := f (m_cpus m c))\<rparr>)"

definition upd_lock :: "lockid \<Rightarrow> (spinlock \<Rightarrow> spinlock) \<Rightarrow> unit M" where
  [kdefs]: "upd_lock l f = modk (\<lambda>m. m\<lparr>m_locks := (m_locks m)(l := f (m_locks m l))\<rparr>)"

definition intr_get :: "nat \<Rightarrow> bool M" where
  [kdefs]: "intr_get c = getk (\<lambda>m. c_sie (m_cpus m c))"

definition intr_off :: "nat \<Rightarrow> unit M" where
  [kdefs]: "intr_off c = upd_cpu c (c_sie_update (\<lambda>_. False))"

definition intr_on :: "nat \<Rightarrow> unit M" where
  [kdefs]: "intr_on c = upd_cpu c (c_sie_update (\<lambda>_. True))"

definition initlock_word :: "lockid \<Rightarrow> unit M" where
  [kdefs]: "initlock_word l = upd_lock l (\<lambda>_. \<lparr>lk_locked = False, lk_cpu = None\<rparr>)"

definition holding_word :: "nat \<Rightarrow> lockid \<Rightarrow> bool M" where
  [kdefs]: "holding_word c l =
     getk (\<lambda>m. lk_locked (m_locks m l) \<and> lk_cpu (m_locks m l) = Some c)"

definition push_off :: "nat \<Rightarrow> unit M" where
  [kdefs]: "push_off c =
    bnd (intr_get c) (\<lambda>old.
    sq (intr_off c)
    (bnd (getk (\<lambda>m. c_noff (m_cpus m c))) (\<lambda>n.
    sq (whenk (n = 0) (upd_cpu c (c_intena_update (\<lambda>_. old))))
    (upd_cpu c (c_noff_update (\<lambda>n. n + 1))))))"

definition pop_off :: "nat \<Rightarrow> unit M" where
  [kdefs]: "pop_off c =
    bnd (intr_get c) (\<lambda>on.
    if on then panic ''pop_off - interruptible'' else
    bnd (getk (\<lambda>m. c_noff (m_cpus m c))) (\<lambda>n.
    if n < 1 then panic ''pop_off'' else
    sq (upd_cpu c (c_noff_update (\<lambda>n. n - 1)))
    (bnd (getk (\<lambda>m. m_cpus m c)) (\<lambda>cp.
    whenk (c_noff cp = 0 \<and> c_intena cp) (intr_on c)))))"

text \<open>
  \<open>acquire\<close> in three actions: entry up to the loop, one round of the test-and-set loop
  (its result is the old value of the lock word), and recording the owner.
\<close>

definition acquire_enter :: "nat \<Rightarrow> lockid \<Rightarrow> unit M" where
  [kdefs]: "acquire_enter c l =
    sq (push_off c)
    (bnd (holding_word c l) (\<lambda>h. if h then panic ''acquire'' else ret ()))"

definition test_and_set :: "lockid \<Rightarrow> bool M" where
  [kdefs]: "test_and_set l =
    bnd (getk (\<lambda>m. lk_locked (m_locks m l))) (\<lambda>old.
    sq (upd_lock l (lk_locked_update (\<lambda>_. True))) (ret old))"

definition acquire_own :: "nat \<Rightarrow> lockid \<Rightarrow> unit M" where
  [kdefs]: "acquire_own c l = upd_lock l (lk_cpu_update (\<lambda>_. Some c))"

text \<open>\<open>release\<close> likewise: forgetting the owner, clearing the lock word, \<open>pop_off\<close>.\<close>

definition release_enter :: "nat \<Rightarrow> lockid \<Rightarrow> unit M" where
  [kdefs]: "release_enter c l =
    bnd (holding_word c l) (\<lambda>h.
    if \<not> h then panic ''release'' else upd_lock l (lk_cpu_update (\<lambda>_. None)))"

definition release_clear :: "lockid \<Rightarrow> unit M" where
  [kdefs]: "release_clear l = upd_lock l (lk_locked_update (\<lambda>_. False))"

section \<open>Interleaved CPUs\<close>

datatype lpc = Running | Spinning lockid | Taken lockid | Releasing lockid | Popping

text \<open>The steps CPUs take; a panicking or spinning attempt is no step of its own.\<close>

inductive lstep :: "machine \<times> (nat \<Rightarrow> lpc) \<Rightarrow> machine \<times> (nat \<Rightarrow> lpc) \<Rightarrow> bool" where
  acq_enter: "pc c = Running \<Longrightarrow> acquire_enter c l m = Done () m' \<Longrightarrow>
     lstep (m, pc) (m', pc(c := Spinning l))"
| acq_spin: "pc c = Spinning l \<Longrightarrow> test_and_set l m = Done True m' \<Longrightarrow>
     lstep (m, pc) (m', pc)"
| acq_take: "pc c = Spinning l \<Longrightarrow> test_and_set l m = Done False m' \<Longrightarrow>
     lstep (m, pc) (m', pc(c := Taken l))"
| acq_own: "pc c = Taken l \<Longrightarrow> acquire_own c l m = Done () m' \<Longrightarrow>
     lstep (m, pc) (m', pc(c := Running))"
| rel_enter: "pc c = Running \<Longrightarrow> release_enter c l m = Done () m' \<Longrightarrow>
     lstep (m, pc) (m', pc(c := Releasing l))"
| rel_clear: "pc c = Releasing l \<Longrightarrow> release_clear l m = Done () m' \<Longrightarrow>
     lstep (m, pc) (m', pc(c := Popping))"
| rel_pop: "pc c = Popping \<Longrightarrow> pop_off c m = Done () m' \<Longrightarrow>
     lstep (m, pc) (m', pc(c := Running))"
| intr_toggle: "pc c = Running \<Longrightarrow> c_noff (m_cpus m c) = 0 \<Longrightarrow>
     (if b then intr_on c else intr_off c) m = Done () m' \<Longrightarrow>
     lstep (m, pc) (m', pc)"

inductive_cases lstepE: "lstep (m, pc) (m', pc')"

definition boot_machine :: machine where
  "boot_machine = \<lparr>m_locks = (\<lambda>_. \<lparr>lk_locked = False, lk_cpu = None\<rparr>),
                   m_cpus = (\<lambda>_. \<lparr>c_noff = 0, c_intena = False, c_sie = False\<rparr>)\<rparr>"

inductive lreach :: "machine \<times> (nat \<Rightarrow> lpc) \<Rightarrow> bool" where
  lreach_boot: "lreach (boot_machine, \<lambda>_. Running)"
| lreach_step: "lreach x \<Longrightarrow> lstep x y \<Longrightarrow> lreach y"

text \<open>\<open>owns m pc c l\<close>: CPU \<open>c\<close> is between taking the lock word of \<open>l\<close> and clearing it.\<close>

definition owns :: "machine \<Rightarrow> (nat \<Rightarrow> lpc) \<Rightarrow> nat \<Rightarrow> lockid \<Rightarrow> bool" where
  "owns m pc c l \<longleftrightarrow> lk_locked (m_locks m l) \<and>
     (lk_cpu (m_locks m l) = Some c \<or> pc c = Taken l \<or> pc c = Releasing l)"

definition pending :: "lpc \<Rightarrow> int" where
  "pending p = (case p of Spinning l \<Rightarrow> 1 | Popping \<Rightarrow> 1 | _ \<Rightarrow> 0)"

text \<open>
  A free lock has no owner; a locked one has exactly one, and where the owner's CPU is not
  recorded the owner is in the middle of taking or clearing it.
\<close>

definition lock_wf :: "machine \<Rightarrow> (nat \<Rightarrow> lpc) \<Rightarrow> bool" where
  "lock_wf m pc \<longleftrightarrow>
     (\<forall>l. lk_cpu (m_locks m l) \<noteq> None \<longrightarrow> lk_locked (m_locks m l)) \<and>
     (\<forall>c l. pc c = Taken l \<or> pc c = Releasing l \<longrightarrow>
        lk_locked (m_locks m l) \<and> lk_cpu (m_locks m l) = None) \<and>
     (\<forall>c d l. (pc c = Taken l \<or> pc c = Releasing l) \<and> (pc d = Taken l \<or> pc d = Releasing l) \<longrightarrow> c = d)"

definition noff_wf :: "machine \<Rightarrow> (nat \<Rightarrow> lpc) \<Rightarrow> bool" where
  "noff_wf m pc \<longleftrightarrow> (\<forall>c. finite {l. owns m pc c l} \<and>
     c_noff (m_cpus m c) = int (card {l. owns m pc c l}) + pending (pc c) \<and>
     (0 < c_noff (m_cpus m c) \<longrightarrow> \<not> c_sie (m_cpus m c)))"

lemma lock_wf_boot: "lock_wf boot_machine (\<lambda>_. Running)"
  by (simp add: lock_wf_def boot_machine_def)

lemma noff_wf_boot: "noff_wf boot_machine (\<lambda>_. Running)"
  by (simp add: noff_wf_def owns_def boot_machine_def pending_def)

lemma lock_wf_step: "lstep (m, pc) (m', pc') \<Longrightarrow> lock_wf m pc \<Longrightarrow> lock_wf m' pc'"
proof (elim lstepE, goal_cases)
  case (1 c l) then show ?case
    by (auto simp: lock_wf_def kdefs split: if_splits)
next
  case (2 c l) then show ?case
    by (auto simp: lock_wf_def kdefs split: if_splits)
next
  case (3 c l) then show ?case
    by (auto simp: lock_wf_def kdefs split: if_splits)
next
  case (4 c l) then show ?case
    by (clarsimp simp: lock_wf_def kdefs split: if_splits) blast
next
  case (5 c l) then show ?case
    by (auto simp: lock_wf_def kdefs split: if_splits)
next
  case (6 c l) then show ?case
    by (clarsimp simp: lock_wf_def kdefs split: if_splits) blast
next
  case (7 c) then show ?case
    by (auto simp: lock_wf_def kdefs split: if_splits)
next
  case (8 c b) then show ?case
    by (auto simp: lock_wf_def kdefs split: if_splits)
qed

lemma owns_same:
  assumes "\<And>l. lk_locked (m_locks m' l) = lk_locked (m_locks m l)"
    and "\<And>l. lk_locked (m_locks m l) \<Longrightarrow>
      (lk_cpu (m_locks m' l) = Some c \<or> pc' c = Taken l \<or> pc' c = Releasing l)
      = (lk_cpu (m_locks m l) = Some c \<or> pc c = Taken l \<or> pc c = Releasing l)"
  shows "{l. owns m' pc' c l} = {l. owns m pc c l}"
  using assms by (auto simp: owns_def)

lemma owns_unique: "lock_wf m pc \<Longrightarrow> owns m pc c l \<Longrightarrow> owns m pc d l \<Longrightarrow> c = d"
  unfolding lock_wf_def owns_def by (elim conjE disjE) auto

lemma noff_wf_step:
  assumes "lstep (m, pc) (m', pc')" and wf: "lock_wf m pc" and no: "noff_wf m pc"
  shows "noff_wf m' pc'"
  using assms(1)
proof (elim lstepE, goal_cases)
  case (1 c l)
  have "{l. owns m' pc' d l} = {l. owns m pc d l}" for d
    using 1 wf by (intro owns_same) (auto simp: kdefs split: if_splits)
  with 1 no show ?case
    by (auto simp: noff_wf_def pending_def kdefs split: if_splits)
next
  case (2 c l)
  have "{l. owns m' pc' d l} = {l. owns m pc d l}" for d
    using 2 wf by (intro owns_same) (auto simp: kdefs split: if_splits)
  with 2 no show ?case
    by (auto simp: noff_wf_def pending_def kdefs split: if_splits)
next
  case (3 c l)
  have free: "\<not> owns m pc d l" for d
    using 3 by (auto simp: kdefs owns_def split: if_splits)
  have same: "{l. owns m' pc' d l} = {l. owns m pc d l}" if "d \<noteq> c" for d
    using 3 wf that by (auto simp: kdefs owns_def lock_wf_def split: if_splits)
  have this_c: "{l. owns m' pc' c l} = insert l {l. owns m pc c l}"
    using 3 wf by (auto simp: kdefs owns_def lock_wf_def split: if_splits)
  show ?case
    unfolding noff_wf_def
  proof (intro allI)
    fix d
    show "finite {l. owns m' pc' d l} \<and>
      c_noff (m_cpus m' d) = int (card {l. owns m' pc' d l}) + pending (pc' d) \<and>
      (0 < c_noff (m_cpus m' d) \<longrightarrow> \<not> c_sie (m_cpus m' d))"
      using 3 no free this_c same
      by (cases "d = c") (auto simp: noff_wf_def pending_def kdefs split: if_splits)
  qed
next
  case (4 c l)
  have "{l. owns m' pc' d l} = {l. owns m pc d l}" for d
    using 4 wf by (auto simp: kdefs owns_def lock_wf_def split: if_splits)
  with 4 no show ?case
    by (auto simp: noff_wf_def pending_def kdefs split: if_splits)
next
  case (5 c l)
  have "{l. owns m' pc' d l} = {l. owns m pc d l}" for d
    using 5 wf by (auto simp: kdefs owns_def lock_wf_def split: if_splits)
  with 5 no show ?case
    by (auto simp: noff_wf_def pending_def kdefs split: if_splits)
next
  case (6 c l)
  have mine: "owns m pc c l"
    using 6 wf by (auto simp: owns_def lock_wf_def)
  have same: "{l. owns m' pc' d l} = {l. owns m pc d l}" if "d \<noteq> c" for d
  proof -
    have "\<not> owns m pc d l" using owns_unique [OF wf mine] that by blast
    then show ?thesis using 6 that by (auto simp: kdefs owns_def split: if_splits)
  qed
  have this_c: "{l. owns m' pc' c l} = {l. owns m pc c l} - {l}"
    using 6 wf by (auto simp: kdefs owns_def lock_wf_def split: if_splits)
  show ?case
    unfolding noff_wf_def
  proof (intro allI)
    fix d
    have "finite {l. owns m pc c l} \<Longrightarrow> int (card {l. owns m pc c l}) = int (card ({l. owns m pc c l} - {l})) + 1"
      using mine card_Suc_Diff1 [of "{l. owns m pc c l}" l] by simp
    then show "finite {l. owns m' pc' d l} \<and>
      c_noff (m_cpus m' d) = int (card {l. owns m' pc' d l}) + pending (pc' d) \<and>
      (0 < c_noff (m_cpus m' d) \<longrightarrow> \<not> c_sie (m_cpus m' d))"
      using 6 no this_c same
      by (cases "d = c") (auto simp: noff_wf_def pending_def kdefs split: if_splits)
  qed
next
  case (7 c)
  have "{l. owns m' pc' d l} = {l. owns m pc d l}" for d
    using 7 wf by (auto simp: kdefs owns_def lock_wf_def split: if_splits)
  with 7 no show ?case
    by (auto simp: noff_wf_def pending_def kdefs split: if_splits)
next
  case (8 c b)
  have "{l. owns m' pc' d l} = {l. owns m pc d l}" for d
    using 8 wf by (auto simp: kdefs owns_def split: if_splits)
  with 8 no show ?case
    by (auto simp: noff_wf_def pending_def kdefs split: if_splits)
qed

lemma lreach_wf: "lreach x \<Longrightarrow> lock_wf (fst x) (snd x) \<and> noff_wf (fst x) (snd x)"
proof (induction rule: lreach.induct)
  case lreach_boot
  show ?case by (simp add: lock_wf_boot noff_wf_boot)
next
  case (lreach_step x y)
  then show ?case
    by (metis lock_wf_step noff_wf_step prod.collapse)
qed

text \<open>C8. In every state that any number of CPUs reach by running \<open>acquire\<close> and \<open>release\<close> in any
  interleaving of their atomic actions, a lock is owned by at most one CPU, and a CPU that owns
  a lock has interrupts off and a nesting counter at least the number of locks it owns.
\<close>

theorem spinlock_mutual_exclusion:
  assumes "lreach (m, pc)" and "owns m pc c l"
  shows "(\<forall>d. owns m pc d l \<longrightarrow> d = c) \<and> \<not> c_sie (m_cpus m c) \<and>
         int (card {k. owns m pc c k}) \<le> c_noff (m_cpus m c)"
proof -
  have wf: "lock_wf m pc" and no: "noff_wf m pc"
    using lreach_wf [OF assms(1)] by simp_all
  have fin: "finite {k. owns m pc c k}"
    and eq: "c_noff (m_cpus m c) = int (card {k. owns m pc c k}) + pending (pc c)"
    and off: "0 < c_noff (m_cpus m c) \<longrightarrow> \<not> c_sie (m_cpus m c)"
    using no by (auto simp: noff_wf_def)
  have "0 < card {k. owns m pc c k}"
    using fin assms(2) by (auto simp: card_gt_0_iff)
  moreover have "0 \<le> pending (pc c)"
    by (simp add: pending_def split: lpc.splits)
  ultimately show ?thesis
    using eq off owns_unique [OF wf assms(2)] by auto
qed

definition one_owner :: machine where
  "one_owner = \<lparr>m_locks = (m_locks boot_machine)(LogLock := \<lparr>lk_locked = True, lk_cpu = Some 0\<rparr>),
     m_cpus = (m_cpus boot_machine)(0 := \<lparr>c_noff = 1, c_intena = False, c_sie = False\<rparr>)\<rparr>"

lemma one_owner_reached: "lreach (one_owner, \<lambda>_. Running)"
proof -
  let ?m1 = "boot_machine\<lparr>m_cpus := (m_cpus boot_machine)(0 := \<lparr>c_noff = 1, c_intena = False, c_sie = False\<rparr>)\<rparr>"
  let ?m2 = "?m1\<lparr>m_locks := (m_locks ?m1)(LogLock := \<lparr>lk_locked = True, lk_cpu = None\<rparr>)\<rparr>"
  have "lreach (boot_machine, \<lambda>_. Running)" by (rule lreach.lreach_boot)
  then have "lreach (?m1, (\<lambda>_. Running)(0 := Spinning LogLock))"
    by (rule lreach.lreach_step) (rule lstep.acq_enter, simp, simp add: kdefs boot_machine_def)
  then have "lreach (?m2, (\<lambda>_. Running)(0 := Taken LogLock))"
  proof (rule lreach.lreach_step)
    have "lstep (?m1, (\<lambda>_. Running)(0 := Spinning LogLock))
            (?m2, ((\<lambda>_. Running)(0 := Spinning LogLock))(0 := Taken LogLock))"
      by (rule lstep.acq_take) (simp, simp add: kdefs boot_machine_def)
    then show "lstep (?m1, (\<lambda>_. Running)(0 := Spinning LogLock))
            (?m2, (\<lambda>_. Running)(0 := Taken LogLock))" by simp
  qed
  then show ?thesis
  proof (rule lreach.lreach_step)
    have "lstep (?m2, (\<lambda>_. Running)(0 := Taken LogLock))
            (one_owner, ((\<lambda>_. Running)(0 := Taken LogLock))(0 := Running))"
      by (rule lstep.acq_own) (simp, simp add: kdefs boot_machine_def one_owner_def)
    then show "lstep (?m2, (\<lambda>_. Running)(0 := Taken LogLock)) (one_owner, \<lambda>_. Running)"
      by (simp add: fun_upd_idem)
  qed
qed

theorem spinlock_mutual_exclusion_witness:
  "lreach (one_owner, \<lambda>_. Running) \<and> owns one_owner (\<lambda>_. Running) 0 LogLock \<and>
   \<not> c_sie (m_cpus one_owner 0)"
proof -
  have own: "owns one_owner (\<lambda>_. Running) 0 LogLock"
    by (simp add: owns_def one_owner_def)
  show ?thesis
    using spinlock_mutual_exclusion [OF one_owner_reached own] own one_owner_reached by simp
qed

section \<open>The set of locks this CPU holds\<close>

definition initlock :: "lockid \<Rightarrow> unit K" where
  [kdefs]: "initlock l = modk (\<lambda>s. s\<lparr>held := held s - {l}\<rparr>)"

definition holding :: "lockid \<Rightarrow> bool K" where
  [kdefs]: "holding l = getk (\<lambda>s. l \<in> held s)"

definition acquire :: "lockid \<Rightarrow> unit K" where
  [kdefs]: "acquire l =
    bnd (holding l) (\<lambda>h. if h then panic ''acquire''
      else modk (\<lambda>s. s\<lparr>held := insert l (held s)\<rparr>))"

definition release :: "lockid \<Rightarrow> unit K" where
  [kdefs]: "release l =
    bnd (holding l) (\<lambda>h. if \<not> h then panic ''release''
      else modk (\<lambda>s. s\<lparr>held := held s - {l}\<rparr>))"

lemma wp_acquire [wp_rule]:
  "wp (acquire l) Q s \<longleftrightarrow> l \<notin> held s \<and> Q () (s\<lparr>held := insert l (held s)\<rparr>)"
  by (simp add: acquire_def holding_def wp_rule)

lemma wp_release [wp_rule]:
  "wp (release l) Q s \<longleftrightarrow> l \<in> held s \<and> Q () (s\<lparr>held := held s - {l}\<rparr>)"
  by (simp add: release_def holding_def wp_rule)

lemma wp_initlock [wp_rule]: "wp (initlock l) Q s \<longleftrightarrow> Q () (s\<lparr>held := held s - {l}\<rparr>)"
  by (simp add: initlock_def)

lemma acquire_Done [simp]: "l \<notin> held s \<Longrightarrow> acquire l s = Done () (s\<lparr>held := insert l (held s)\<rparr>)"
  by (simp add: kdefs)

lemma release_Done [simp]: "l \<in> held s \<Longrightarrow> release l s = Done () (s\<lparr>held := held s - {l}\<rparr>)"
  by (simp add: kdefs)

lemma held_restored [simp]: "l \<notin> H \<Longrightarrow> insert l H - {l} = H"
  by simp

text \<open>
  The two levels agree: with \<open>held_by m c\<close> the locks whose words name CPU \<open>c\<close>, an uncontended
  run of the word-level actions does to \<open>held_by\<close> what \<open>acquire\<close> and \<open>release\<close> do to \<open>held\<close>,
  panics included.
\<close>

definition held_by :: "machine \<Rightarrow> nat \<Rightarrow> lockid set" where
  "held_by m c = {l. lk_locked (m_locks m l) \<and> lk_cpu (m_locks m l) = Some c}"

definition acquire_word :: "nat \<Rightarrow> lockid \<Rightarrow> unit M" where
  [kdefs]: "acquire_word c l =
    sq (acquire_enter c l) (bnd (test_and_set l) (\<lambda>old. if old then fault else acquire_own c l))"

definition release_word :: "nat \<Rightarrow> lockid \<Rightarrow> unit M" where
  [kdefs]: "release_word c l = sq (release_enter c l) (sq (release_clear l) (pop_off c))"

fun holds_like :: "(unit, machine) outcome \<Rightarrow> (unit, kstate) outcome \<Rightarrow> nat \<Rightarrow> bool" where
  "holds_like (Done _ m) (Done _ s) c = (held_by m c = held s)"
| "holds_like (Panic e) (Panic e') c = (e = e')"
| "holds_like _ _ c = False"

lemma acquire_refines:
  assumes "held_by m c = held s" and "l \<in> held s \<or> \<not> lk_locked (m_locks m l)"
  shows "holds_like (acquire_word c l m) (acquire l s) c"
  using assms by (auto simp: kdefs held_by_def)

lemma release_refines:
  assumes "held_by m c = held s" and "noff_wf m pc" and "pc c = Running"
  shows "holds_like (release_word c l m) (release l s) c"
proof (cases "l \<in> held s")
  case True
  then have own: "owns m pc c l" using assms(1) by (auto simp: held_by_def owns_def)
  then have "0 < card {k. owns m pc c k}"
    using assms(2) by (auto simp: noff_wf_def card_gt_0_iff)
  then have "0 < c_noff (m_cpus m c)" "\<not> c_sie (m_cpus m c)"
    using assms(2,3) by (auto simp: noff_wf_def pending_def dest!: spec [of _ c])
  then show ?thesis
    using True assms(1) by (auto simp: kdefs held_by_def)
next
  case False
  then show ?thesis using assms(1) by (auto simp: kdefs held_by_def)
qed

section \<open>The interface its clients rely on\<close>

locale lock_api =
  fixes acq rel :: "lockid \<Rightarrow> ('s, unit) kmon"
    and hld :: "'s \<Rightarrow> lockid set"
  assumes acq_free: "l \<notin> hld s \<Longrightarrow> \<exists>s'. acq l s = Done () s' \<and> hld s' = insert l (hld s)"
    and acq_held: "l \<in> hld s \<Longrightarrow> acq l s = Panic ''acquire''"
    and rel_held: "l \<in> hld s \<Longrightarrow> \<exists>s'. rel l s = Done () s' \<and> hld s' = hld s - {l}"
    and rel_free: "l \<notin> hld s \<Longrightarrow> rel l s = Panic ''release''"
begin

text \<open>A critical section whose body keeps the set of held locks restores it.\<close>

lemma critical_section:
  assumes "l \<notin> hld s"
    and body: "\<And>s1. hld s1 = insert l (hld s) \<Longrightarrow> \<exists>a s2. body s1 = Done a s2 \<and> hld s2 = hld s1"
  shows "\<exists>a s'. sq (acq l) (bnd body (\<lambda>a. sq (rel l) (ret a))) s = Done a s' \<and> hld s' = hld s"
proof -
  obtain s1 where s1: "acq l s = Done () s1" "hld s1 = insert l (hld s)"
    using acq_free [OF assms(1)] by blast
  obtain a s2 where s2: "body s1 = Done a s2" "hld s2 = hld s1"
    using body [OF s1(2)] by blast
  obtain s3 where s3: "rel l s2 = Done () s3" "hld s3 = hld s2 - {l}"
    using rel_held [of l s2] s1 s2 by auto
  show ?thesis
    using s1 s2 s3 assms(1) by (simp add: ret_def) 
qed

lemma reacquire_panics: "l \<notin> hld s \<Longrightarrow> sq (acq l) (acq l) s = Panic ''acquire''"
proof -
  assume "l \<notin> hld s"
  then obtain s1 where "acq l s = Done () s1" "hld s1 = insert l (hld s)"
    using acq_free by blast
  then show ?thesis using acq_held [of l s1] by simp
qed

end

interpretation klock: lock_api acquire release held
  by unfold_locales (auto simp: kdefs)

end
