(* ===== verification/Sched.thy ===== *)
theory Sched
  imports Spinlock
begin

text \<open>
  The part of \<open>proc.c\<close> that blocks and wakes processes (\<open>myproc\<close>, \<open>sched\<close>, \<open>yield\<close>, \<open>sleep\<close>,
  \<open>wakeup\<close>, \<open>kkill\<close>, \<open>setkilled\<close>, \<open>killed\<close>) and the sleeping locks of \<open>sleeplock.c\<close> built on it.

  A run of a routine ends where the process switches to the scheduler: the outcome is then
  \<open>Sleep s\<close>. What the code does after \<open>sched()\<close> returns is a routine of its own
  (\<open>sleep_resume\<close>, \<open>yield_resume\<close>).
\<close>

section \<open>Processes\<close>

definition myproc :: "nat option K" where
  [kdefs]: "myproc = getk cur"

definition this_proc :: "nat K" where
  [kdefs]: "this_proc = bnd myproc (\<lambda>p. case p of None \<Rightarrow> fault | Some i \<Rightarrow> ret i)"

definition sched :: "unit K" where
  [kdefs]: "sched =
    bnd this_proc (\<lambda>p.
    bnd (holding (ProcLock p)) (\<lambda>h.
    if \<not> h then panic ''sched p->lock'' else
    bnd (getk (\<lambda>s. card (held s))) (\<lambda>noff.
    if noff \<noteq> 1 then panic ''sched locks'' else
    bnd (getk (\<lambda>s. p_state (procs s p))) (\<lambda>st.
    if st = RUNNING then panic ''sched RUNNING'' else
    (\<lambda>s. Sleep s)))))"

definition yield :: "unit K" where
  [kdefs]: "yield =
    bnd this_proc (\<lambda>p.
    sq (acquire (ProcLock p))
    (sq (upd_proc p (p_state_update (\<lambda>_. RUNNABLE)))
    sched))"

definition yield_resume :: "unit K" where
  [kdefs]: "yield_resume = bnd this_proc (\<lambda>p. release (ProcLock p))"

definition sleep :: "chan \<Rightarrow> lockid \<Rightarrow> unit K" where
  [kdefs]: "sleep ch lk =
    bnd this_proc (\<lambda>p.
    sq (acquire (ProcLock p))
    (sq (release lk)
    (sq (upd_proc p (p_chan_update (\<lambda>_. Some ch)))
    (sq (upd_proc p (p_state_update (\<lambda>_. SLEEPING)))
    sched))))"

definition sleep_resume :: "lockid \<Rightarrow> unit K" where
  [kdefs]: "sleep_resume lk =
    bnd this_proc (\<lambda>p.
    sq (upd_proc p (p_chan_update (\<lambda>_. None)))
    (sq (release (ProcLock p))
    (acquire lk)))"

definition wakeup_one :: "chan \<Rightarrow> nat \<Rightarrow> unit K" where
  [kdefs]: "wakeup_one ch i =
    bnd myproc (\<lambda>me.
    whenk (Some i \<noteq> me)
      (sq (acquire (ProcLock i))
      (sq (bnd (getk (\<lambda>s. procs s i)) (\<lambda>p.
           whenk (p_state p = SLEEPING \<and> p_chan p = Some ch)
             (upd_proc i (p_state_update (\<lambda>_. RUNNABLE)))))
      (release (ProcLock i)))))"

definition wakeup :: "chan \<Rightarrow> unit K" where
  "wakeup ch = for_each [0..<NPROC] (wakeup_one ch)"

text \<open>\<open>kkill\<close> scans the table and returns at the first process with the given pid.\<close>

fun kkill_scan :: "nat list \<Rightarrow> int \<Rightarrow> int K" where
  "kkill_scan [] pid = ret (-1)"
| "kkill_scan (i # is) pid =
    sq (acquire (ProcLock i))
    (bnd (getk (\<lambda>s. procs s i)) (\<lambda>p.
    if p_pid p = pid then
      sq (upd_proc i (p_killed_update (\<lambda>_. True)))
      (sq (whenk (p_state p = SLEEPING) (upd_proc i (p_state_update (\<lambda>_. RUNNABLE))))
      (sq (release (ProcLock i))
      (ret 0)))
    else sq (release (ProcLock i)) (kkill_scan is pid)))"

definition kkill :: "int \<Rightarrow> int K" where
  "kkill pid = kkill_scan [0..<NPROC] pid"

definition setkilled :: "nat \<Rightarrow> unit K" where
  [kdefs]: "setkilled i =
    sq (acquire (ProcLock i))
    (sq (upd_proc i (p_killed_update (\<lambda>_. True)))
    (release (ProcLock i)))"

definition killed :: "nat \<Rightarrow> bool K" where
  [kdefs]: "killed i =
    sq (acquire (ProcLock i))
    (bnd (getk (\<lambda>s. p_killed (procs s i))) (\<lambda>k.
    sq (release (ProcLock i))
    (ret k)))"

section \<open>What they do\<close>

definition wake_if :: "chan \<Rightarrow> proc \<Rightarrow> proc" where
  "wake_if ch p = (if p_state p = SLEEPING \<and> p_chan p = Some ch then p\<lparr>p_state := RUNNABLE\<rparr> else p)"

definition no_proc_lock :: "kstate \<Rightarrow> bool" where
  "no_proc_lock s \<longleftrightarrow> (\<forall>i. ProcLock i \<notin> held s)"

definition wake_procs :: "chan \<Rightarrow> nat option \<Rightarrow> (nat \<Rightarrow> proc) \<Rightarrow> nat \<Rightarrow> proc" where
  "wake_procs ch me ps = (\<lambda>i. if i < NPROC \<and> Some i \<noteq> me then wake_if ch (ps i) else ps i)"

definition after_wakeup :: "chan \<Rightarrow> kstate \<Rightarrow> kstate" where
  "after_wakeup ch s = s\<lparr>procs := wake_procs ch (cur s) (procs s)\<rparr>"

lemma wakeup_one_eq:
  "no_proc_lock s \<Longrightarrow> wakeup_one ch i s =
   Done () (s\<lparr>procs := (procs s)(i := if Some i \<noteq> cur s then wake_if ch (procs s i) else procs s i)\<rparr>)"
  by (auto simp: kdefs wake_if_def no_proc_lock_def)

lemma for_each_wakeup:
  "no_proc_lock s \<Longrightarrow> distinct is \<Longrightarrow> for_each is (wakeup_one ch) s =
   Done () (s\<lparr>procs := (\<lambda>i. if i \<in> set is \<and> Some i \<noteq> cur s then wake_if ch (procs s i) else procs s i)\<rparr>)"
proof (induction "is" arbitrary: s)
  case Nil
  then show ?case by (simp add: ret_def)
next
  case (Cons i "is")
  let ?s1 = "s\<lparr>procs := (procs s)(i := if Some i \<noteq> cur s then wake_if ch (procs s i) else procs s i)\<rparr>"
  have "no_proc_lock ?s1" using Cons.prems(1) by (simp add: no_proc_lock_def)
  then have "for_each is (wakeup_one ch) ?s1 =
    Done () (?s1\<lparr>procs := (\<lambda>j. if j \<in> set is \<and> Some j \<noteq> cur ?s1 then wake_if ch (procs ?s1 j) else procs ?s1 j)\<rparr>)"
    using Cons.prems by (intro Cons.IH) auto
  then show ?case
    using Cons.prems by (auto simp: wakeup_one_eq fun_eq_iff)
qed

lemma wakeup_eq: "no_proc_lock s \<Longrightarrow> wakeup ch s = Done () (after_wakeup ch s)"
  unfolding wakeup_def after_wakeup_def wake_procs_def by (subst for_each_wakeup) (auto simp del: NPROC_def)

lemma wp_wakeup [wp_rule]: "no_proc_lock s \<Longrightarrow> wp (wakeup ch) Q s \<longleftrightarrow> Q () (after_wakeup ch s)"
  by (simp add: wp_def wakeup_eq)

lemma after_wakeup_simps [simp]:
  "lay (after_wakeup ch s) = lay s" "held (after_wakeup ch s) = held s"
  "cur (after_wakeup ch s) = cur s" "ticks (after_wakeup ch s) = ticks s"
  "conout (after_wakeup ch s) = conout s" "freelist (after_wakeup ch s) = freelist s"
  "heap (after_wakeup ch s) = heap s" "bufs (after_wakeup ch s) = bufs s"
  "disk (after_wakeup ch s) = disk s" "dwrites (after_wakeup ch s) = dwrites s"
  "klog (after_wakeup ch s) = klog s" "sb (after_wakeup ch s) = sb s"
  "itable (after_wakeup ch s) = itable s" "ftable (after_wakeup ch s) = ftable s"
  "nextpid (after_wakeup ch s) = nextpid s" "initproc (after_wakeup ch s) = initproc s"
  "kernel_pagetable (after_wakeup ch s) = kernel_pagetable s" "fs_first (after_wakeup ch s) = fs_first s"
  "devsw (after_wakeup ch s) = devsw s" "cons (after_wakeup ch s) = cons s"
  "uart (after_wakeup ch s) = uart s" "csrs (after_wakeup ch s) = csrs s" "plic (after_wakeup ch s) = plic s"
  "vd (after_wakeup ch s) = vd s"
  by (simp_all add: after_wakeup_def)

lemma wake_if_simps [simp]:
  "p_chan (wake_if ch p) = p_chan p" "p_killed (wake_if ch p) = p_killed p"
  "p_xstate (wake_if ch p) = p_xstate p" "p_pid (wake_if ch p) = p_pid p"
  "p_parent (wake_if ch p) = p_parent p" "p_kstack (wake_if ch p) = p_kstack p"
  "p_sz (wake_if ch p) = p_sz p" "p_pagetable (wake_if ch p) = p_pagetable p"
  "p_trapframe (wake_if ch p) = p_trapframe p" "p_ofile (wake_if ch p) = p_ofile p"
  "p_cwd (wake_if ch p) = p_cwd p" "p_name (wake_if ch p) = p_name p" "p_tx (wake_if ch p) = p_tx p"
  by (simp_all add: wake_if_def)

lemma wake_procs_simps [simp]:
  "p_chan (wake_procs ch me ps i) = p_chan (ps i)" "p_killed (wake_procs ch me ps i) = p_killed (ps i)"
  "p_pid (wake_procs ch me ps i) = p_pid (ps i)" "p_parent (wake_procs ch me ps i) = p_parent (ps i)"
  "p_sz (wake_procs ch me ps i) = p_sz (ps i)" "p_pagetable (wake_procs ch me ps i) = p_pagetable (ps i)"
  "p_trapframe (wake_procs ch me ps i) = p_trapframe (ps i)" "p_ofile (wake_procs ch me ps i) = p_ofile (ps i)"
  "p_cwd (wake_procs ch me ps i) = p_cwd (ps i)" "p_tx (wake_procs ch me ps i) = p_tx (ps i)"
  by (simp_all add: wake_procs_def)

lemma wake_procs_me [simp]: "wake_procs ch (Some i) ps i = ps i"
  by (simp add: wake_procs_def)

lemma killed_eq: "ProcLock i \<notin> held s \<Longrightarrow> killed i s = Done (p_killed (procs s i)) s"
  by (simp add: kdefs)

lemma sleep_eq:
  assumes "cur s = Some p" and "held s = {lk}" and "lk \<noteq> ProcLock p"
  shows "sleep ch lk s = Sleep (s\<lparr>held := {ProcLock p},
           procs := (procs s)(p := (procs s p)\<lparr>p_chan := Some ch, p_state := SLEEPING\<rparr>)\<rparr>)"
proof -
  have "insert (ProcLock p) {lk} - {lk} = {ProcLock p}" using assms(3) by auto
  then show ?thesis using assms by (simp add: kdefs)
qed

section \<open>Sleeping locks\<close>

definition get_sl :: "slk \<Rightarrow> sleeplock K" where
  [kdefs]: "get_sl l = getk (\<lambda>s. case l of SLBuf b \<Rightarrow> b_lock (bufs s b) | SLInode i \<Rightarrow> i_lock (itable s i))"

definition put_sl :: "slk \<Rightarrow> sleeplock \<Rightarrow> unit K" where
  [kdefs]: "put_sl l v = (case l of
      SLBuf b \<Rightarrow> upd_buf b (b_lock_update (\<lambda>_. v))
    | SLInode i \<Rightarrow> upd_inode i (i_lock_update (\<lambda>_. v)))"

definition initsleeplock :: "slk \<Rightarrow> unit K" where
  [kdefs]: "initsleeplock l =
    sq (initlock (SleepLk l))
    (put_sl l \<lparr>sl_locked = False, sl_pid = 0\<rparr>)"

definition acquiresleep :: "slk \<Rightarrow> unit K" where
  [kdefs]: "acquiresleep l =
    sq (acquire (SleepLk l))
    (bnd (get_sl l) (\<lambda>k.
    if sl_locked k then sleep (ChSleepLock l) (SleepLk l)
    else
      bnd this_proc (\<lambda>p.
      bnd (getk (\<lambda>s. p_pid (procs s p))) (\<lambda>pid.
      sq (put_sl l \<lparr>sl_locked = True, sl_pid = pid\<rparr>)
      (release (SleepLk l))))))"

definition releasesleep :: "slk \<Rightarrow> unit K" where
  [kdefs]: "releasesleep l =
    sq (acquire (SleepLk l))
    (sq (put_sl l \<lparr>sl_locked = False, sl_pid = 0\<rparr>)
    (sq (wakeup (ChSleepLock l))
    (release (SleepLk l))))"

definition holdingsleep :: "slk \<Rightarrow> bool K" where
  [kdefs]: "holdingsleep l =
    sq (acquire (SleepLk l))
    (bnd (get_sl l) (\<lambda>k.
    bnd this_proc (\<lambda>p.
    bnd (getk (\<lambda>s. p_pid (procs s p))) (\<lambda>pid.
    sq (release (SleepLk l))
    (ret (sl_locked k \<and> sl_pid k = pid))))))"

definition my_pid :: "kstate \<Rightarrow> int" where
  "my_pid s = p_pid (procs s (the (cur s)))"

definition sl_of :: "kstate \<Rightarrow> slk \<Rightarrow> sleeplock" where
  "sl_of s l = (case l of SLBuf b \<Rightarrow> b_lock (bufs s b) | SLInode i \<Rightarrow> i_lock (itable s i))"

definition set_sl :: "slk \<Rightarrow> sleeplock \<Rightarrow> kstate \<Rightarrow> kstate" where
  "set_sl l v s = (case l of
      SLBuf b \<Rightarrow> s\<lparr>bufs := (bufs s)(b := (bufs s b)\<lparr>b_lock := v\<rparr>)\<rparr>
    | SLInode i \<Rightarrow> s\<lparr>itable := (itable s)(i := (itable s i)\<lparr>i_lock := v\<rparr>)\<rparr>)"

lemma acquiresleep_free:
  "cur s = Some p \<Longrightarrow> SleepLk l \<notin> held s \<Longrightarrow> \<not> sl_locked (sl_of s l) \<Longrightarrow>
   acquiresleep l s = Done () (set_sl l \<lparr>sl_locked = True, sl_pid = my_pid s\<rparr> s)"
  by (cases l) (auto simp: kdefs sl_of_def set_sl_def my_pid_def)

lemma acquiresleep_busy:
  assumes "cur s = Some p" and "held s = {}" and "sl_locked (sl_of s l)"
  shows "acquiresleep l s = Sleep (s\<lparr>held := {ProcLock p},
      procs := (procs s)(p := (procs s p)\<lparr>p_chan := Some (ChSleepLock l), p_state := SLEEPING\<rparr>)\<rparr>)"
proof -
  let ?s1 = "s\<lparr>held := {SleepLk l}\<rparr>"
  have "sleep (ChSleepLock l) (SleepLk l) ?s1 = Sleep (?s1\<lparr>held := {ProcLock p},
      procs := (procs ?s1)(p := (procs ?s1 p)\<lparr>p_chan := Some (ChSleepLock l), p_state := SLEEPING\<rparr>)\<rparr>)"
    using assms(1) by (intro sleep_eq) auto
  then show ?thesis
    using assms by (cases l) (simp_all add: acquiresleep_def get_sl_def sl_of_def getk_def sq_def bnd_def)
qed

lemma releasesleep_eq:
  "no_proc_lock s \<Longrightarrow> SleepLk l \<notin> held s \<Longrightarrow>
   releasesleep l s = Done () (after_wakeup (ChSleepLock l) (set_sl l no_sleeplock s))"
  by (cases l)
    (auto simp: releasesleep_def put_sl_def upd_buf_def upd_inode_def modk_def wakeup_eq no_proc_lock_def
      set_sl_def no_sleeplock_def after_wakeup_def)

lemma holdingsleep_eq:
  "cur s = Some p \<Longrightarrow> SleepLk l \<notin> held s \<Longrightarrow>
   holdingsleep l s = Done (sl_locked (sl_of s l) \<and> sl_pid (sl_of s l) = my_pid s) s"
  by (cases l) (auto simp: kdefs sl_of_def my_pid_def)

end
