(* ===== verification/Kalloc.thy ===== *)
theory Kalloc
  imports Sched
begin

text \<open>
  The page allocator, \<open>kalloc.c\<close>, with the rounding macros of \<open>riscv.h\<close> it uses.

  The free list is threaded through the free pages: a free page holds a \<open>struct run\<close> whose
  \<open>next\<close> is the following page, and \<open>freelist\<close> is its head. \<open>free_path h r xs\<close> says that the
  chain from \<open>r\<close> visits exactly the pages \<open>xs\<close> and ends in the null pointer.

  The state before \<open>main\<close> runs (all globals zero) is \<open>bss_state\<close>.
\<close>

section \<open>Rounding to pages\<close>

definition PGROUNDUP :: "u64 \<Rightarrow> u64" where
  "PGROUNDUP sz = (sz + of_nat PGSIZE - 1) AND NOT (of_nat PGSIZE - 1)"

definition PGROUNDDOWN :: "u64 \<Rightarrow> u64" where
  "PGROUNDDOWN a = a AND NOT (of_nat PGSIZE - 1)"

lemma and_not_mask: "(a :: 'a::len word) AND NOT (mask n) = push_bit n (drop_bit n a)"
  by (rule bit_word_eqI) (auto simp: bit_simps dest: bit_imp_le_length)

lemma unat_exp: "n < LENGTH('a) \<Longrightarrow> unat (2 ^ n :: 'a::len word) = 2 ^ n"
  using unat_of_nat [of "2 ^ n", where ?'a = 'a] by simp

lemma unat_align:
  "n < LENGTH('a) \<Longrightarrow> unat ((a :: 'a::len word) AND NOT (mask n)) = 2 ^ n * (unat a div 2 ^ n)"
proof -
  assume n: "n < LENGTH('a)"
  have "unat (push_bit n (drop_bit n a)) = (unat a div 2 ^ n) * 2 ^ n mod 2 ^ LENGTH('a)"
    by (simp add: push_bit_eq_mult unat_word_ariths unat_drop_bit_eq drop_bit_eq_div
        take_bit_eq_mod unat_exp [OF n] mod_mult_left_eq)
  also have "\<dots> = (unat a div 2 ^ n) * 2 ^ n"
    by (rule mod_less) (metis div_times_less_eq_dividend order_le_less_trans unsigned_less)
  finally show ?thesis by (simp add: and_not_mask mult.commute)
qed

lemma unat_PGROUNDDOWN: "unat (PGROUNDDOWN a) = 4096 * (unat a div 4096)"
proof -
  have "(4095 :: u64) = mask 12" by (simp add: mask_eq_exp_minus_1)
  then show ?thesis
    using unat_align [of 12 a] by (simp add: PGROUNDDOWN_def)
qed

lemma unat_PGROUNDUP:
  assumes "unat sz + 4095 < 2 ^ 64"
  shows "unat (PGROUNDUP sz) = 4096 * ((unat sz + 4095) div 4096)"
proof -
  have m: "(4095 :: u64) = mask 12" by (simp add: mask_eq_exp_minus_1)
  have "unat (sz + 4095) = unat sz + 4095"
    using assms by (simp add: unat_word_ariths)
  then show ?thesis
    using unat_align [of 12 "sz + 4095"] by (simp add: PGROUNDUP_def add.commute flip: m)
qed

lemma PGROUNDUP_least:
  assumes "unat sz + 4095 < 2 ^ 64"
  shows "sz \<le> PGROUNDUP sz \<and> unat (PGROUNDUP sz) mod 4096 = 0 \<and> unat (PGROUNDUP sz) < unat sz + 4096"
proof -
  have "x \<le> 4096 * ((x + 4095) div 4096) \<and> 4096 * ((x + 4095) div 4096) < x + 4096" for x :: nat
    using mult_div_mod_eq [of 4096 "x + 4095"] mod_less_divisor [of 4096 "x + 4095"] by linarith
  then show ?thesis
    using unat_PGROUNDUP [OF assms] by (simp add: word_le_nat_alt)
qed

lemma PGROUNDDOWN_greatest:
  "PGROUNDDOWN a \<le> a \<and> unat (PGROUNDDOWN a) mod 4096 = 0 \<and> unat a < unat (PGROUNDDOWN a) + 4096"
  by (simp add: unat_PGROUNDDOWN word_le_nat_alt)

section \<open>The allocator\<close>

definition get_run :: "u64 \<Rightarrow> u64 K" where
  [kdefs]: "get_run pa = (\<lambda>s. case heap s pa of Some (Run n) \<Rightarrow> Done n s | _ \<Rightarrow> Fault)"

text \<open>\<open>memset\<close> of a whole page of memory, free or not.\<close>

definition fill_page :: "u64 \<Rightarrow> u8 \<Rightarrow> unit K" where
  [kdefs]: "fill_page pa c = modk (\<lambda>s. s\<lparr>heap := (heap s)(pa \<mapsto> Bytes (\<lambda>_. c))\<rparr>)"

definition kfree :: "u64 \<Rightarrow> unit K" where
  [kdefs]: "kfree pa =
    bnd (getk (\<lambda>s. l_end (lay s))) (\<lambda>end.
    if pa mod of_nat PGSIZE \<noteq> 0 \<or> pa < end \<or> PHYSTOP \<le> pa then panic ''kfree'' else
    sq (fill_page pa 1)
    (sq (acquire KmemLock)
    (sq (modk (\<lambda>s. s\<lparr>heap := (heap s)(pa \<mapsto> Run (freelist s))\<rparr>))
    (sq (modk (\<lambda>s. s\<lparr>freelist := pa\<rparr>))
    (release KmemLock)))))"

definition kalloc :: "u64 K" where
  [kdefs]: "kalloc =
    sq (acquire KmemLock)
    (bnd (getk freelist) (\<lambda>r.
    sq (whenk (r \<noteq> 0) (bnd (get_run r) (\<lambda>next. modk (\<lambda>s. s\<lparr>freelist := next\<rparr>))))
    (sq (release KmemLock)
    (sq (whenk (r \<noteq> 0) (fill_page r 5))
    (ret r)))))"

text \<open>
  The loop of \<open>freerange\<close>. Its fuel is the number of pages below \<open>pa_end\<close>, plus one; the loop
  of the source does not end when \<open>p + PGSIZE\<close> wraps around, and then the fuel runs out.
\<close>

fun freerange_loop :: "nat \<Rightarrow> u64 \<Rightarrow> u64 \<Rightarrow> unit K" where
  "freerange_loop 0 p pa_end = fault"
| "freerange_loop (Suc n) p pa_end =
    (if p + of_nat PGSIZE \<le> pa_end
     then sq (kfree p) (freerange_loop n (p + of_nat PGSIZE) pa_end)
     else ret ())"

definition freerange :: "u64 \<Rightarrow> u64 \<Rightarrow> unit K" where
  "freerange pa_start pa_end =
     freerange_loop (Suc (unat pa_end div PGSIZE)) (PGROUNDUP pa_start) pa_end"

definition kinit :: "unit K" where
  "kinit = sq (initlock KmemLock) (bnd (getk (\<lambda>s. l_end (lay s))) (\<lambda>end. freerange end PHYSTOP))"

definition zero_buf :: buf where
  "zero_buf = \<lparr>b_valid = False, b_disk = False, b_dev = 0, b_blockno = 0, b_lock = no_sleeplock,
     b_refcnt = 0, b_prev = 0, b_next = 0, b_xobj = no_tx_data, b_data = 0\<rparr>"

definition zero_inode :: inode where
  "zero_inode = \<lparr>i_dev = 0, i_inum = 0, i_ref = 0, i_lock = no_sleeplock, i_valid = False,
     i_xobj = no_tx_data, i_data = 0\<rparr>"

definition zero_file :: kfile where
  "zero_file = \<lparr>f_type = FD_NONE, f_ref = 0, f_readable = False, f_writable = False, f_pipe = 0,
     f_ip = None, f_off = 0, f_major = 0\<rparr>"

definition zero_proc :: proc where
  "zero_proc = \<lparr>p_state = UNUSED, p_chan = None, p_killed = False, p_xstate = 0, p_pid = 0,
     p_parent = None, p_kstack = 0, p_sz = 0, p_pagetable = 0, p_trapframe = 0,
     p_ofile = replicate NOFILE None, p_cwd = None, p_name = replicate 16 0, p_tx = 0\<rparr>"

definition zero_desc :: vdesc where
  "zero_desc = \<lparr>ds_addr = DNull, ds_len = 0, ds_flags = 0, ds_next = 0\<rparr>"

definition zero_vdisk :: vdisk where
  "zero_vdisk = \<lparr>v_desc_page = 0, v_avail_page = 0, v_used_page = 0, v_desc = replicate NUM zero_desc,
     v_avail_idx = 0, v_avail = replicate NUM 0, v_dev_idx = 0, v_used = replicate NUM 0,
     v_free = replicate NUM False, v_used_idx = 0, v_info = replicate NUM \<lparr>vi_b = None, vi_status = 0\<rparr>,
     v_ops = replicate NUM \<lparr>rq_type = 0, rq_reserved = 0, rq_sector = 0\<rparr>, v_mmio = (\<lambda>_. 0)\<rparr>"

definition bss_state :: "layout \<Rightarrow> kstate" where
  "bss_state l = \<lparr>lay = l, held = {}, cur = None, ticks = 0, conout = [], freelist = 0,
     heap = (\<lambda>_. None), bufs = (\<lambda>_. zero_buf), disk = (\<lambda>_. replicate BSIZE 0), dwrites = [],
     klog = \<lparr>lg_start = 0, lg_outstanding = 0, lg_committing = False, lg_dev = 0, lh_n = 0,
             lh_block = replicate LOGBLOCKS 0\<rparr>,
     sb = \<lparr>sb_magic = 0, sb_size = 0, sb_nblocks = 0, sb_ninodes = 0, sb_nlog = 0, sb_logstart = 0,
           sb_inodestart = 0, sb_bmapstart = 0\<rparr>,
     itable = (\<lambda>_. zero_inode), ftable = (\<lambda>_. zero_file), procs = (\<lambda>_. zero_proc), nextpid = 1,
     initproc = None, kernel_pagetable = 0, fs_first = True, devsw = (\<lambda>_. False),
     cons = \<lparr>c_buf = replicate 128 0, c_r = 0, c_w = 0, c_e = 0\<rparr>,
     uart = \<lparr>u_tx_busy = False, u_tx_idle = True, u_sent = [], u_rx = [], u_regs = []\<rparr>,
     csrs = (\<lambda>_. 0), plic = (\<lambda>_. 0), vd = zero_vdisk\<rparr>"

section \<open>The free list\<close>

fun free_path :: "(u64 \<Rightarrow> kobj option) \<Rightarrow> u64 \<Rightarrow> u64 list \<Rightarrow> bool" where
  "free_path h r [] \<longleftrightarrow> r = 0"
| "free_path h r (x # xs) \<longleftrightarrow> r = x \<and> x \<noteq> 0 \<and> (\<exists>n. h x = Some (Run n) \<and> free_path h n xs)"

definition valid_page :: "layout \<Rightarrow> u64 \<Rightarrow> bool" where
  "valid_page l pa \<longleftrightarrow> pa mod 4096 = 0 \<and> l_end l \<le> pa \<and> pa < PHYSTOP \<and> pa \<noteq> 0"

definition kmem_wf :: "kstate \<Rightarrow> u64 list \<Rightarrow> bool" where
  "kmem_wf s xs \<longleftrightarrow> free_path (heap s) (freelist s) xs \<and> distinct xs \<and> (\<forall>x \<in> set xs. valid_page (lay s) x)"

lemma free_path_upd [simp]: "a \<notin> set xs \<Longrightarrow> free_path (h(a := v)) r xs = free_path h r xs"
  by (induction xs arbitrary: r) auto

lemma free_path_run: "free_path h r xs \<Longrightarrow> x \<in> set xs \<Longrightarrow> \<exists>n. h x = Some (Run n)"
  by (induction xs arbitrary: r) auto

lemma free_path_unique: "free_path h r xs \<Longrightarrow> free_path h r ys \<Longrightarrow> xs = ys"
proof (induction xs arbitrary: r ys)
  case Nil
  then show ?case by (cases ys) auto
next
  case (Cons x xs)
  then show ?case by (cases ys) auto
qed

text \<open>A page that is in use is not on the free list.\<close>

lemma kmem_wf_used: "kmem_wf s xs \<Longrightarrow> heap s pa = Some ob \<Longrightarrow> (\<And>n. ob \<noteq> Run n) \<Longrightarrow> pa \<notin> set xs"
  using free_path_run [of "heap s" "freelist s" xs pa] by (auto simp: kmem_wf_def)

lemma kmem_wf_cong:
  "kmem_wf s xs \<Longrightarrow> freelist t = freelist s \<Longrightarrow> lay t = lay s \<Longrightarrow>
   (\<And>x. x \<in> set xs \<Longrightarrow> heap t x = heap s x) \<Longrightarrow> kmem_wf t xs"
proof -
  have "free_path h r xs \<Longrightarrow> (\<And>x. x \<in> set xs \<Longrightarrow> h' x = h x) \<Longrightarrow> free_path h' r xs" for h h' r xs
    by (induction xs arbitrary: r) auto
  then show "kmem_wf s xs \<Longrightarrow> freelist t = freelist s \<Longrightarrow> lay t = lay s \<Longrightarrow>
   (\<And>x. x \<in> set xs \<Longrightarrow> heap t x = heap s x) \<Longrightarrow> kmem_wf t xs"
    by (auto simp: kmem_wf_def)
qed

definition after_kalloc :: "kstate \<Rightarrow> u64 \<Rightarrow> u64 \<Rightarrow> kstate" where
  "after_kalloc s x next = s\<lparr>freelist := next, heap := (heap s)(x \<mapsto> Bytes (\<lambda>_. 5))\<rparr>"

lemma kalloc_some:
  assumes "kmem_wf s (x # xs)" and "KmemLock \<notin> held s"
  shows "\<exists>n. kalloc s = Done x (after_kalloc s x n) \<and> kmem_wf (after_kalloc s x n) xs"
proof -
  from assms(1) obtain n where "heap s x = Some (Run n)" "freelist s = x" "x \<noteq> 0"
    "free_path (heap s) n xs" "x \<notin> set xs"
    by (auto simp: kmem_wf_def)
  then show ?thesis
    using assms by (intro exI [of _ n]) (auto simp: kdefs after_kalloc_def kmem_wf_def)
qed

lemma kalloc_none: "kmem_wf s [] \<Longrightarrow> KmemLock \<notin> held s \<Longrightarrow> kalloc s = Done 0 s"
  by (simp add: kdefs kmem_wf_def)

definition after_kfree :: "kstate \<Rightarrow> u64 \<Rightarrow> kstate" where
  "after_kfree s pa = s\<lparr>freelist := pa, heap := (heap s)(pa \<mapsto> Run (freelist s))\<rparr>"

lemma kfree_eq:
  assumes "valid_page (lay s) pa" and "KmemLock \<notin> held s"
  shows "kfree pa s = Done () (after_kfree s pa)"
  using assms by (auto simp: kdefs valid_page_def after_kfree_def)

lemma kfree_invalid:
  "pa mod 4096 \<noteq> 0 \<or> pa < l_end (lay s) \<or> PHYSTOP \<le> pa \<Longrightarrow> kfree pa s = Panic ''kfree''"
  by (auto simp: kdefs)

lemma kmem_wf_kfree:
  "kmem_wf s xs \<Longrightarrow> valid_page (lay s) pa \<Longrightarrow> pa \<notin> set xs \<Longrightarrow> kmem_wf (after_kfree s pa) (pa # xs)"
  by (auto simp: kmem_wf_def after_kfree_def valid_page_def)

lemma after_kfree_simps [simp]:
  "lay (after_kfree s pa) = lay s" "held (after_kfree s pa) = held s" "cur (after_kfree s pa) = cur s"
  "bufs (after_kfree s pa) = bufs s" "disk (after_kfree s pa) = disk s" "klog (after_kfree s pa) = klog s"
  "itable (after_kfree s pa) = itable s" "ftable (after_kfree s pa) = ftable s"
  "procs (after_kfree s pa) = procs s" "sb (after_kfree s pa) = sb s" "dwrites (after_kfree s pa) = dwrites s"
  "heap (after_kfree s pa) = (heap s)(pa \<mapsto> Run (freelist s))" "ticks (after_kfree s pa) = ticks s"
  by (simp_all add: after_kfree_def)

lemma after_kalloc_simps [simp]:
  "lay (after_kalloc s x n) = lay s" "held (after_kalloc s x n) = held s" "cur (after_kalloc s x n) = cur s"
  "bufs (after_kalloc s x n) = bufs s" "disk (after_kalloc s x n) = disk s" "klog (after_kalloc s x n) = klog s"
  "itable (after_kalloc s x n) = itable s" "ftable (after_kalloc s x n) = ftable s"
  "procs (after_kalloc s x n) = procs s" "sb (after_kalloc s x n) = sb s"
  "dwrites (after_kalloc s x n) = dwrites s" "heap (after_kalloc s x n) = (heap s)(x \<mapsto> Bytes (\<lambda>_. 5))"
  "ticks (after_kalloc s x n) = ticks s"
  by (simp_all add: after_kalloc_def)

section \<open>The interface\<close>

text \<open>
  What a user of the allocator relies on: \<open>free s xs\<close> says that \<open>xs\<close> are the free pages in the
  order they will be handed out.
\<close>

locale page_alloc =
  fixes alloc :: "('s, u64) kmon"
    and dealloc :: "u64 \<Rightarrow> ('s, unit) kmon"
    and free :: "'s \<Rightarrow> u64 list \<Rightarrow> bool"
    and owned :: "'s \<Rightarrow> u64 \<Rightarrow> bool"
  assumes free_distinct: "free s xs \<Longrightarrow> distinct xs \<and> 0 \<notin> set xs"
    and alloc_some: "free s (x # xs) \<Longrightarrow> \<exists>s'. alloc s = Done x s' \<and> free s' xs \<and> owned s' x"
    and alloc_none: "free s [] \<Longrightarrow> alloc s = Done 0 s"
    and dealloc_ok: "free s xs \<Longrightarrow> owned s p \<Longrightarrow> \<exists>s'. dealloc p s = Done () s' \<and> free s' (p # xs)"
begin

text \<open>Allocating and freeing again gives back the same free list.\<close>

lemma alloc_dealloc:
  assumes "free s (x # xs)"
  shows "\<exists>s'. bnd alloc dealloc s = Done () s' \<and> free s' (x # xs)"
proof -
  obtain s1 where "alloc s = Done x s1" "free s1 xs" "owned s1 x"
    using alloc_some [OF assms] by blast
  moreover obtain s2 where "dealloc x s1 = Done () s2" "free s2 (x # xs)"
    using dealloc_ok calculation by blast
  ultimately show ?thesis by simp
qed

text \<open>Two allocations in a row never return the same page.\<close>

lemma alloc_twice:
  assumes "free s (x # y # xs)"
  shows "\<exists>s1 s2. alloc s = Done x s1 \<and> alloc s1 = Done y s2 \<and> x \<noteq> y \<and> x \<noteq> 0 \<and> y \<noteq> 0 \<and> free s2 xs"
proof -
  obtain s1 where s1: "alloc s = Done x s1" "free s1 (y # xs)"
    using alloc_some [OF assms] by blast
  obtain s2 where "alloc s1 = Done y s2" "free s2 xs"
    using alloc_some [OF s1(2)] by blast
  moreover have "x \<noteq> y \<and> x \<noteq> 0 \<and> y \<noteq> 0"
    using free_distinct [OF assms] by auto
  ultimately show ?thesis using s1(1) by blast
qed

end

definition kfree_list :: "kstate \<Rightarrow> u64 list \<Rightarrow> bool" where
  "kfree_list s xs \<longleftrightarrow> kmem_wf s xs \<and> KmemLock \<notin> held s"

definition page_owned :: "kstate \<Rightarrow> u64 \<Rightarrow> bool" where
  "page_owned s pa \<longleftrightarrow> valid_page (lay s) pa \<and> (\<exists>ob. heap s pa = Some ob \<and> (\<forall>n. ob \<noteq> Run n))"

interpretation kmem: page_alloc kalloc kfree kfree_list page_owned
proof (unfold_locales, goal_cases)
  case (1 s xs)
  then show ?case by (auto simp: kfree_list_def kmem_wf_def valid_page_def)
next
  case (2 s x xs)
  then obtain n where "kalloc s = Done x (after_kalloc s x n)" "kmem_wf (after_kalloc s x n) xs"
    using kalloc_some [of s x xs] unfolding kfree_list_def by blast
  then show ?case
    using 2 by (auto simp: kfree_list_def page_owned_def kmem_wf_def)
next
  case (3 s)
  then show ?case by (simp add: kfree_list_def kalloc_none)
next
  case (4 s xs p)
  then have "valid_page (lay s) p" "p \<notin> set xs" "kmem_wf s xs" "KmemLock \<notin> held s"
    using kmem_wf_used [of s xs p] by (auto simp: kfree_list_def page_owned_def)
  then show ?case
    by (simp add: kfree_eq kmem_wf_kfree kfree_list_def)
qed

section \<open>Initialisation\<close>

definition pages_from :: "u64 \<Rightarrow> u64 \<Rightarrow> u64 set" where
  "pages_from p e = {pa. pa mod 4096 = 0 \<and> p \<le> pa \<and> unat pa + 4096 \<le> unat e}"

lemma page_add:
  "unat p + 4096 < 2 ^ 64 \<Longrightarrow> unat (p + 4096 :: u64) = unat p + 4096"
  by (simp add: unat_word_ariths)

lemma mod_page_iff: "(pa :: u64) mod 4096 = 0 \<longleftrightarrow> unat pa mod 4096 = 0"
proof -
  have "pa mod 4096 = 0 \<longleftrightarrow> unat (pa mod 4096) = 0" by (simp only: unat_eq_zero)
  then show ?thesis by (simp only: unat_mod unsigned_numeral) simp
qed

lemma pages_from_step:
  assumes "p mod 4096 = 0" "unat p + 4096 \<le> unat e" "unat e + 4096 < 2 ^ 64"
  shows "pages_from p e = insert p (pages_from (p + 4096) e)" and "(p + 4096) mod 4096 = 0"
proof -
  have u: "unat (p + 4096) = unat p + 4096" using assms page_add by simp
  then show "(p + 4096) mod 4096 = 0" using assms(1) by (simp add: mod_page_iff)
  have "x \<in> pages_from p e \<longleftrightarrow> x = p \<or> x \<in> pages_from (p + 4096) e" for x
  proof -
    have "unat x mod 4096 = 0 \<Longrightarrow> unat p \<le> unat x \<Longrightarrow> x \<noteq> p \<Longrightarrow> unat p + 4096 \<le> unat x"
    proof -
      assume a: "unat x mod 4096 = 0" "unat p \<le> unat x" "x \<noteq> p"
      then obtain i j where "unat x = 4096 * i" "unat p = 4096 * j"
        using assms(1) by (auto simp: mod_page_iff dvd_def simp flip: dvd_eq_mod_eq_0)
      moreover have "unat x \<noteq> unat p" using a(3) by (simp add: word_unat_eq_iff)
      ultimately show ?thesis using a(2) by auto
    qed
    then show ?thesis
      using assms by (auto simp: pages_from_def word_le_nat_alt u mod_page_iff)
  qed
  then show "pages_from p e = insert p (pages_from (p + 4096) e)" by auto
qed

lemma freerange_loop_ok:
  assumes "kmem_wf s xs" "KmemLock \<notin> held s" "\<forall>x \<in> set xs. x < p"
    and "p mod 4096 = 0" "l_end (lay s) \<le> p" "p \<noteq> 0" "e \<le> PHYSTOP"
    and "unat e \<le> unat p + 4096 * n" "unat p + 4096 < 2 ^ 64"
  shows "\<exists>s' ys. freerange_loop (Suc n) p e s = Done () s' \<and> kmem_wf s' ys \<and>
           set ys = set xs \<union> pages_from p e \<and> held s' = held s"
  using assms
proof (induction n arbitrary: s xs p)
  case 0
  then have "\<not> p + 4096 \<le> e"
    by (simp add: word_le_nat_alt page_add)
  moreover have "pages_from p e = {}"
    using 0 by (auto simp: pages_from_def word_le_nat_alt)
  ultimately show ?case using 0(1) by (auto simp: ret_def)
next
  case (Suc n)
  have u: "unat (p + 4096) = unat p + 4096" using Suc.prems page_add by simp
  show ?case
  proof (cases "p + 4096 \<le> e")
    case False
    then have "pages_from p e = {}"
      by (auto simp: pages_from_def word_le_nat_alt u)
    then show ?thesis using False Suc.prems(1) by (auto simp: ret_def)
  next
    case True
    have e: "unat e \<le> 2281701376" using \<open>e \<le> PHYSTOP\<close> by (simp add: word_le_nat_alt)
    have le: "unat p + 4096 \<le> unat e" using True by (simp add: word_le_nat_alt u)
    have v: "valid_page (lay s) p"
      using Suc.prems le e by (auto simp: valid_page_def word_less_nat_alt)
    have n: "p \<notin> set xs" using Suc.prems by auto
    have lt: "p < p + 4096" by (simp add: word_less_nat_alt u)
    have "\<exists>s' ys. freerange_loop (Suc n) (p + 4096) e (after_kfree s p) = Done () s' \<and> kmem_wf s' ys \<and>
           set ys = set (p # xs) \<union> pages_from (p + 4096) e \<and> held s' = held (after_kfree s p)"
    proof (rule Suc.IH)
      show "kmem_wf (after_kfree s p) (p # xs)"
        using Suc.prems v n by (intro kmem_wf_kfree)
      show "(p + 4096) mod 4096 = 0"
        using pages_from_step(2) [OF \<open>p mod 4096 = 0\<close> le] e by simp
      show "\<forall>x\<in>set (p # xs). x < p + 4096" using Suc.prems(3) lt by auto
      show "l_end (lay (after_kfree s p)) \<le> p + 4096" using Suc.prems(5) lt by simp
      show "p + 4096 \<noteq> 0" using lt by (metis word_coorder.not_eq_extremum word_n1_ge word_gt_0 word_not_simps(1))
    qed (use Suc.prems u le e in auto)
    then show ?thesis
      using True v Suc.prems pages_from_step(1) [OF \<open>p mod 4096 = 0\<close> le] e
      by (auto simp: kfree_eq simp del: freerange_loop.simps(2)
          simp: freerange_loop.simps(2) [of "Suc n"])
  qed
qed

text \<open>C19. \<open>kinit\<close>, run on the zeroed kernel image, succeeds, and the free list it builds is well
  formed and holds every whole page between the end of the kernel and the end of memory.\<close>

theorem kinit_frees_all:
  assumes "KERNBASE \<le> l_end l" and "l_end l < PHYSTOP"
  shows "\<exists>s' xs. kinit (bss_state l) = Done () s' \<and> kmem_wf s' xs \<and> set xs = {pa. valid_page l pa}"
proof -
  let ?s = "bss_state l" and ?p = "PGROUNDUP (l_end l)"
  have e: "2147483648 \<le> unat (l_end l)" "unat (l_end l) < 2281701376"
    using assms by (simp_all add: word_le_nat_alt word_less_nat_alt)
  then have p: "l_end l \<le> ?p" "?p mod 4096 = 0" "unat ?p < unat (l_end l) + 4096"
    using PGROUNDUP_least [of "l_end l"] by (auto simp: mod_page_iff)
  have s: "kmem_wf ?s []" "held ?s = {}" "lay ?s = l" by (simp_all add: bss_state_def kmem_wf_def)
  have i: "initlock KmemLock ?s = Done () ?s" by (simp add: kdefs bss_state_def)
  have p1: "2147483648 \<le> unat ?p" using p(1) e(1) by (simp add: word_le_nat_alt)
  have p0: "?p \<noteq> 0" using p1 by auto
  obtain s' ys where r: "freerange_loop (Suc (unat PHYSTOP div 4096)) ?p PHYSTOP ?s = Done () s'"
      "kmem_wf s' ys" "set ys = set [] \<union> pages_from ?p PHYSTOP"
    using freerange_loop_ok [OF s(1), of ?p PHYSTOP "unat PHYSTOP div 4096"] p p1 p0 e s(2,3)
    by (auto simp del: freerange_loop.simps)
  have "pages_from ?p PHYSTOP = {pa. valid_page l pa}"
  proof (rule set_eqI)
    fix x :: u64
    have a: "unat x + 4096 \<le> 2281701376 \<longleftrightarrow> unat x < 2281701376" if "unat x mod 4096 = 0"
      using that by (auto simp flip: dvd_eq_mod_eq_0 simp: dvd_def)
    have b: "unat ?p \<le> unat x \<longleftrightarrow> unat (l_end l) \<le> unat x" if "unat x mod 4096 = 0"
      using that p by (auto simp flip: dvd_eq_mod_eq_0 simp: dvd_def mod_page_iff word_le_nat_alt)
    have "x \<noteq> 0" if "unat (l_end l) \<le> unat x" using that e by auto
    then show "x \<in> pages_from ?p PHYSTOP \<longleftrightarrow> x \<in> {pa. valid_page l pa}"
      using a b by (auto simp: pages_from_def valid_page_def word_le_nat_alt word_less_nat_alt mod_page_iff)
  qed
  then show ?thesis
    using r i s(3) by (auto simp: kinit_def freerange_def getk_def bnd_def sq_def
        simp del: freerange_loop.simps)
qed

definition sample_layout :: layout where
  "sample_layout = \<lparr>l_addr = (\<lambda>h. case h of HNull \<Rightarrow> 0 | HInode i \<Rightarrow> KERNBASE + 65536 + of_nat (144 * i)
       | HBuf b \<Rightarrow> KERNBASE + 131072 + of_nat (128 * b)),
     l_end = KERNBASE + 196608, l_etext = KERNBASE + 32768, l_trampoline = KERNBASE + 28672,
     l_uservec = KERNBASE + 28672, l_userret = KERNBASE + 28828, l_kernelvec = KERNBASE + 4096,
     l_usertrap = KERNBASE + 8192\<rparr>"

lemma sample_layout_end: "KERNBASE \<le> l_end sample_layout" "l_end sample_layout < PHYSTOP"
  by (simp_all add: sample_layout_def)

theorem kinit_frees_all_witness:
  "KERNBASE \<le> l_end sample_layout \<and> l_end sample_layout < PHYSTOP \<and>
   (\<exists>s' xs. kinit (bss_state sample_layout) = Done () s' \<and> kmem_wf s' xs \<and>
     set xs = {pa. valid_page sample_layout pa})"
  using kinit_frees_all [OF sample_layout_end] sample_layout_end by blast

text \<open>C20. Two successful allocations in a row return different pages, neither of them null, and
  each is taken off the free list.\<close>

theorem kalloc_distinct_pages:
  assumes "kmem_wf s (x # y # xs)" and "KmemLock \<notin> held s"
  shows "\<exists>s1 s2. kalloc s = Done x s1 \<and> kalloc s1 = Done y s2 \<and> x \<noteq> y \<and> x \<noteq> 0 \<and> y \<noteq> 0 \<and>
    kmem_wf s2 xs \<and> KmemLock \<notin> held s2"
  using kmem.alloc_twice [of s x y xs] assms by (auto simp: kfree_list_def)

definition two_free_pages :: kstate where
  "two_free_pages = (bss_state sample_layout)\<lparr>freelist := PHYSTOP - 8192,
     heap := [PHYSTOP - 8192 \<mapsto> Run (PHYSTOP - 4096), PHYSTOP - 4096 \<mapsto> Run 0]\<rparr>"

lemma two_free_pages_wf: "kmem_wf two_free_pages [PHYSTOP - 8192, PHYSTOP - 4096]"
  "held two_free_pages = {}"
  by (simp_all add: two_free_pages_def kmem_wf_def bss_state_def valid_page_def sample_layout_def)

theorem kalloc_distinct_pages_witness:
  "\<exists>s1 s2. kalloc two_free_pages = Done (PHYSTOP - 8192) s1 \<and> kalloc s1 = Done (PHYSTOP - 4096) s2"
  using kalloc_distinct_pages [OF two_free_pages_wf(1)] two_free_pages_wf(2) by auto

text \<open>C21. Freeing a page that \<open>kalloc\<close> returned puts the free list back as it was.\<close>

theorem kalloc_kfree_roundtrip:
  assumes "kmem_wf s (x # xs)" and "KmemLock \<notin> held s"
  shows "\<exists>s'. bnd kalloc kfree s = Done () s' \<and> kmem_wf s' (x # xs) \<and> KmemLock \<notin> held s'"
  using kmem.alloc_dealloc [of s x xs] assms by (auto simp: kfree_list_def)

theorem kalloc_kfree_roundtrip_witness:
  "\<exists>s'. bnd kalloc kfree two_free_pages = Done () s' \<and> kmem_wf s' [PHYSTOP - 8192, PHYSTOP - 4096]"
  using kalloc_kfree_roundtrip [OF two_free_pages_wf(1)] two_free_pages_wf(2) by auto

end
