(* ===== verification/Bio.thy ===== *)
theory Bio
  imports Kalloc
begin

text \<open>
  The buffer cache, \<open>bio.c\<close>, with \<open>initxobj\<close> of \<open>tx.c\<close>.

  The buffers stay in their array; \<open>prev\<close> and \<open>next\<close> are indices into it, and the index \<open>NBUF\<close> is the
  list head \<open>bcache.head\<close>. A scan of the list has \<open>NBUF + 1\<close> steps of fuel, which is one more than
  the list has buffers, so that it runs out only on a list that is not well formed.

  \<open>virtio_disk_rw\<close> is \<open>disk_rw\<close> here: it moves one block between the buffer's page and the disk,
  and records a write in \<open>dwrites\<close>.

  \<open>cview s dev blk\<close> is the content of a block as a reader sees it: the cached copy if there is a
  valid one, the block on the disk otherwise. \<open>bio_inv\<close> is the invariant of the cache.
\<close>

declare NBUF_def [simp del] ROOTDEV_def [simp del]

lemma ROOTDEV_nonzero [simp]: "ROOTDEV \<noteq> 0"
  by (simp add: ROOTDEV_def)

section \<open>Operations\<close>

definition get_xobj :: "hdr \<Rightarrow> tx_data K" where
  [kdefs]: "get_xobj h = (case h of
      HNull \<Rightarrow> fault
    | HInode i \<Rightarrow> getk (\<lambda>s. i_xobj (itable s i))
    | HBuf b \<Rightarrow> getk (\<lambda>s. b_xobj (bufs s b)))"

definition upd_xobj :: "hdr \<Rightarrow> (tx_data \<Rightarrow> tx_data) \<Rightarrow> unit K" where
  [kdefs]: "upd_xobj h f = (case h of
      HNull \<Rightarrow> fault
    | HInode i \<Rightarrow> upd_inode i (i_xobj_update f)
    | HBuf b \<Rightarrow> upd_buf b (b_xobj_update f))"

definition initxobj :: "hdr \<Rightarrow> unit K" where
  [kdefs]: "initxobj h =
    sq (upd_xobj h (xo_writer_update (\<lambda>_. 0)))
    (sq (upd_xobj h (xo_reader_count_update (\<lambda>_. 0)))
    (initlock (XobjLock h)))"

definition get_buf :: "nat \<Rightarrow> buf K" where
  [kdefs]: "get_buf b = getk (\<lambda>s. bufs s b)"

text \<open>Insertion after the head, at the end of \<open>brelse\<close> and of the loop body of \<open>binit\<close>.\<close>

definition binit_one :: "nat \<Rightarrow> unit K" where
  [kdefs]: "binit_one b =
    bnd (get_buf NBUF) (\<lambda>head.
    sq (upd_buf b (b_next_update (\<lambda>_. b_next head)))
    (sq (upd_buf b (b_prev_update (\<lambda>_. NBUF)))
    (sq (initxobj (HBuf b))
    (bnd kalloc (\<lambda>pg.
    sq (upd_buf b (b_data_update (\<lambda>_. pg)))
    (if pg = 0 then panic ''binit: out of memory'' else
    sq (initsleeplock (SLBuf b))
    (bnd (get_buf NBUF) (\<lambda>head.
    sq (upd_buf (b_next head) (b_prev_update (\<lambda>_. b)))
    (upd_buf NBUF (b_next_update (\<lambda>_. b)))))))))))"

definition binit :: "unit K" where
  "binit =
    sq (initlock BcacheLock)
    (sq (upd_buf NBUF (b_prev_update (\<lambda>_. NBUF)))
    (sq (upd_buf NBUF (b_next_update (\<lambda>_. NBUF)))
    (for_each [0..<NBUF] binit_one)))"

fun bget_cached :: "nat \<Rightarrow> nat \<Rightarrow> u32 \<Rightarrow> u32 \<Rightarrow> nat option K" where
  "bget_cached 0 b dev blockno = fault"
| "bget_cached (Suc n) b dev blockno =
    (if b = NBUF then ret None else
     bnd (get_buf b) (\<lambda>x.
     if b_dev x = dev \<and> b_blockno x = blockno then ret (Some b)
     else bget_cached n (b_next x) dev blockno))"

fun bget_unused :: "nat \<Rightarrow> nat \<Rightarrow> nat option K" where
  "bget_unused 0 b = fault"
| "bget_unused (Suc n) b =
    (if b = NBUF then ret None else
     bnd (get_buf b) (\<lambda>x.
     if b_refcnt x = 0 then ret (Some b) else bget_unused n (b_prev x)))"

definition bget :: "u32 \<Rightarrow> u32 \<Rightarrow> nat K" where
  "bget dev blockno =
    sq (acquire BcacheLock)
    (bnd (get_buf NBUF) (\<lambda>head.
    bnd (bget_cached (Suc NBUF) (b_next head) dev blockno) (\<lambda>r. case r of
      Some b \<Rightarrow>
        sq (upd_buf b (b_refcnt_update (\<lambda>n. n + 1)))
        (sq (release BcacheLock)
        (sq (acquiresleep (SLBuf b))
        (ret b)))
    | None \<Rightarrow>
        bnd (bget_unused (Suc NBUF) (b_prev head)) (\<lambda>r. case r of
          Some b \<Rightarrow>
            sq (upd_buf b (\<lambda>x. x\<lparr>b_dev := dev, b_blockno := blockno, b_valid := False, b_refcnt := 1\<rparr>))
            (sq (release BcacheLock)
            (sq (acquiresleep (SLBuf b))
            (ret b)))
        | None \<Rightarrow> panic ''bget: no buffers''))))"

definition disk_rw :: "nat \<Rightarrow> bool \<Rightarrow> unit K" where
  [kdefs]: "disk_rw b wr =
    bnd (get_buf b) (\<lambda>x.
    if wr then
      bnd (get_bdata (b_data x)) (\<lambda>bs.
      modk (\<lambda>s. s\<lparr>disk := (disk s)(b_blockno x := bs), dwrites := dwrites s @ [(b_blockno x, bs)]\<rparr>))
    else
      bnd (getk (\<lambda>s. disk s (b_blockno x))) (\<lambda>bs. put_obj (b_data x) (BufData bs)))"

definition bread :: "u32 \<Rightarrow> u32 \<Rightarrow> nat K" where
  "bread dev blockno =
    bnd (bget dev blockno) (\<lambda>b.
    bnd (get_buf b) (\<lambda>x.
    sq (whenk (\<not> b_valid x)
         (sq (disk_rw b False)
         (upd_buf b (b_valid_update (\<lambda>_. True)))))
    (ret b)))"

definition bwrite :: "nat \<Rightarrow> unit K" where
  "bwrite b =
    bnd (holdingsleep (SLBuf b)) (\<lambda>h.
    if \<not> h then panic ''bwrite'' else disk_rw b True)"

text \<open>The block of \<open>brelse\<close> that moves an unreferenced buffer to the front of the list.\<close>

definition brelse_front :: "nat \<Rightarrow> unit K" where
  "brelse_front b =
    bnd (get_buf b) (\<lambda>x.
    sq (upd_buf (b_next x) (b_prev_update (\<lambda>_. b_prev x)))
    (bnd (get_buf b) (\<lambda>x.
    sq (upd_buf (b_prev x) (b_next_update (\<lambda>_. b_next x)))
    (bnd (get_buf NBUF) (\<lambda>head.
    sq (upd_buf b (b_next_update (\<lambda>_. b_next head)))
    (sq (upd_buf b (b_prev_update (\<lambda>_. NBUF)))
    (bnd (get_buf NBUF) (\<lambda>head.
    sq (upd_buf (b_next head) (b_prev_update (\<lambda>_. b)))
    (upd_buf NBUF (b_next_update (\<lambda>_. b)))))))))))"

definition brelse :: "nat \<Rightarrow> unit K" where
  "brelse b =
    bnd (holdingsleep (SLBuf b)) (\<lambda>h.
    if \<not> h then panic ''brelse'' else
    sq (releasesleep (SLBuf b))
    (sq (acquire BcacheLock)
    (sq (upd_buf b (b_refcnt_update (\<lambda>n. n - 1)))
    (bnd (get_buf b) (\<lambda>x.
    sq (whenk (b_refcnt x = 0) (brelse_front b))
    (release BcacheLock))))))"

definition bpin :: "nat \<Rightarrow> unit K" where
  [kdefs]: "bpin b =
    sq (acquire BcacheLock)
    (sq (upd_buf b (b_refcnt_update (\<lambda>n. n + 1)))
    (release BcacheLock))"

definition bunpin :: "nat \<Rightarrow> unit K" where
  [kdefs]: "bunpin b =
    sq (acquire BcacheLock)
    (sq (upd_buf b (b_refcnt_update (\<lambda>n. n - 1)))
    (release BcacheLock))"

section \<open>The list of buffers\<close>

text \<open>\<open>links f a xs z\<close>: following \<open>f\<close> from \<open>a\<close> visits \<open>xs\<close> and then reaches \<open>z\<close>.\<close>

fun links :: "(nat \<Rightarrow> nat) \<Rightarrow> nat \<Rightarrow> nat list \<Rightarrow> nat \<Rightarrow> bool" where
  "links f a [] z \<longleftrightarrow> f a = z"
| "links f a (x # xs) z \<longleftrightarrow> f a = x \<and> links f x xs z"

definition lru_wf :: "(nat \<Rightarrow> buf) \<Rightarrow> nat list \<Rightarrow> bool" where
  "lru_wf bs xs \<longleftrightarrow> links (\<lambda>b. b_next (bs b)) NBUF xs NBUF \<and>
     links (\<lambda>b. b_prev (bs b)) NBUF (rev xs) NBUF \<and> distinct xs \<and> NBUF \<notin> set xs"

lemma links_append: "links f a (xs @ y # ys) z \<longleftrightarrow> links f a xs y \<and> links f y ys z"
  by (induction xs arbitrary: a) auto

lemma links_cong: "(\<And>x. x \<in> insert a (set xs) \<Longrightarrow> f x = g x) \<Longrightarrow> links f a xs z = links g a xs z"
  by (induction xs arbitrary: a) auto

lemma links_upd [simp]: "x \<noteq> a \<Longrightarrow> x \<notin> set xs \<Longrightarrow> links (f(x := v)) a xs z = links f a xs z"
  by (rule links_cong) auto

lemma links_last: "links f a xs z \<Longrightarrow> f (last (a # xs)) = z"
  by (induction xs arbitrary: a) auto

lemma links_redirect:
  "links f a xs z \<Longrightarrow> distinct (a # xs) \<Longrightarrow> links (f(last (a # xs) := y)) a xs y"
proof (induction xs arbitrary: a)
  case (Cons x xs)
  then have "a \<noteq> last (x # xs)" using last_in_set [of "x # xs"] by auto
  with Cons show ?case by (simp add: last_ConsR del: last.simps)
qed simp

text \<open>Taking \<open>b\<close> out of the list between its neighbours, and putting it after the head.\<close>

lemma links_unlink:
  assumes "links f h (us @ b # vs) z" and "distinct (h # us @ b # vs)"
  shows "links (f(last (h # us) := f b)) h (us @ vs) z"
proof -
  have l: "links f h us b" "links f b vs z" using assms(1) by (simp_all add: links_append)
  have r: "links (f(last (h # us) := f b)) h us (f b)"
    using links_redirect [OF l(1)] assms(2) by simp
  show ?thesis
  proof (cases vs)
    case Nil
    then show ?thesis using r l(2) by simp
  next
    case (Cons v ws)
    then have "f b = v" "links f v ws z" using l(2) by auto
    moreover have "last (h # us) \<notin> set (v # ws)"
      using assms(2) Cons last_in_set [of "h # us"] by auto
    ultimately show ?thesis
      using r Cons by (simp add: links_append)
  qed
qed

lemma links_push:
  assumes "links f h xs z" and "b \<noteq> h" "b \<notin> set xs" and "h \<notin> set xs"
  shows "links (f(b := f h, h := b)) h (b # xs) z"
  using assms by (cases xs) auto

lemma links_snoc:
  assumes "links f h xs z" and "distinct (h # xs)" "b \<noteq> h" "b \<notin> set xs"
  shows "links (f(b := z, last (h # xs) := b)) h (xs @ [b]) z"
proof -
  have "links (f(last (h # xs) := b)) h xs b"
    using links_redirect assms by blast
  moreover have "last (h # xs) \<noteq> b" using assms last_in_set [of "h # xs"] by auto
  ultimately show ?thesis
    using assms by (simp add: links_append fun_upd_twist [of b] del: last.simps)
qed

lemma rev_last_hd: "last (h # rev vs) = hd (vs @ [h])"
  by (cases vs) simp_all

lemma links_hd: "links f a xs z \<Longrightarrow> f a = hd (xs @ [z])"
  by (cases xs) auto

text \<open>The six assignments of \<open>brelse\<close> move \<open>b\<close> to the front.\<close>

lemma lru_move_front:
  assumes n: "links n h (us @ b # vs) h" and p: "links p h (rev (us @ b # vs)) h"
    and d: "distinct (h # us @ b # vs)"
  defines "n1 \<equiv> n(p b := n b)" and "p1 \<equiv> p(n b := p b)"
  shows "links (n1(b := n1 h, h := b)) h (b # us @ vs) h"
    and "links (p1(b := h, n1 h := b)) h (rev (b # us @ vs)) h"
proof -
  have pb: "p b = last (h # us)"
    using p by (auto simp: links_append rev_last_hd dest!: links_hd) (cases us rule: rev_cases; simp)
  have nb: "n b = hd (vs @ [h])"
    using n by (auto simp: links_append dest!: links_hd)
  have n1: "links n1 h (us @ vs) h"
    using links_unlink [OF n d] by (simp add: n1_def pb)
  then show "links (n1(b := n1 h, h := b)) h (b # us @ vs) h"
    by (rule links_push) (use d in auto)
  have p1: "links p1 h (rev vs @ rev us) h"
    using links_unlink [of p h "rev vs" b "rev us" h] p d
    by (auto simp: p1_def nb Int_commute simp flip: rev_last_hd)
  have h: "n1 h = last (h # rev vs @ rev us)"
    using links_hd [OF n1] rev_last_hd [of h "us @ vs"] by simp
  show "links (p1(b := h, n1 h := b)) h (rev (b # us @ vs)) h"
    unfolding h using links_snoc [OF p1, of b] d by (auto simp: Int_commute)
qed

section \<open>The invariant of the cache\<close>

lemma fun_upd_eqI: "v = w \<Longrightarrow> f(a := v) = f(a := w)"
  by simp

lemma put_obj_Done:
  "heap s pa = Some ob \<Longrightarrow> (\<And>n. ob \<noteq> Run n) \<Longrightarrow> put_obj pa v s = Done () (s\<lparr>heap := (heap s)(pa \<mapsto> v)\<rparr>)"
  by (auto simp: put_obj_def split: kobj.splits)

lemma find_SomeD: "find P xs = Some x \<Longrightarrow> x \<in> set xs \<and> P x"
  by (auto simp: find_Some_iff)

lemma find_False [simp]: "find (\<lambda>_. False) xs = None"
  by (induction xs) auto

definition cached :: "kstate \<Rightarrow> u32 \<Rightarrow> u32 \<Rightarrow> nat \<Rightarrow> bool" where
  "cached s dev blk b \<longleftrightarrow> b < NBUF \<and> b_dev (bufs s b) = dev \<and> b_blockno (bufs s b) = blk"

definition bcontent :: "kstate \<Rightarrow> nat \<Rightarrow> u8 list" where
  "bcontent s b = (case heap s (b_data (bufs s b)) of Some (BufData bs) \<Rightarrow> bs | _ \<Rightarrow> [])"

definition cview :: "kstate \<Rightarrow> u32 \<Rightarrow> u32 \<Rightarrow> u8 list" where
  "cview s dev blk =
     (case find (\<lambda>b. cached s dev blk b \<and> b_valid (bufs s b)) [0..<NBUF] of
        Some b \<Rightarrow> bcontent s b
      | None \<Rightarrow> disk s blk)"

definition uniq_bufs :: "kstate \<Rightarrow> bool" where
  "uniq_bufs s \<longleftrightarrow> (\<forall>dev blk b c. dev \<noteq> 0 \<longrightarrow> cached s dev blk b \<longrightarrow> cached s dev blk c \<longrightarrow> b = c)"

definition buf_pages :: "kstate \<Rightarrow> bool" where
  "buf_pages s \<longleftrightarrow> inj_on (\<lambda>b. b_data (bufs s b)) {..<NBUF} \<and>
     (\<forall>b < NBUF. (\<exists>ob. heap s (b_data (bufs s b)) = Some ob \<and> (\<forall>n. ob \<noteq> Run n)) \<and>
        (b_valid (bufs s b) \<longrightarrow>
          (\<exists>bs. heap s (b_data (bufs s b)) = Some (BufData bs) \<and> length bs = BSIZE)))"

text \<open>A valid buffer that nobody refers to agrees with the disk, so that it can be recycled.\<close>

definition clean_bufs :: "kstate \<Rightarrow> bool" where
  "clean_bufs s \<longleftrightarrow> (\<forall>b < NBUF. b_valid (bufs s b) \<longrightarrow> b_refcnt (bufs s b) = 0 \<longrightarrow>
     bcontent s b = disk s (b_blockno (bufs s b)))"

text \<open>The kernel has one disk, and reads blocks of \<open>ROOTDEV\<close> only.\<close>

definition one_dev :: "kstate \<Rightarrow> bool" where
  "one_dev s \<longleftrightarrow> (\<forall>b < NBUF. b_valid (bufs s b) \<or> b_refcnt (bufs s b) \<noteq> 0 \<longrightarrow> b_dev (bufs s b) = ROOTDEV)"

definition bio_inv :: "kstate \<Rightarrow> bool" where
  "bio_inv s \<longleftrightarrow> (\<exists>xs. lru_wf (bufs s) xs \<and> set xs = {..<NBUF}) \<and> uniq_bufs s \<and> buf_pages s \<and>
     clean_bufs s \<and> one_dev s \<and> (\<forall>blk. length (disk s blk) = BSIZE)"

lemma cview_cached:
  assumes "uniq_bufs s" "dev \<noteq> 0" "cached s dev blk b"
  shows "cview s dev blk = (if b_valid (bufs s b) then bcontent s b else disk s blk)"
proof -
  have only: "c = b" if "cached s dev blk c" for c
    using that assms by (auto simp: uniq_bufs_def)
  have "find (\<lambda>c. cached s dev blk c \<and> b_valid (bufs s c)) [0..<NBUF] =
    (if b_valid (bufs s b) then Some b else None)" (is "find ?P ?xs = _")
  proof (cases "find ?P ?xs")
    case None
    then show ?thesis using assms(3) by (auto simp: find_None_iff cached_def)
  next
    case (Some c)
    then have "?P c" by (blast dest: find_SomeD)
    then show ?thesis using only Some by auto
  qed
  then show ?thesis by (simp add: cview_def)
qed

lemma cview_uncached: "(\<And>b. \<not> cached s dev blk b) \<Longrightarrow> cview s dev blk = disk s blk"
  by (simp add: cview_def)

lemma cview_eqI:
  assumes "\<And>b. cached s dev blk b \<and> b_valid (bufs s b) \<longleftrightarrow> cached t dev blk b \<and> b_valid (bufs t b)"
    and "\<And>b. cached s dev blk b \<Longrightarrow> b_valid (bufs s b) \<Longrightarrow> bcontent t b = bcontent s b"
    and "disk t blk = disk s blk"
  shows "cview t dev blk = cview s dev blk"
proof -
  let ?P = "\<lambda>s b. cached s dev blk b \<and> b_valid (bufs s b)"
  have e: "find (?P t) [0..<NBUF] = find (?P s) [0..<NBUF]"
    using assms(1) by (intro find_cong) auto
  show ?thesis
  proof (cases "find (?P s) [0..<NBUF]")
    case None
    then show ?thesis using assms(3) e by (simp add: cview_def)
  next
    case (Some b)
    then have "?P s b" by (blast dest: find_SomeD)
    then show ?thesis using assms(2) e Some by (simp add: cview_def)
  qed
qed

section \<open>Looking a block up\<close>

lemma bget_cached_eq:
  assumes "links (\<lambda>b. b_next (bufs s b)) a xs NBUF" and "NBUF \<notin> set xs" and "length xs < n"
  shows "bget_cached n (b_next (bufs s a)) dev blk s =
    Done (find (\<lambda>b. b_dev (bufs s b) = dev \<and> b_blockno (bufs s b) = blk) xs) s"
  using assms
proof (induction xs arbitrary: n a)
  case Nil
  then show ?case by (cases n) (auto simp: kdefs)
next
  case (Cons x xs)
  then obtain m where n: "n = Suc m" by (cases n) auto
  have "bget_cached m (b_next (bufs s x)) dev blk s =
    Done (find (\<lambda>b. b_dev (bufs s b) = dev \<and> b_blockno (bufs s b) = blk) xs) s"
    using Cons n by simp
  then show ?case
    using Cons.prems n by (auto simp: bnd_def get_buf_def getk_def ret_def)
qed

lemma bget_unused_eq:
  assumes "links (\<lambda>b. b_prev (bufs s b)) a xs NBUF" and "NBUF \<notin> set xs" and "length xs < n"
  shows "bget_unused n (b_prev (bufs s a)) s = Done (find (\<lambda>b. b_refcnt (bufs s b) = 0) xs) s"
  using assms
proof (induction xs arbitrary: n a)
  case Nil
  then show ?case by (cases n) (auto simp: kdefs)
next
  case (Cons x xs)
  then obtain m where n: "n = Suc m" by (cases n) auto
  have "bget_unused m (b_prev (bufs s x)) s = Done (find (\<lambda>b. b_refcnt (bufs s b) = 0) xs) s"
    using Cons n by simp
  then show ?case
    using Cons.prems n by (auto simp: bnd_def get_buf_def getk_def ret_def)
qed

text \<open>Which buffer \<open>bget\<close> takes: the one that holds the block, or else the least recently
  used buffer without references.\<close>

definition pick :: "kstate \<Rightarrow> u32 \<Rightarrow> u32 \<Rightarrow> nat list \<Rightarrow> nat option" where
  "pick s dev blk xs =
     (case find (cached s dev blk) xs of
        Some b \<Rightarrow> Some b
      | None \<Rightarrow> find (\<lambda>b. b_refcnt (bufs s b) = 0) (rev xs))"

definition bget_st :: "kstate \<Rightarrow> u32 \<Rightarrow> u32 \<Rightarrow> nat \<Rightarrow> kstate" where
  "bget_st s dev blk b = s\<lparr>bufs := (bufs s)(b := (bufs s b)
     \<lparr>b_dev := dev, b_blockno := blk, b_refcnt := b_refcnt (bufs s b) + 1,
      b_valid := b_valid (bufs s b) \<and> cached s dev blk b,
      b_lock := \<lparr>sl_locked = True, sl_pid = my_pid s\<rparr>\<rparr>)\<rparr>"

lemma distinct_length_30: "distinct xs \<Longrightarrow> set xs = {..<NBUF} \<Longrightarrow> length xs = NBUF"
  using distinct_card [of xs] by simp

lemma find_cached:
  "set xs = {..<NBUF} \<Longrightarrow>
   find (\<lambda>b. b_dev (bufs s b) = dev \<and> b_blockno (bufs s b) = blk) xs = find (cached s dev blk) xs"
  by (rule find_cong) (auto simp: cached_def)

lemma bget_eq:
  assumes "lru_wf (bufs s) xs" "set xs = {..<NBUF}" and "cur s = Some p"
    and "BcacheLock \<notin> held s" "\<And>b. SleepLk (SLBuf b) \<notin> held s"
    and "pick s dev blk xs = Some b" and "\<not> sl_locked (b_lock (bufs s b))"
  shows "bget dev blk s = Done b (bget_st s dev blk b)"
proof -
  let ?t = "s\<lparr>held := insert BcacheLock (held s)\<rparr>"
  have l: "length xs = NBUF" using assms(1,2) by (auto simp: lru_wf_def distinct_length_30)
  have c: "bget_cached (Suc NBUF) (b_next (bufs s NBUF)) dev blk ?t = Done (find (cached s dev blk) xs) ?t"
    using bget_cached_eq [of ?t NBUF xs "Suc NBUF" dev blk] assms(1,2) l
    by (simp add: lru_wf_def find_cached del: bget_cached.simps)
  have u: "bget_unused (Suc NBUF) (b_prev (bufs s NBUF)) ?t = Done (find (\<lambda>b. b_refcnt (bufs s b) = 0) (rev xs)) ?t"
    using bget_unused_eq [of ?t NBUF "rev xs" "Suc NBUF"] assms(1,2) l
    by (simp add: lru_wf_def del: bget_unused.simps)
  show ?thesis
  proof (cases "find (cached s dev blk) xs")
    case (Some c')
    then have "c' = b" "cached s dev blk b"
      using assms(6) find_SomeD [OF Some] by (simp_all add: pick_def)
    then show ?thesis
      using assms c Some
      by (auto intro!: kstate.equality buf.equality fun_upd_eqI simp: bget_def sq_def bnd_def get_buf_def getk_def upd_buf_def modk_def ret_def
          acquiresleep_free sl_of_def set_sl_def bget_st_def my_pid_def cached_def
          simp del: bget_cached.simps bget_unused.simps)
  next
    case None
    then have b: "find (\<lambda>b. b_refcnt (bufs s b) = 0) (rev xs) = Some b"
      using assms(6) by (simp add: pick_def)
    then have "b_refcnt (bufs s b) = 0" "b \<in> set xs" by (auto dest: find_SomeD)
    moreover have "\<not> cached s dev blk b"
      using None \<open>b \<in> set xs\<close> by (auto simp: find_None_iff)
    ultimately show ?thesis
      using assms c None u b
      by (auto intro!: kstate.equality buf.equality fun_upd_eqI simp: bget_def sq_def bnd_def get_buf_def
          getk_def upd_buf_def modk_def ret_def acquiresleep_free sl_of_def set_sl_def bget_st_def my_pid_def
          simp del: bget_cached.simps bget_unused.simps)
  qed
qed


lemma pick_props:
  assumes "pick s dev blk xs = Some b" "set xs = {..<NBUF}"
  shows "b < NBUF" and "cached s dev blk b \<or> (\<forall>c. \<not> cached s dev blk c) \<and> b_refcnt (bufs s b) = 0"
proof -
  have *: "b \<in> set xs \<and> (cached s dev blk b \<or> (\<forall>c \<in> set xs. \<not> cached s dev blk c) \<and> b_refcnt (bufs s b) = 0)"
  proof (cases "find (cached s dev blk) xs")
    case None
    then have "\<forall>c \<in> set xs. \<not> cached s dev blk c" by (auto simp: find_None_iff)
    then show ?thesis
      using assms(1) None find_SomeD [of "\<lambda>b. b_refcnt (bufs s b) = 0" "rev xs" b]
      by (simp add: pick_def)
  next
    case (Some c)
    then show ?thesis using assms(1) find_SomeD [OF Some] by (auto simp: pick_def)
  qed
  then show "b < NBUF" using assms(2) by auto
  show "cached s dev blk b \<or> (\<forall>c. \<not> cached s dev blk c) \<and> b_refcnt (bufs s b) = 0"
    using * assms(2) by (auto simp: cached_def)
qed

lemma pick_total:
  assumes "set xs = {..<NBUF}" and "cached s dev blk b \<or> b < NBUF \<and> b_refcnt (bufs s b) = 0"
  shows "\<exists>c. pick s dev blk xs = Some c"
proof (cases "find (cached s dev blk) xs")
  case None
  then have "\<not> cached s dev blk b" using assms(1) by (auto simp: find_None_iff cached_def)
  then have "find (\<lambda>b. b_refcnt (bufs s b) = 0) (rev xs) \<noteq> None"
    using assms by (auto simp: find_None_iff)
  then show ?thesis using None by (auto simp: pick_def)
qed (simp add: pick_def)

definition bread_st :: "kstate \<Rightarrow> u32 \<Rightarrow> u32 \<Rightarrow> nat \<Rightarrow> kstate" where
  "bread_st s dev blk b = s\<lparr>bufs := (bufs s)(b := (bufs s b)
     \<lparr>b_dev := dev, b_blockno := blk, b_refcnt := b_refcnt (bufs s b) + 1, b_valid := True,
      b_lock := \<lparr>sl_locked = True, sl_pid = my_pid s\<rparr>\<rparr>),
     heap := (heap s)(b_data (bufs s b) \<mapsto> BufData (cview s dev blk))\<rparr>"

lemma bread_eq:
  assumes inv: "uniq_bufs s" "buf_pages s" and dev: "dev \<noteq> 0"
    and "lru_wf (bufs s) xs" "set xs = {..<NBUF}" and "cur s = Some p"
    and "BcacheLock \<notin> held s" "\<And>b. SleepLk (SLBuf b) \<notin> held s"
    and p: "pick s dev blk xs = Some b" and "\<not> sl_locked (b_lock (bufs s b))"
  shows "bread dev blk s = Done b (bread_st s dev blk b)"
proof -
  have g: "bget dev blk s = Done b (bget_st s dev blk b)"
    using assms by (intro bget_eq)
  note b = pick_props [OF p \<open>set xs = {..<NBUF}\<close>]
  obtain ob where ob: "heap s (b_data (bufs s b)) = Some ob" "\<And>n. ob \<noteq> Run n"
    "b_valid (bufs s b) \<Longrightarrow> ob = BufData (bcontent s b)"
    using inv(2) b(1) by (fastforce simp: buf_pages_def bcontent_def)
  show ?thesis
  proof (cases "cached s dev blk b \<and> b_valid (bufs s b)")
    case True
    then have "cview s dev blk = bcontent s b"
      using cview_cached inv(1) dev by metis
    then have "heap s = (heap s)(b_data (bufs s b) \<mapsto> BufData (cview s dev blk))"
      using True ob by auto
    then show ?thesis
      using True g by (simp add: bread_def bget_st_def bread_st_def sq_def bnd_def get_buf_def getk_def
          whenk_def ret_def cached_def)
  next
    case False
    have "cview s dev blk = disk s blk"
    proof (cases "cached s dev blk b")
      case True
      then show ?thesis using cview_cached [OF inv(1) dev True] False by simp
    next
      case False
      then show ?thesis using b(2) by (intro cview_uncached) auto
    qed
    moreover have "put_obj (b_data (bufs s b)) (BufData bs) (bget_st s dev blk b) =
        Done () ((bget_st s dev blk b)\<lparr>heap := (heap s)(b_data (bufs s b) \<mapsto> BufData bs)\<rparr>)" for bs
      using put_obj_Done [of "bget_st s dev blk b" _ ob] ob(1,2) by (simp add: bget_st_def)
    ultimately show ?thesis
      using False g
      by (auto simp: bread_def bget_st_def bread_st_def sq_def bnd_def get_buf_def getk_def
          whenk_def ret_def disk_rw_def upd_buf_def modk_def
          intro!: kstate.equality buf.equality fun_upd_eqI)
  qed
qed

section \<open>The invariant is kept by a read\<close>

lemma bread_st_simps [simp]:
  "disk (bread_st s dev blk b) = disk s" "cur (bread_st s dev blk b) = cur s"
  "held (bread_st s dev blk b) = held s" "klog (bread_st s dev blk b) = klog s"
  "procs (bread_st s dev blk b) = procs s" "dwrites (bread_st s dev blk b) = dwrites s"
  "lay (bread_st s dev blk b) = lay s" "sb (bread_st s dev blk b) = sb s"
  "itable (bread_st s dev blk b) = itable s" "ftable (bread_st s dev blk b) = ftable s"
  "freelist (bread_st s dev blk b) = freelist s" "my_pid (bread_st s dev blk b) = my_pid s"
  "c \<noteq> b \<Longrightarrow> bufs (bread_st s dev blk b) c = bufs s c"
  "b_data (bufs (bread_st s dev blk b) c) = b_data (bufs s c)"
  "b_next (bufs (bread_st s dev blk b) c) = b_next (bufs s c)"
  "b_prev (bufs (bread_st s dev blk b) c) = b_prev (bufs s c)"
  "b_valid (bufs (bread_st s dev blk b) b)"
  "b_dev (bufs (bread_st s dev blk b) b) = dev" "b_blockno (bufs (bread_st s dev blk b) b) = blk"
  "b_refcnt (bufs (bread_st s dev blk b) b) = b_refcnt (bufs s b) + 1"
  "b_lock (bufs (bread_st s dev blk b) b) = \<lparr>sl_locked = True, sl_pid = my_pid s\<rparr>"
  by (simp_all add: bread_st_def my_pid_def)

lemma heap_bread_st: "heap (bread_st s dev blk b) = (heap s)(b_data (bufs s b) \<mapsto> BufData (cview s dev blk))"
  by (simp add: bread_st_def)

lemma lru_wf_cong:
  "(\<And>c. b_next (bs' c) = b_next (bs c)) \<Longrightarrow> (\<And>c. b_prev (bs' c) = b_prev (bs c)) \<Longrightarrow>
   lru_wf bs' xs = lru_wf bs xs"
  by (simp add: lru_wf_def)

lemma cached_bread_st:
  "b < NBUF \<Longrightarrow> cached (bread_st s dev blk b) dev' blk' c \<longleftrightarrow>
     (if c = b then dev' = dev \<and> blk' = blk else cached s dev' blk' c)"
  by (auto simp: cached_def)

lemma bcontent_bread_st: "bcontent (bread_st s dev blk b) b = cview s dev blk"
  by (simp add: bcontent_def heap_bread_st)

lemma bcontent_bread_st_other:
  "buf_pages s \<Longrightarrow> b < NBUF \<Longrightarrow> c < NBUF \<Longrightarrow> c \<noteq> b \<Longrightarrow> bcontent (bread_st s dev blk b) c = bcontent s c"
  by (auto simp: bcontent_def heap_bread_st buf_pages_def inj_on_def)

lemma length_cview:
  assumes "bio_inv s"
  shows "length (cview s dev blk) = BSIZE"
proof (cases "find (\<lambda>b. cached s dev blk b \<and> b_valid (bufs s b)) [0..<NBUF]")
  case None
  then show ?thesis using assms by (simp add: cview_def bio_inv_def del: BSIZE_def)
next
  case (Some b)
  then have "b < NBUF" "b_valid (bufs s b)"
    using find_SomeD [OF Some] by (auto simp: cached_def)
  then obtain bs where "heap s (b_data (bufs s b)) = Some (BufData bs)" "length bs = BSIZE"
    using assms unfolding bio_inv_def buf_pages_def by blast
  then show ?thesis using Some by (simp add: cview_def bcontent_def del: BSIZE_def)
qed

definition takes :: "kstate \<Rightarrow> u32 \<Rightarrow> u32 \<Rightarrow> nat \<Rightarrow> bool" where
  "takes s dev blk b \<longleftrightarrow> b < NBUF \<and> dev = ROOTDEV \<and> b_refcnt (bufs s b) + 1 \<noteq> 0 \<and>
     (cached s dev blk b \<or> (\<forall>c. \<not> cached s dev blk c) \<and> b_refcnt (bufs s b) = 0)"

lemma bread_inv:
  assumes "bio_inv s" and t: "takes s dev blk b"
  shows "bio_inv (bread_st s dev blk b)"
proof -
  let ?t = "bread_st s dev blk b"
  have b: "b < NBUF" "dev \<noteq> 0" "b_refcnt (bufs s b) + 1 \<noteq> 0" using t by (auto simp: takes_def)
  have one: "one_dev s" using assms(1) by (simp add: bio_inv_def)
  have "one_dev ?t"
    unfolding one_dev_def
  proof (intro allI impI)
    fix x assume "x < NBUF" "b_valid (bufs ?t x) \<or> b_refcnt (bufs ?t x) \<noteq> 0"
    then show "b_dev (bufs ?t x) = ROOTDEV"
      using one t by (cases "x = b") (auto simp: one_dev_def takes_def)
  qed
  moreover
  have u: "uniq_bufs s" and p: "buf_pages s" and c: "clean_bufs s" and d: "\<forall>blk. length (disk s blk) = BSIZE"
    and l: "\<exists>xs. lru_wf (bufs s) xs \<and> set xs = {..<NBUF}"
    using assms(1) by (auto simp: bio_inv_def)
  have only: "c = b" if "cached s dev blk c" for c
    using that t u b(2) unfolding takes_def uniq_bufs_def by blast
  have "uniq_bufs ?t"
    unfolding uniq_bufs_def
  proof (intro allI impI)
    fix d k x y assume a: "d \<noteq> 0" "cached ?t d k x" "cached ?t d k y"
    show "x = y"
    proof (cases "d = dev \<and> k = blk")
      case True
      then have "x = b" "y = b" using a(2,3) only b(1) by (auto simp: cached_bread_st split: if_splits)
      then show ?thesis by simp
    next
      case False
      then have "cached s d k x" "cached s d k y" using a(2,3) b(1) by (auto simp: cached_bread_st split: if_splits)
      then show ?thesis using u a(1) unfolding uniq_bufs_def by blast
    qed
  qed
  moreover have "buf_pages ?t"
    unfolding buf_pages_def
  proof (intro conjI allI impI)
    show "inj_on (\<lambda>b. b_data (bufs ?t b)) {..<NBUF}" using p by (simp add: buf_pages_def)
  next
    fix x assume x: "x < NBUF"
    show "\<exists>ob. heap ?t (b_data (bufs ?t x)) = Some ob \<and> (\<forall>n. ob \<noteq> Run n)"
      using p x by (simp add: buf_pages_def heap_bread_st)
    assume v: "b_valid (bufs ?t x)"
    show "\<exists>bs. heap ?t (b_data (bufs ?t x)) = Some (BufData bs) \<and> length bs = BSIZE"
    proof (cases "x = b")
      case True
      then show ?thesis using length_cview [OF assms(1), of dev blk] by (simp add: heap_bread_st)
    next
      case False
      then have "b_data (bufs s x) \<noteq> b_data (bufs s b)"
        using p x b(1) unfolding buf_pages_def by (metis inj_onD lessThan_iff)
      then show ?thesis using False v p x by (simp add: heap_bread_st buf_pages_def)
    qed
  qed
  moreover have "clean_bufs ?t"
    unfolding clean_bufs_def
  proof (intro allI impI)
    fix x assume x: "x < NBUF" "b_valid (bufs ?t x)" "b_refcnt (bufs ?t x) = 0"
    then have "x \<noteq> b" using b(3) by auto
    then show "bcontent ?t x = disk ?t (b_blockno (bufs ?t x))"
      using x c bcontent_bread_st_other [OF p b(1) x(1)] by (auto simp: clean_bufs_def)
  qed
  moreover have "\<exists>xs. lru_wf (bufs ?t) xs \<and> set xs = {..<NBUF}"
    using l by (simp add: lru_wf_cong [of "bufs ?t" "bufs s"])
  ultimately show ?thesis using d by (simp add: bio_inv_def)
qed

lemma bread_cview:
  assumes "bio_inv s" and t: "takes s dev blk b" and "dev' \<noteq> 0"
  shows "cview (bread_st s dev blk b) dev' blk' = cview s dev' blk'"
proof (cases "dev' = dev \<and> blk' = blk")
  case True
  have "cached (bread_st s dev blk b) dev blk b" using t by (auto simp: cached_bread_st takes_def)
  then have "cview (bread_st s dev blk b) dev blk = cview s dev blk"
    using cview_cached [of "bread_st s dev blk b" dev blk b] bread_inv [OF assms(1) t] t
    by (simp add: bcontent_bread_st bio_inv_def takes_def)
  then show ?thesis using True by simp
next
  case False
  let ?t = "bread_st s dev blk b"
  have b: "b < NBUF" and u: "uniq_bufs s" and p: "buf_pages s" and cl: "clean_bufs s"
    using t assms(1) by (auto simp: takes_def bio_inv_def)
  show ?thesis
  proof (cases "cached s dev' blk' b")
    case True
    then have r: "b_refcnt (bufs s b) = 0" using t False by (auto simp: takes_def cached_def)
    have "cview ?t dev' blk' = disk s blk'"
    proof (subst cview_uncached)
      fix c show "\<not> cached ?t dev' blk' c"
        using True False u \<open>dev' \<noteq> 0\<close> b by (auto simp: cached_bread_st uniq_bufs_def)
    qed simp
    moreover have "cview s dev' blk' = disk s blk'"
      using cview_cached [OF u \<open>dev' \<noteq> 0\<close> True] cl r b True
      by (auto simp: clean_bufs_def cached_def)
    ultimately show ?thesis by simp
  next
    case n: False
    have same: "cached ?t dev' blk' c \<longleftrightarrow> cached s dev' blk' c" "cached s dev' blk' c \<Longrightarrow> c \<noteq> b" for c
      using n False b by (auto simp: cached_bread_st)
    show ?thesis
    proof (rule cview_eqI)
      fix c
      show "cached s dev' blk' c \<and> b_valid (bufs s c) \<longleftrightarrow> cached ?t dev' blk' c \<and> b_valid (bufs ?t c)"
        using same [of c] by (cases "c = b") auto
      assume "cached s dev' blk' c"
      then show "bcontent ?t c = bcontent s c"
        using same(2) [of c] p b by (simp add: bcontent_bread_st_other cached_def)
    qed simp
  qed
qed

text \<open>Reading a block: the buffer that comes back is locked and has the content of the block.\<close>

definition bio_ready :: "kstate \<Rightarrow> bool" where
  "bio_ready s \<longleftrightarrow> bio_inv s \<and> cur s \<noteq> None \<and> BcacheLock \<notin> held s \<and> no_proc_lock s \<and>
     (\<forall>b. SleepLk (SLBuf b) \<notin> held s)"

definition can_bread :: "kstate \<Rightarrow> u32 \<Rightarrow> u32 \<Rightarrow> bool" where
  "can_bread s dev blk \<longleftrightarrow> dev = ROOTDEV \<and>
     (\<exists>b < NBUF. cached s dev blk b \<or> b_refcnt (bufs s b) = 0) \<and>
     (\<forall>b < NBUF. (cached s dev blk b \<longrightarrow> b_refcnt (bufs s b) + 1 \<noteq> 0) \<and>
        (cached s dev blk b \<or> b_refcnt (bufs s b) = 0 \<longrightarrow> \<not> sl_locked (b_lock (bufs s b))))"

lemma bread_Done:
  assumes "bio_ready s" and "can_bread s dev blk"
  obtains b where "takes s dev blk b" and "\<not> sl_locked (b_lock (bufs s b))"
    and "bread dev blk s = Done b (bread_st s dev blk b)"
proof -
  obtain xs where xs: "lru_wf (bufs s) xs" "set xs = {..<NBUF}"
    using assms(1) by (auto simp: bio_ready_def bio_inv_def)
  obtain b where b: "pick s dev blk xs = Some b"
    using assms(2) pick_total [OF xs(2), of s dev blk] by (auto simp: can_bread_def)
  note p = pick_props [OF b xs(2)]
  have t: "takes s dev blk b" "\<not> sl_locked (b_lock (bufs s b))"
    using p assms(2) by (auto simp: takes_def can_bread_def)
  moreover have "bread dev blk s = Done b (bread_st s dev blk b)"
    using assms b xs t by (auto intro!: bread_eq simp: bio_ready_def bio_inv_def takes_def)
  ultimately show thesis using that by blast
qed

section \<open>Releasing a buffer\<close>

definition set_next :: "nat \<Rightarrow> nat \<Rightarrow> (nat \<Rightarrow> buf) \<Rightarrow> nat \<Rightarrow> buf" where
  "set_next a v f = f(a := (f a)\<lparr>b_next := v\<rparr>)"

definition set_prev :: "nat \<Rightarrow> nat \<Rightarrow> (nat \<Rightarrow> buf) \<Rightarrow> nat \<Rightarrow> buf" where
  "set_prev a v f = f(a := (f a)\<lparr>b_prev := v\<rparr>)"

lemma set_links_simps [simp]:
  "b_next (set_next a v f c) = (if c = a then v else b_next (f c))"
  "b_prev (set_next a v f c) = b_prev (f c)" "b_next (set_prev a v f c) = b_next (f c)"
  "b_prev (set_prev a v f c) = (if c = a then v else b_prev (f c))"
  "b_dev (set_next a v f c) = b_dev (f c)" "b_dev (set_prev a v f c) = b_dev (f c)"
  "b_blockno (set_next a v f c) = b_blockno (f c)" "b_blockno (set_prev a v f c) = b_blockno (f c)"
  "b_valid (set_next a v f c) = b_valid (f c)" "b_valid (set_prev a v f c) = b_valid (f c)"
  "b_refcnt (set_next a v f c) = b_refcnt (f c)" "b_refcnt (set_prev a v f c) = b_refcnt (f c)"
  "b_lock (set_next a v f c) = b_lock (f c)" "b_lock (set_prev a v f c) = b_lock (f c)"
  "b_data (set_next a v f c) = b_data (f c)" "b_data (set_prev a v f c) = b_data (f c)"
  "b_xobj (set_next a v f c) = b_xobj (f c)" "b_xobj (set_prev a v f c) = b_xobj (f c)"
  by (simp_all add: set_next_def set_prev_def)

definition relink :: "(nat \<Rightarrow> buf) \<Rightarrow> nat \<Rightarrow> nat \<Rightarrow> buf" where
  "relink f b =
     (let f1 = set_prev (b_next (f b)) (b_prev (f b)) f;
          f2 = set_next (b_prev (f1 b)) (b_next (f1 b)) f1;
          f3 = set_prev b NBUF (set_next b (b_next (f2 NBUF)) f2)
      in set_next NBUF b (set_prev (b_next (f3 NBUF)) b f3))"

lemma relink_simps [simp]:
  "b_dev (relink f b c) = b_dev (f c)" "b_blockno (relink f b c) = b_blockno (f c)"
  "b_valid (relink f b c) = b_valid (f c)" "b_refcnt (relink f b c) = b_refcnt (f c)"
  "b_lock (relink f b c) = b_lock (f c)" "b_data (relink f b c) = b_data (f c)"
  "b_xobj (relink f b c) = b_xobj (f c)"
  by (simp_all add: relink_def Let_def)

lemma lru_wf_relink:
  assumes "lru_wf f (us @ b # vs)"
  shows "lru_wf (relink f b) (b # us @ vs)"
proof -
  let ?n = "\<lambda>c. b_next (f c)" and ?p = "\<lambda>c. b_prev (f c)"
  let ?n1 = "?n(?p b := ?n b)" and ?p1 = "?p(?n b := ?p b)"
  have l: "links ?n NBUF (us @ b # vs) NBUF" "links ?p NBUF (rev (us @ b # vs)) NBUF"
    and d: "distinct (NBUF # us @ b # vs)"
    using assms by (auto simp: lru_wf_def)
  have "links ?n b vs NBUF" using l(1) by (simp add: links_append)
  then have nb: "?n b \<noteq> b" using d by (cases vs) auto
  have bh: "b \<noteq> NBUF" using d by auto
  have "(\<lambda>c. b_next (relink f b c)) = ?n1(b := ?n1 NBUF, NBUF := b)"
    using nb bh by (auto simp: relink_def Let_def fun_eq_iff)
  moreover have "(\<lambda>c. b_prev (relink f b c)) = ?p1(b := NBUF, ?n1 NBUF := b)"
    using nb bh by (auto simp: relink_def Let_def fun_eq_iff)
  ultimately show ?thesis
    using lru_move_front [OF l d] d by (auto simp: lru_wf_def)
qed

definition brelse_st :: "kstate \<Rightarrow> nat \<Rightarrow> kstate" where
  "brelse_st s b = (after_wakeup (ChSleepLock (SLBuf b)) s)\<lparr>bufs :=
     (let f = (bufs s)(b := (bufs s b)\<lparr>b_lock := no_sleeplock, b_refcnt := b_refcnt (bufs s b) - 1\<rparr>)
      in if b_refcnt (bufs s b) = 1 then relink f b else f)\<rparr>"

lemma upd_links:
  "upd_buf a (b_next_update (\<lambda>_. v)) s = Done () (s\<lparr>bufs := set_next a v (bufs s)\<rparr>)"
  "upd_buf a (b_prev_update (\<lambda>_. v)) s = Done () (s\<lparr>bufs := set_prev a v (bufs s)\<rparr>)"
  by (simp_all add: upd_buf_def modk_def set_next_def set_prev_def)

lemma brelse_front_eq: "brelse_front b s = Done () (s\<lparr>bufs := relink (bufs s) b\<rparr>)"
  by (simp add: brelse_front_def bnd_def sq_def get_buf_def getk_def upd_links relink_def Let_def)

lemma brelse_eq:
  assumes "cur s = Some p" "BcacheLock \<notin> held s" "SleepLk (SLBuf b) \<notin> held s" "no_proc_lock s"
    and "b_lock (bufs s b) = \<lparr>sl_locked = True, sl_pid = my_pid s\<rparr>" and "b < NBUF"
  shows "brelse b s = Done () (brelse_st s b)"
proof -
  let ?f = "(bufs s)(b := (bufs s b)\<lparr>b_lock := no_sleeplock, b_refcnt := b_refcnt (bufs s b) - 1\<rparr>)"
  let ?s1 = "(after_wakeup (ChSleepLock (SLBuf b)) s)\<lparr>held := insert BcacheLock (held s), bufs := ?f\<rparr>"
  have h: "holdingsleep (SLBuf b) s = Done True s"
    using assms by (simp add: holdingsleep_eq sl_of_def)
  have s1': "upd_buf b (b_refcnt_update (\<lambda>n. n - 1)) ((after_wakeup (ChSleepLock (SLBuf b))
      (set_sl (SLBuf b) no_sleeplock s))\<lparr>held := insert BcacheLock (held s)\<rparr>) = Done () ?s1"
    using assms by (auto simp: set_sl_def after_wakeup_def upd_buf_def modk_def intro!: kstate.equality)
  have "held (set_sl (SLBuf b) no_sleeplock s) = held s" by (simp add: set_sl_def)
  then show ?thesis
    using assms h s1'
    by (auto simp: brelse_def bnd_def sq_def releasesleep_eq get_buf_def getk_def whenk_def ret_def
        brelse_front_eq brelse_st_def intro!: kstate.equality)
qed

section \<open>The invariant under the other operations\<close>

definition same_bufs :: "kstate \<Rightarrow> kstate \<Rightarrow> bool" where
  "same_bufs s t \<longleftrightarrow> disk t = disk s \<and> heap t = heap s \<and>
     (\<forall>c. b_dev (bufs t c) = b_dev (bufs s c) \<and> b_blockno (bufs t c) = b_blockno (bufs s c) \<and>
          b_valid (bufs t c) = b_valid (bufs s c) \<and> b_data (bufs t c) = b_data (bufs s c))"

lemma same_bufs_eqs:
  assumes "same_bufs s t"
  shows "cached t dev blk c = cached s dev blk c" "bcontent t c = bcontent s c" "disk t = disk s"
    "heap t = heap s" "b_data (bufs t c) = b_data (bufs s c)" "b_valid (bufs t c) = b_valid (bufs s c)"
    "b_blockno (bufs t c) = b_blockno (bufs s c)" "b_dev (bufs t c) = b_dev (bufs s c)"
    "cview t dev blk = cview s dev blk"
proof -
  show e: "cached t dev blk c = cached s dev blk c" "bcontent t c = bcontent s c" "disk t = disk s"
    "heap t = heap s" "b_data (bufs t c) = b_data (bufs s c)" "b_valid (bufs t c) = b_valid (bufs s c)"
    "b_blockno (bufs t c) = b_blockno (bufs s c)" "b_dev (bufs t c) = b_dev (bufs s c)" for dev blk c
    using assms by (simp_all add: same_bufs_def cached_def bcontent_def)
  show "cview t dev blk = cview s dev blk"
    by (rule cview_eqI) (simp_all add: e)
qed

lemma bio_inv_refcnt:
  assumes "bio_inv s" and sb: "same_bufs s t" and "lru_wf (bufs t) ys" "set ys = {..<NBUF}"
    and r: "\<And>c. c < NBUF \<Longrightarrow> b_refcnt (bufs t c) = 0 \<Longrightarrow> b_valid (bufs s c) \<Longrightarrow>
      b_refcnt (bufs s c) = 0 \<or> bcontent s c = disk s (b_blockno (bufs s c))"
    and d: "\<And>c. c < NBUF \<Longrightarrow> b_refcnt (bufs t c) \<noteq> 0 \<Longrightarrow> b_dev (bufs s c) = ROOTDEV"
  shows "bio_inv t"
proof -
  note eqs = same_bufs_eqs [OF sb]
  have inv: "uniq_bufs s" "buf_pages s" "clean_bufs s" "one_dev s" "\<forall>blk. length (disk s blk) = BSIZE"
    using assms(1) by (simp_all add: bio_inv_def)
  have "clean_bufs t"
    using r inv(3) by (auto simp: clean_bufs_def eqs)
  moreover have "uniq_bufs t" "buf_pages t" "one_dev t"
    using inv d by (auto simp: uniq_bufs_def buf_pages_def one_dev_def eqs)
  ultimately show ?thesis
    using assms(3,4) inv(5) by (auto simp: bio_inv_def eqs)
qed

lemma brelse_st_simps [simp]:
  "disk (brelse_st s b) = disk s" "heap (brelse_st s b) = heap s" "cur (brelse_st s b) = cur s"
  "held (brelse_st s b) = held s" "klog (brelse_st s b) = klog s" "dwrites (brelse_st s b) = dwrites s"
  "lay (brelse_st s b) = lay s" "sb (brelse_st s b) = sb s" "itable (brelse_st s b) = itable s"
  "ftable (brelse_st s b) = ftable s" "freelist (brelse_st s b) = freelist s"
  "procs (brelse_st s b) = wake_procs (ChSleepLock (SLBuf b)) (cur s) (procs s)"
  "b_dev (bufs (brelse_st s b) c) = b_dev (bufs s c)"
  "b_blockno (bufs (brelse_st s b) c) = b_blockno (bufs s c)"
  "b_valid (bufs (brelse_st s b) c) = b_valid (bufs s c)"
  "b_data (bufs (brelse_st s b) c) = b_data (bufs s c)"
  "b_xobj (bufs (brelse_st s b) c) = b_xobj (bufs s c)"
  "b_refcnt (bufs (brelse_st s b) c) = (if c = b then b_refcnt (bufs s b) - 1 else b_refcnt (bufs s c))"
  "b_lock (bufs (brelse_st s b) c) = (if c = b then no_sleeplock else b_lock (bufs s c))"
  by (simp_all add: brelse_st_def Let_def after_wakeup_def)

lemma my_pid_brelse [simp]: "my_pid (brelse_st s b) = my_pid s"
  by (simp add: my_pid_def)

lemma same_bufs_brelse: "same_bufs s (brelse_st s b)"
  by (simp add: same_bufs_def)

lemma lru_brelse:
  assumes "bio_inv s" and "b < NBUF"
  obtains ys where "lru_wf (bufs (brelse_st s b)) ys" and "set ys = {..<NBUF}"
proof -
  let ?f = "(bufs s)(b := (bufs s b)\<lparr>b_lock := no_sleeplock, b_refcnt := b_refcnt (bufs s b) - 1\<rparr>)"
  obtain xs where xs: "lru_wf (bufs s) xs" "set xs = {..<NBUF}"
    using assms(1) by (auto simp: bio_inv_def)
  then obtain us vs where split: "xs = us @ b # vs"
    using assms(2) by (metis lessThan_iff split_list)
  have f: "lru_wf ?f xs"
    using xs(1) by (subst lru_wf_cong [of _ "bufs s"]) auto
  show thesis
  proof (cases "b_refcnt (bufs s b) = 1")
    case True
    have "lru_wf (relink ?f b) (b # us @ vs)"
      using lru_wf_relink f split by blast
    then show ?thesis using that [of "b # us @ vs"] True xs(2) split by (auto simp: brelse_st_def)
  next
    case False
    then show ?thesis using that f xs(2) by (simp add: brelse_st_def)
  qed
qed

lemma brelse_inv:
  assumes "bio_inv s" and "b < NBUF"
    and "b_refcnt (bufs s b) = 1 \<Longrightarrow> b_valid (bufs s b) \<Longrightarrow> bcontent s b = disk s (b_blockno (bufs s b))"
    and "b_dev (bufs s b) = ROOTDEV"
  shows "bio_inv (brelse_st s b)"
proof -
  obtain ys where ys: "lru_wf (bufs (brelse_st s b)) ys" "set ys = {..<NBUF}"
    using lru_brelse [OF assms(1,2)] .
  show ?thesis
    by (rule bio_inv_refcnt [OF assms(1) same_bufs_brelse ys]) (use assms in \<open>auto simp: bio_inv_def one_dev_def split: if_splits\<close>)
qed

definition set_ref :: "kstate \<Rightarrow> nat \<Rightarrow> u32 \<Rightarrow> kstate" where
  "set_ref s b n = s\<lparr>bufs := (bufs s)(b := (bufs s b)\<lparr>b_refcnt := n\<rparr>)\<rparr>"

lemma set_ref_simps [simp]:
  "disk (set_ref s b n) = disk s" "heap (set_ref s b n) = heap s" "cur (set_ref s b n) = cur s"
  "held (set_ref s b n) = held s" "klog (set_ref s b n) = klog s" "dwrites (set_ref s b n) = dwrites s"
  "lay (set_ref s b n) = lay s" "sb (set_ref s b n) = sb s" "itable (set_ref s b n) = itable s"
  "ftable (set_ref s b n) = ftable s" "freelist (set_ref s b n) = freelist s"
  "procs (set_ref s b n) = procs s" "my_pid (set_ref s b n) = my_pid s"
  "b_dev (bufs (set_ref s b n) c) = b_dev (bufs s c)"
  "b_blockno (bufs (set_ref s b n) c) = b_blockno (bufs s c)"
  "b_valid (bufs (set_ref s b n) c) = b_valid (bufs s c)"
  "b_data (bufs (set_ref s b n) c) = b_data (bufs s c)"
  "b_xobj (bufs (set_ref s b n) c) = b_xobj (bufs s c)"
  "b_next (bufs (set_ref s b n) c) = b_next (bufs s c)" "b_prev (bufs (set_ref s b n) c) = b_prev (bufs s c)"
  "b_refcnt (bufs (set_ref s b n) c) = (if c = b then n else b_refcnt (bufs s c))"
  "b_lock (bufs (set_ref s b n) c) = b_lock (bufs s c)"
  by (simp_all add: set_ref_def my_pid_def)

lemma same_bufs_set_ref: "same_bufs s (set_ref s b n)"
  by (simp add: same_bufs_def)

lemma bpin_eq: "BcacheLock \<notin> held s \<Longrightarrow> bpin b s = Done () (set_ref s b (b_refcnt (bufs s b) + 1))"
  by (auto simp: kdefs set_ref_def intro!: kstate.equality)

lemma bunpin_eq: "BcacheLock \<notin> held s \<Longrightarrow> bunpin b s = Done () (set_ref s b (b_refcnt (bufs s b) - 1))"
  by (auto simp: kdefs set_ref_def intro!: kstate.equality)

lemma set_ref_inv:
  assumes "bio_inv s"
    and "n = 0 \<Longrightarrow> b_valid (bufs s b) \<Longrightarrow> b_refcnt (bufs s b) = 0 \<or> bcontent s b = disk s (b_blockno (bufs s b))"
    and "b_dev (bufs s b) = ROOTDEV"
  shows "bio_inv (set_ref s b n)"
proof -
  obtain xs where xs: "lru_wf (bufs s) xs" "set xs = {..<NBUF}"
    using assms(1) by (auto simp: bio_inv_def)
  then have ys: "lru_wf (bufs (set_ref s b n)) xs"
    by (subst lru_wf_cong [of _ "bufs s"]) auto
  show ?thesis
    by (rule bio_inv_refcnt [OF assms(1) same_bufs_set_ref ys xs(2)]) (use assms in \<open>auto simp: bio_inv_def one_dev_def split: if_splits\<close>)
qed

section \<open>Changing the content of a buffer and writing it to the disk\<close>

definition set_data :: "kstate \<Rightarrow> nat \<Rightarrow> u8 list \<Rightarrow> kstate" where
  "set_data s b bs = s\<lparr>heap := (heap s)(b_data (bufs s b) \<mapsto> BufData bs)\<rparr>"

definition put_disk :: "kstate \<Rightarrow> u32 \<Rightarrow> u8 list \<Rightarrow> kstate" where
  "put_disk s blk bs = s\<lparr>disk := (disk s)(blk := bs), dwrites := dwrites s @ [(blk, bs)]\<rparr>"

lemma set_data_simps [simp]:
  "bufs (set_data s b bs) = bufs s" "disk (set_data s b bs) = disk s" "cur (set_data s b bs) = cur s"
  "held (set_data s b bs) = held s" "klog (set_data s b bs) = klog s" "dwrites (set_data s b bs) = dwrites s"
  "lay (set_data s b bs) = lay s" "sb (set_data s b bs) = sb s" "itable (set_data s b bs) = itable s"
  "ftable (set_data s b bs) = ftable s" "freelist (set_data s b bs) = freelist s"
  "procs (set_data s b bs) = procs s" "my_pid (set_data s b bs) = my_pid s"
  "heap (set_data s b bs) = (heap s)(b_data (bufs s b) \<mapsto> BufData bs)"
  "cached (set_data s b bs) = cached s" "bcontent (set_data s b bs) b = bs"
  by (simp_all add: set_data_def my_pid_def fun_eq_iff cached_def bcontent_def)

lemma bcontent_set_data_other:
  "buf_pages s \<Longrightarrow> b < NBUF \<Longrightarrow> c < NBUF \<Longrightarrow> c \<noteq> b \<Longrightarrow> bcontent (set_data s b bs) c = bcontent s c"
  by (auto simp: bcontent_def buf_pages_def dest: inj_onD)

lemma put_disk_simps [simp]:
  "bufs (put_disk s k bs) = bufs s" "heap (put_disk s k bs) = heap s" "cur (put_disk s k bs) = cur s"
  "held (put_disk s k bs) = held s" "klog (put_disk s k bs) = klog s"
  "dwrites (put_disk s k bs) = dwrites s @ [(k, bs)]" "disk (put_disk s k bs) = (disk s)(k := bs)"
  "lay (put_disk s k bs) = lay s" "sb (put_disk s k bs) = sb s" "itable (put_disk s k bs) = itable s"
  "ftable (put_disk s k bs) = ftable s" "freelist (put_disk s k bs) = freelist s"
  "procs (put_disk s k bs) = procs s" "my_pid (put_disk s k bs) = my_pid s"
  "cached (put_disk s k bs) = cached s" "bcontent (put_disk s k bs) = bcontent s"
  by (simp_all add: put_disk_def my_pid_def fun_eq_iff cached_def bcontent_def)

lemma set_data_inv:
  assumes "bio_inv s" "b < NBUF" "b_refcnt (bufs s b) \<noteq> 0" "length bs = BSIZE"
  shows "bio_inv (set_data s b bs)"
proof -
  let ?t = "set_data s b bs"
  have inv: "uniq_bufs s" "buf_pages s" "clean_bufs s" "one_dev s" "\<forall>blk. length (disk s blk) = BSIZE"
    using assms(1) by (simp_all add: bio_inv_def)
  have o: "bcontent ?t c = bcontent s c" if "c < NBUF" "c \<noteq> b" for c
    using that inv(2) assms(2) by (rule_tac bcontent_set_data_other)
  have "clean_bufs ?t"
    unfolding clean_bufs_def
  proof (intro allI impI)
    fix c assume c: "c < NBUF" "b_valid (bufs ?t c)" "b_refcnt (bufs ?t c) = 0"
    then have "c \<noteq> b" using assms(3) by auto
    then show "bcontent ?t c = disk ?t (b_blockno (bufs ?t c))"
      using c o inv(3) by (simp add: clean_bufs_def)
  qed
  moreover have "buf_pages ?t"
    using inv(2) assms(4) by (simp add: buf_pages_def)
  ultimately show ?thesis
    using assms(1) by (simp add: bio_inv_def uniq_bufs_def one_dev_def)
qed

lemma cview_set_data:
  assumes "bio_inv s" "cached s dev blk b" "b_valid (bufs s b)" "dev \<noteq> 0" "dev' \<noteq> 0"
  shows "cview (set_data s b bs) dev' blk' = (if dev' = dev \<and> blk' = blk then bs else cview s dev' blk')"
proof -
  have u: "uniq_bufs s" "buf_pages s" "uniq_bufs (set_data s b bs)"
    using assms(1) by (simp_all add: bio_inv_def uniq_bufs_def)
  have b: "b < NBUF" using assms(2) by (simp add: cached_def)
  show ?thesis
  proof (cases "dev' = dev \<and> blk' = blk")
    case True
    then show ?thesis
      using cview_cached [OF u(3) assms(4), of blk b] assms by simp
  next
    case False
    have "cview (set_data s b bs) dev' blk' = cview s dev' blk'"
    proof (rule cview_eqI)
      fix c assume "cached s dev' blk' c"
      then have "c \<noteq> b" "c < NBUF" using False assms(2) by (auto simp: cached_def)
      then show "bcontent (set_data s b bs) c = bcontent s c"
        using bcontent_set_data_other u(2) b by blast
    qed auto
    then show ?thesis using False by auto
  qed
qed

lemma put_disk_inv:
  assumes "bio_inv s" and "cached s ROOTDEV blk b" and "b_valid (bufs s b)"
  shows "bio_inv (put_disk s blk (bcontent s b))"
    and "cview (put_disk s blk (bcontent s b)) ROOTDEV blk' = cview s ROOTDEV blk'"
proof -
  let ?t = "put_disk s blk (bcontent s b)"
  have inv: "uniq_bufs s" "buf_pages s" "clean_bufs s" "one_dev s" "\<forall>blk. length (disk s blk) = BSIZE"
    using assms(1) by (simp_all add: bio_inv_def)
  have len: "length (bcontent s b) = BSIZE"
    using assms length_cview [OF assms(1), of ROOTDEV blk] cview_cached [OF inv(1) _ assms(2)] by simp
  have only: "c = b" if "c < NBUF" "b_valid (bufs s c)" "b_blockno (bufs s c) = blk" for c
  proof -
    have "cached s ROOTDEV blk c" using that inv(4) by (simp add: cached_def one_dev_def)
    then show ?thesis using inv(1) assms(2) unfolding uniq_bufs_def by (metis ROOTDEV_nonzero)
  qed
  have "clean_bufs ?t"
    using inv(3) only by (auto simp: clean_bufs_def)
  then show "bio_inv ?t"
    using assms(1) len by (simp add: bio_inv_def uniq_bufs_def one_dev_def buf_pages_def)
  then have "uniq_bufs ?t" by (simp add: bio_inv_def)
  then show "cview ?t ROOTDEV blk' = cview s ROOTDEV blk'"
  proof (cases "blk' = blk")
    case True
    then show ?thesis
      using cview_cached [OF \<open>uniq_bufs ?t\<close>, of ROOTDEV blk b] cview_cached [OF inv(1), of ROOTDEV blk b] assms
      by simp
  next
    case False
    then show ?thesis by (intro cview_eqI) auto
  qed
qed

lemma bwrite_eq:
  assumes "cur s = Some p" "SleepLk (SLBuf b) \<notin> held s"
    and "b_lock (bufs s b) = \<lparr>sl_locked = True, sl_pid = my_pid s\<rparr>"
    and "heap s (b_data (bufs s b)) = Some (BufData bs)"
  shows "bwrite b s = Done () (put_disk s (b_blockno (bufs s b)) bs)"
  using assms by (simp add: bwrite_def bnd_def holdingsleep_eq sl_of_def disk_rw_def get_buf_def getk_def
      get_bdata_def modk_def put_disk_def)

section \<open>Initialisation\<close>

definition binit_loop_inv :: "kstate \<Rightarrow> u64 list \<Rightarrow> nat \<Rightarrow> kstate \<Rightarrow> bool" where
  "binit_loop_inv s pgs k t \<longleftrightarrow>
     lru_wf (bufs t) (rev [0..<k]) \<and> kmem_wf t (drop k pgs) \<and> held t = held s \<and> disk t = disk s \<and>
     (\<forall>i < k. b_data (bufs t i) = pgs ! i \<and> heap t (pgs ! i) = Some (Bytes (\<lambda>_. 5))) \<and>
     (\<forall>i < k. b_lock (bufs t i) = no_sleeplock \<and> b_xobj (bufs t i) = no_tx_data) \<and>
     (\<forall>i. b_valid (bufs t i) = b_valid (bufs s i) \<and> b_refcnt (bufs t i) = b_refcnt (bufs s i) \<and>
          b_dev (bufs t i) = b_dev (bufs s i) \<and> b_blockno (bufs t i) = b_blockno (bufs s i))"

definition binit_bufs :: "u64 \<Rightarrow> (nat \<Rightarrow> buf) \<Rightarrow> nat \<Rightarrow> nat \<Rightarrow> buf" where
  "binit_bufs x f b =
     (let f1 = set_prev b NBUF (set_next b (b_next (f NBUF)) f);
          g = f1(b := (f1 b)\<lparr>b_xobj := no_tx_data, b_data := x, b_lock := no_sleeplock\<rparr>)
      in set_next NBUF b (set_prev (b_next (g NBUF)) b g))"

lemma binit_bufs_simps [simp]:
  "b_dev (binit_bufs x f b c) = b_dev (f c)" "b_blockno (binit_bufs x f b c) = b_blockno (f c)"
  "b_valid (binit_bufs x f b c) = b_valid (f c)" "b_refcnt (binit_bufs x f b c) = b_refcnt (f c)"
  "b_lock (binit_bufs x f b c) = (if c = b then no_sleeplock else b_lock (f c))"
  "b_data (binit_bufs x f b c) = (if c = b then x else b_data (f c))"
  "b_xobj (binit_bufs x f b c) = (if c = b then no_tx_data else b_xobj (f c))"
  by (simp_all add: binit_bufs_def Let_def)

lemma lru_wf_binit:
  assumes "lru_wf f xs" and "b \<noteq> NBUF" "b \<notin> set xs"
  shows "lru_wf (binit_bufs x f b) (b # xs)"
proof -
  let ?n = "\<lambda>c. b_next (f c)" and ?p = "\<lambda>c. b_prev (f c)"
  have l: "links ?n NBUF xs NBUF" "links ?p NBUF (rev xs) NBUF" and d: "distinct (NBUF # rev xs)"
    using assms by (auto simp: lru_wf_def)
  have h: "?n NBUF = last (NBUF # rev xs)"
    using links_hd [OF l(1)] rev_last_hd [of NBUF xs] by simp
  have "?n NBUF \<noteq> b" using h assms last_in_set [of "NBUF # rev xs"] by auto
  then have "(\<lambda>c. b_next (binit_bufs x f b c)) = ?n(b := ?n NBUF, NBUF := b)"
    and "(\<lambda>c. b_prev (binit_bufs x f b c)) = ?p(b := NBUF, ?n NBUF := b)"
    using assms(2) by (auto simp: binit_bufs_def Let_def fun_eq_iff)
  moreover have "links (?p(b := NBUF, ?n NBUF := b)) NBUF (rev xs @ [b]) NBUF"
    unfolding h using links_snoc [OF l(2) d assms(2)] assms(3) by simp
  ultimately show ?thesis
    using links_push [OF l(1) assms(2,3)] assms by (auto simp: lru_wf_def)
qed

lemma binit_one_eq:
  assumes "kmem_wf s (x # xs)" "KmemLock \<notin> held s" "XobjLock (HBuf b) \<notin> held s" "SleepLk (SLBuf b) \<notin> held s"
    and "b \<noteq> NBUF"
  shows "\<exists>n. binit_one b s = Done () ((after_kalloc s x n)\<lparr>bufs := binit_bufs x (bufs s) b\<rparr>) \<and>
    kmem_wf (after_kalloc s x n) xs"
proof -
  let ?f = "set_prev b NBUF (set_next b (b_next (bufs s NBUF)) (bufs s))"
  let ?s = "s\<lparr>bufs := ?f(b := (?f b)\<lparr>b_xobj := no_tx_data\<rparr>)\<rparr>"
  have wf: "kmem_wf ?s (x # xs)" using assms(1) by (rule kmem_wf_cong) auto
  then obtain n where n: "kalloc ?s = Done x (after_kalloc ?s x n)" "kmem_wf (after_kalloc ?s x n) xs"
    using kalloc_some [of ?s x xs] assms(2) by auto
  have x0: "x \<noteq> 0" using assms(1) by (auto simp: kmem_wf_def)
  have i: "initxobj (HBuf b) (s\<lparr>bufs := ?f\<rparr>) = Done () ?s"
    using assms(3) by (auto simp: kdefs no_tx_data_def intro!: kstate.equality fun_upd_eqI)
  have "kmem_wf (after_kalloc s x n) xs"
    using n(2) by (rule kmem_wf_cong) (auto simp: after_kalloc_def)
  moreover have "binit_one b s = Done () ((after_kalloc s x n)\<lparr>bufs := binit_bufs x (bufs s) b\<rparr>)"
    using assms(4,5) n(1) x0 i
    by (auto simp: binit_one_def bnd_def sq_def get_buf_def getk_def upd_links initsleeplock_def initlock_def
        put_sl_def upd_buf_def modk_def binit_bufs_def Let_def set_next_def set_prev_def no_sleeplock_def
        after_kalloc_def ret_def intro!: kstate.equality)
  ultimately show ?thesis by blast
qed


lemma binit_loop_step:
  assumes inv: "binit_loop_inv s pgs k t" and k: "k < NBUF" "k < length pgs" and h: "held s = {}"
  shows "\<exists>u. binit_one k t = Done () u \<and> binit_loop_inv s pgs (Suc k) u"
proof -
  have d: "drop k pgs = pgs ! k # drop (Suc k) pgs" using k(2) by (simp add: Cons_nth_drop_Suc)
  have wf: "kmem_wf t (pgs ! k # drop (Suc k) pgs)" using inv d by (simp add: binit_loop_inv_def)
  then obtain n where n: "binit_one k t = Done () ((after_kalloc t (pgs ! k) n)\<lparr>bufs := binit_bufs (pgs ! k) (bufs t) k\<rparr>)"
    "kmem_wf (after_kalloc t (pgs ! k) n) (drop (Suc k) pgs)"
    using binit_one_eq [OF wf, of k] inv h k(1) by (auto simp: binit_loop_inv_def)
  let ?u = "(after_kalloc t (pgs ! k) n)\<lparr>bufs := binit_bufs (pgs ! k) (bufs t) k\<rparr>"
  have "kmem_wf ?u (drop (Suc k) pgs)" using n(2) by (rule kmem_wf_cong) auto
  moreover have "lru_wf (bufs ?u) (rev [0..<Suc k])"
    using lru_wf_binit [of "bufs t" "rev [0..<k]" k] inv k(1) by (simp add: binit_loop_inv_def)
  ultimately have "binit_loop_inv s pgs (Suc k) ?u"
    using inv by (auto simp: binit_loop_inv_def less_Suc_eq)
  then show ?thesis using n(1) by blast
qed

lemma binit_loop:
  assumes "binit_loop_inv s pgs 0 t" and "k \<le> NBUF" "k \<le> length pgs" and "held s = {}"
  shows "\<exists>u. for_each [0..<k] binit_one t = Done () u \<and> binit_loop_inv s pgs k u"
  using assms(2,3)
proof (induction k)
  case 0
  then show ?case using assms(1) by (simp add: ret_def)
next
  case (Suc k)
  then obtain u where u: "for_each [0..<k] binit_one t = Done () u" "binit_loop_inv s pgs k u" by auto
  obtain v where v: "binit_one k u = Done () v" "binit_loop_inv s pgs (Suc k) v"
    using binit_loop_step [OF u(2)] Suc.prems assms(4) by auto
  then show ?case using u by (auto simp: for_each_append ret_def sq_def bnd_def)
qed

lemma binit_ok:
  assumes "kmem_wf s pgs" "NBUF \<le> length pgs" "held s = {}" "\<And>blk. length (disk s blk) = BSIZE"
    and "\<And>b. \<not> b_valid (bufs s b) \<and> b_refcnt (bufs s b) = 0 \<and> b_dev (bufs s b) = 0"
  shows "\<exists>t. binit s = Done () t \<and> bio_inv t \<and> kmem_wf t (drop NBUF pgs) \<and> held t = {} \<and> disk t = disk s \<and>
    (\<forall>b < NBUF. b_refcnt (bufs t b) = 0 \<and> b_lock (bufs t b) = no_sleeplock)"
proof -
  let ?t = "s\<lparr>bufs := set_next NBUF NBUF (set_prev NBUF NBUF (bufs s))\<rparr>"
  have "binit_loop_inv s pgs 0 ?t"
    using assms(1) by (auto simp: binit_loop_inv_def lru_wf_def intro: kmem_wf_cong)
  then obtain u where u: "for_each [0..<NBUF] binit_one ?t = Done () u" "binit_loop_inv s pgs NBUF u"
    using binit_loop [of s pgs ?t NBUF] assms(2,3) by auto
  have i: "initlock BcacheLock s = Done () s" using assms(3) by (simp add: kdefs)
  have "distinct pgs" using assms(1) by (simp add: kmem_wf_def)
  then have "inj_on (\<lambda>b. b_data (bufs u b)) {..<NBUF}"
    using u(2) assms(2) by (auto simp: binit_loop_inv_def inj_on_def nth_eq_iff_index_eq)
  then have "buf_pages u"
    using u(2) assms(5) by (auto simp: buf_pages_def binit_loop_inv_def)
  moreover have "\<exists>xs. lru_wf (bufs u) xs \<and> set xs = {..<NBUF}"
    using u(2) by (intro exI [of _ "rev [0..<NBUF]"]) (auto simp: binit_loop_inv_def)
  ultimately have "bio_inv u"
    using u(2) assms(4,5)
    by (simp add: bio_inv_def uniq_bufs_def clean_bufs_def one_dev_def cached_def binit_loop_inv_def)
  moreover have "binit s = Done () u"
    using u(1) i by (simp add: binit_def sq_def bnd_def upd_links)
  ultimately show ?thesis
    using u(2) assms(3,5) by (auto simp: binit_loop_inv_def)
qed

text \<open>C22. \<open>binit\<close>, run with at least \<open>NBUF\<close> free pages while the cache is empty, establishes the
  invariant of the buffer cache, with every buffer unlocked and unreferenced, and takes exactly
  \<open>NBUF\<close> pages from the allocator.\<close>

theorem binit_establishes:
  assumes "kmem_wf s pgs" "NBUF \<le> length pgs" "held s = {}" "\<And>blk. length (disk s blk) = BSIZE"
    and "\<And>b. \<not> b_valid (bufs s b) \<and> b_refcnt (bufs s b) = 0 \<and> b_dev (bufs s b) = 0"
  shows "\<exists>t. binit s = Done () t \<and> bio_inv t \<and> kmem_wf t (drop NBUF pgs) \<and> held t = {} \<and> disk t = disk s \<and>
    (\<forall>b < NBUF. b_refcnt (bufs t b) = 0 \<and> b_lock (bufs t b) = no_sleeplock)"
  using binit_ok [OF assms] by simp

fun link_pages :: "u64 list \<Rightarrow> u64 \<Rightarrow> kobj option" where
  "link_pages [] = (\<lambda>_. None)"
| "link_pages (x # xs) = (link_pages xs)(x \<mapsto> Run (hd (xs @ [0])))"

lemma free_path_link_pages:
  "distinct xs \<Longrightarrow> 0 \<notin> set xs \<Longrightarrow> free_path (link_pages xs) (hd (xs @ [0])) xs"
  by (induction xs) auto

definition boot_pages :: "u64 list" where
  "boot_pages = map (\<lambda>i. 0x80100000 + 0x1000 * of_nat i) [0..<64]"

definition pages_state :: kstate where
  "pages_state = (bss_state sample_layout)\<lparr>freelist := hd (boot_pages @ [0]), heap := link_pages boot_pages\<rparr>"

lemma boot_pages_ok: "distinct boot_pages" "length boot_pages = 64" "list_all (valid_page sample_layout) boot_pages"
proof -
  have e: "0x1000 * of_nat i = (of_nat (0x1000 * i) :: u64)" for i by simp
  have "inj_on (\<lambda>i. 0x80100000 + 0x1000 * of_nat i :: u64) {0..<64}"
    unfolding e by (rule inj_onI) (simp add: word_of_nat_eq_iff take_bit_nat_eq_self del: of_nat_mult)
  then show "distinct boot_pages" "length boot_pages = 64"
    by (simp_all add: boot_pages_def distinct_map)
  have "valid_page sample_layout (0x80100000 + 0x1000 * of_nat i)" if "i < 64" for i
  proof -
    have u: "unat (0x80100000 + 0x1000 * of_nat i :: u64) = 0x80100000 + 0x1000 * i"
      using that by (simp add: unat_word_ariths unat_of_nat)
    then have "(0x80100000 + 0x1000 * of_nat i :: u64) \<noteq> 0" by auto
    moreover have "(0x80100000 + 0x1000 * i) mod 4096 = (0 :: nat)" by (simp add: mod_add_eq [symmetric])
    ultimately show ?thesis
      unfolding valid_page_def mod_page_iff word_le_nat_alt word_less_nat_alt u
      using that by (simp add: sample_layout_def)
  qed
  then show "list_all (valid_page sample_layout) boot_pages"
    by (auto simp: boot_pages_def list_all_iff)
qed

lemma pages_state_ok: "kmem_wf pages_state boot_pages" "held pages_state = {}"
proof -
  have "0 \<notin> set boot_pages" using boot_pages_ok(3) by (auto simp: list_all_iff valid_page_def)
  then show "kmem_wf pages_state boot_pages" "held pages_state = {}"
    using boot_pages_ok free_path_link_pages [of boot_pages]
    by (simp_all add: pages_state_def kmem_wf_def bss_state_def list_all_iff)
qed

theorem binit_establishes_witness:
  "\<exists>t. binit pages_state = Done () t \<and> bio_inv t \<and> kmem_wf t (drop NBUF boot_pages)"
proof -
  have "NBUF \<le> length boot_pages" "\<And>blk. length (disk pages_state blk) = BSIZE"
    "\<And>b. \<not> b_valid (bufs pages_state b) \<and> b_refcnt (bufs pages_state b) = 0 \<and> b_dev (bufs pages_state b) = 0"
    by (simp_all add: boot_pages_ok NBUF_def pages_state_def bss_state_def zero_buf_def)
  then show ?thesis
    using binit_establishes [OF pages_state_ok(1) _ pages_state_ok(2)] by blast
qed

text \<open>C7. Reading a block, with the cache in order and a buffer available, returns a buffer locked
  by the caller that holds the block's content, keeps the invariant of the cache, and changes the
  content of no block and nothing on the disk.\<close>

theorem bread_correct:
  assumes "bio_ready s" and "can_bread s ROOTDEV blk"
  shows "\<exists>b s'. bread ROOTDEV blk s = Done b s' \<and> cached s' ROOTDEV blk b \<and> bio_inv s' \<and>
    b_lock (bufs s' b) = \<lparr>sl_locked = True, sl_pid = my_pid s\<rparr> \<and>
    heap s' (b_data (bufs s' b)) = Some (BufData (cview s ROOTDEV blk)) \<and>
    (\<forall>k. cview s' ROOTDEV k = cview s ROOTDEV k) \<and> disk s' = disk s \<and> held s' = held s"
proof -
  obtain b where b: "takes s ROOTDEV blk b" "bread ROOTDEV blk s = Done b (bread_st s ROOTDEV blk b)"
    using bread_Done [OF assms] by blast
  have i: "bio_inv s" using assms(1) by (simp add: bio_ready_def)
  show ?thesis
    using b bread_inv [OF i b(1)] bread_cview [OF i b(1)]
    by (intro exI [of _ b] exI [of _ "bread_st s ROOTDEV blk b"])
       (auto simp: cached_bread_st takes_def heap_bread_st)
qed


lemma booted_cache:
  obtains t where "binit pages_state = Done () t" "bio_ready (t\<lparr>cur := Some 0\<rparr>)" "\<And>blk. can_bread (t\<lparr>cur := Some 0\<rparr>) ROOTDEV blk"
    and "kmem_wf t (drop NBUF boot_pages)" and "disk t = (\<lambda>_. replicate BSIZE 0)" and "held t = {}"
    and "\<And>b. b < NBUF \<Longrightarrow> b_refcnt (bufs t b) = 0 \<and> b_lock (bufs t b) = no_sleeplock"
proof -
  have "NBUF \<le> length boot_pages" "\<And>blk. length (disk pages_state blk) = BSIZE"
    "\<And>b. \<not> b_valid (bufs pages_state b) \<and> b_refcnt (bufs pages_state b) = 0 \<and> b_dev (bufs pages_state b) = 0"
    by (simp_all add: boot_pages_ok NBUF_def pages_state_def bss_state_def zero_buf_def)
  then obtain t where t: "binit pages_state = Done () t" "bio_inv t" "kmem_wf t (drop NBUF boot_pages)" "held t = {}"
    "\<forall>b < NBUF. b_refcnt (bufs t b) = 0 \<and> b_lock (bufs t b) = no_sleeplock" "disk t = disk pages_state"
    using binit_ok [OF pages_state_ok(1) _ pages_state_ok(2)] by blast
  have "same_bufs t (t\<lparr>cur := Some 0\<rparr>)" by (simp add: same_bufs_def)
  then have "bio_inv (t\<lparr>cur := Some 0\<rparr>)"
    using bio_inv_refcnt [OF t(2), of "t\<lparr>cur := Some 0\<rparr>"] t(2) by (auto simp: bio_inv_def one_dev_def)
  moreover have "0 < NBUF" "b_refcnt (bufs t 0) = 0" using t(5) by (simp_all add: NBUF_def)
  ultimately show thesis
    using that [OF t(1) _ _ t(3)] t(4,5,6)
    by (auto simp: pages_state_def bss_state_def bio_ready_def can_bread_def no_proc_lock_def no_sleeplock_def)
qed

theorem bread_correct_witness:
  "\<exists>s b s'. bio_ready s \<and> can_bread s ROOTDEV 7 \<and> bread ROOTDEV 7 s = Done b s' \<and> cached s' ROOTDEV 7 b \<and>
     heap s' (b_data (bufs s' b)) = Some (BufData (cview s ROOTDEV 7))"
proof -
  obtain t where "bio_ready (t\<lparr>cur := Some 0\<rparr>)" "can_bread (t\<lparr>cur := Some 0\<rparr>) ROOTDEV 7"
    using booted_cache by metis
  then show ?thesis using bread_correct [of "t\<lparr>cur := Some 0\<rparr>" 7] by blast
qed

section \<open>The cache as a list ordered by last use\<close>

lemma bget_none:
  assumes "lru_wf (bufs s) xs" "set xs = {..<NBUF}" "BcacheLock \<notin> held s" "pick s dev blk xs = None"
  shows "bget dev blk s = Panic ''bget: no buffers''"
proof -
  let ?t = "s\<lparr>held := insert BcacheLock (held s)\<rparr>"
  have l: "length xs = NBUF" using assms(1,2) by (auto simp: lru_wf_def distinct_length_30)
  have n: "find (cached s dev blk) xs = None" "find (\<lambda>b. b_refcnt (bufs s b) = 0) (rev xs) = None"
    using assms(4) by (auto simp: pick_def split: option.splits)
  have c: "bget_cached (Suc NBUF) (b_next (bufs s NBUF)) dev blk ?t = Done None ?t"
    using bget_cached_eq [of ?t NBUF xs "Suc NBUF" dev blk] assms(1,2) l n(1)
    by (simp add: lru_wf_def find_cached del: bget_cached.simps)
  have u: "bget_unused (Suc NBUF) (b_prev (bufs s NBUF)) ?t = Done None ?t"
    using bget_unused_eq [of ?t NBUF "rev xs" "Suc NBUF"] assms(1,2) l n(2)
    by (simp add: lru_wf_def del: bget_unused.simps)
  show ?thesis
    using assms(3) c u by (simp add: bget_def sq_def bnd_def get_buf_def getk_def panic_def
        del: bget_cached.simps bget_unused.simps)
qed

text \<open>C12. \<open>bget\<close> takes the buffer that caches the block if there is one, and otherwise the least
  recently used buffer without references; it panics exactly when every buffer is referenced and none
  caches the block. It leaves the order of the list alone.\<close>

theorem bget_refines_lru:
  assumes "lru_wf (bufs s) xs" "set xs = {..<NBUF}" and "cur s = Some p" and "held s = {}"
    and "\<And>b. b < NBUF \<Longrightarrow> \<not> sl_locked (b_lock (bufs s b))"
  shows "case pick s dev blk xs of
      None \<Rightarrow> bget dev blk s = Panic ''bget: no buffers''
    | Some b \<Rightarrow> \<exists>s'. bget dev blk s = Done b s' \<and> lru_wf (bufs s') xs \<and> cached s' dev blk b \<and>
        b_refcnt (bufs s' b) = b_refcnt (bufs s b) + 1"
proof (cases "pick s dev blk xs")
  case None
  then show ?thesis using bget_none assms by simp
next
  case (Some b)
  then have b: "b < NBUF" using pick_props assms(2) by blast
  have "lru_wf (bufs (bget_st s dev blk b)) xs"
    using assms(1) by (subst lru_wf_cong [of _ "bufs s"]) (auto simp: bget_st_def)
  then show ?thesis
    using bget_eq [OF assms(1,2,3) _ _ Some] assms(4,5) b Some by (auto simp: bget_st_def cached_def)
qed

definition lru_sample :: kstate where
  "lru_sample = (bss_state sample_layout)\<lparr>cur := Some 0,
     bufs := (\<lambda>b. zero_buf\<lparr>b_next := (b + 1) mod 31, b_prev := (b + 30) mod 31\<rparr>)\<rparr>"

lemma lru_sample_wf: "lru_wf (bufs lru_sample) [0..<30]"
  by code_simp

theorem bget_refines_lru_witness:
  "pick lru_sample ROOTDEV 5 [0..<30] = Some 29 \<and>
   (\<exists>s'. bget ROOTDEV 5 lru_sample = Done 29 s' \<and> lru_wf (bufs s') [0..<30])"
proof -
  have p: "pick lru_sample ROOTDEV 5 [0..<30] = Some 29"
    by code_simp
  have "set [0..<30] = {..<NBUF}" "cur lru_sample = Some 0" "held lru_sample = {}"
    "\<And>b. b < NBUF \<Longrightarrow> \<not> sl_locked (b_lock (bufs lru_sample b))"
    by (auto simp: NBUF_def lru_sample_def bss_state_def zero_buf_def no_sleeplock_def)
  then show ?thesis
    using bget_refines_lru [OF lru_sample_wf, of 0 ROOTDEV 5] p by auto
qed

text \<open>C11. \<open>brelse\<close> of the last reference moves the buffer to the front of the list, the most recently
  used position, and keeps the order of all others; while references remain, the list stays as it is.\<close>

theorem brelse_refines_lru:
  assumes "lru_wf (bufs s) (us @ b # vs)" and "cur s = Some p" and "held s = {}" and "b < NBUF"
    and "b_lock (bufs s b) = \<lparr>sl_locked = True, sl_pid = my_pid s\<rparr>"
  shows "\<exists>s'. brelse b s = Done () s' \<and> b_lock (bufs s' b) = no_sleeplock \<and>
    lru_wf (bufs s') (if b_refcnt (bufs s b) = 1 then b # us @ vs else us @ b # vs)"
proof -
  let ?f = "(bufs s)(b := (bufs s b)\<lparr>b_lock := no_sleeplock, b_refcnt := b_refcnt (bufs s b) - 1\<rparr>)"
  have "lru_wf ?f (us @ b # vs)"
    using assms(1) by (subst lru_wf_cong [of _ "bufs s"]) auto
  then have "lru_wf (bufs (brelse_st s b)) (if b_refcnt (bufs s b) = 1 then b # us @ vs else us @ b # vs)"
    using lru_wf_relink [of ?f us b vs] by (auto simp: brelse_st_def)
  moreover have "brelse b s = Done () (brelse_st s b)"
    using assms by (intro brelse_eq) (auto simp: no_proc_lock_def)
  ultimately show ?thesis by auto
qed

theorem brelse_refines_lru_witness:
  "\<exists>s s'. bufs s 3 = (bufs lru_sample 3)\<lparr>b_refcnt := 1, b_lock := \<lparr>sl_locked = True, sl_pid = 0\<rparr>\<rparr> \<and>
     brelse 3 s = Done () s' \<and> lru_wf (bufs s') (3 # [0, 1, 2] @ [4..<30])"
proof -
  let ?s = "lru_sample\<lparr>bufs := (bufs lru_sample)(3 := (bufs lru_sample 3)\<lparr>b_refcnt := 1,
      b_lock := \<lparr>sl_locked = True, sl_pid = 0\<rparr>\<rparr>)\<rparr>"
  have u: "[0..<30] = [0, 1, 2] @ 3 # [4..<30]" by code_simp
  have "lru_wf (bufs ?s) ([0, 1, 2] @ 3 # [4..<30])"
    unfolding u [symmetric] using lru_sample_wf by (subst lru_wf_cong [of _ "bufs lru_sample"]) auto
  moreover have "cur ?s = Some 0" "held ?s = {}" "3 < NBUF"
    "b_lock (bufs ?s 3) = \<lparr>sl_locked = True, sl_pid = my_pid ?s\<rparr>"
    by (simp_all add: NBUF_def lru_sample_def bss_state_def my_pid_def zero_proc_def)
  ultimately obtain s' where "brelse 3 ?s = Done () s'" "lru_wf (bufs s') (3 # [0, 1, 2] @ [4..<30])"
    using brelse_refines_lru [of ?s "[0, 1, 2]" 3 "[4..<30]" 0] by auto
  then show ?thesis
    by (intro exI [of "\<lambda>s. \<exists>s'. _ s s'" ?s] exI [of _ s']) simp
qed

end
