(* ===== verification/Bcache.thy ===== *)
theory Bcache
  imports Bio
begin

text \<open>
  An abstract view of the buffer cache, for the code that uses it.

  The abstract state has the content of every block (\<open>C\<close>), a reference count per block (\<open>R\<close>) and
  the set of blocks that are locked (\<open>L\<close>). \<open>bst s C R L\<close> says that the state \<open>s\<close> has that
  abstract state, \<open>hbuf s b blk\<close> that the buffer \<open>b\<close> is locked by the running process and holds block
  \<open>blk\<close>, and \<open>frame s s'\<close> that only the cache changed between two states. Each operation of \<open>bio.c\<close>
  has one lemma that says what it does to the abstract state.
\<close>

definition refs :: "kstate \<Rightarrow> u32 \<Rightarrow> u32" where
  "refs s blk = (case find (cached s ROOTDEV blk) [0..<NBUF] of Some b \<Rightarrow> b_refcnt (bufs s b) | None \<Rightarrow> 0)"

definition hbuf :: "kstate \<Rightarrow> nat \<Rightarrow> u32 \<Rightarrow> bool" where
  "hbuf s b blk \<longleftrightarrow> cached s ROOTDEV blk b \<and> b_valid (bufs s b) \<and>
     b_lock (bufs s b) = \<lparr>sl_locked = True, sl_pid = my_pid s\<rparr>"

definition bst :: "kstate \<Rightarrow> (u32 \<Rightarrow> u8 list) \<Rightarrow> (u32 \<Rightarrow> u32) \<Rightarrow> u32 set \<Rightarrow> bool" where
  "bst s C R L \<longleftrightarrow> bio_ready s \<and> (\<forall>blk. cview s ROOTDEV blk = C blk) \<and> refs s = R \<and>
     (\<forall>b < NBUF. sl_locked (b_lock (bufs s b)) \<longleftrightarrow> b_dev (bufs s b) = ROOTDEV \<and> b_blockno (bufs s b) \<in> L) \<and>
     (\<forall>blk \<in> L. R blk \<noteq> 0)"

definition buf_page :: "kstate \<Rightarrow> u64 \<Rightarrow> bool" where
  "buf_page s pa \<longleftrightarrow> (\<exists>b < NBUF. b_data (bufs s b) = pa)"

definition frame :: "kstate \<Rightarrow> kstate \<Rightarrow> bool" where
  "frame s s' \<longleftrightarrow> lay s' = lay s \<and> held s' = held s \<and> cur s' = cur s \<and> klog s' = klog s \<and> sb s' = sb s \<and>
     itable s' = itable s \<and> ftable s' = ftable s \<and> freelist s' = freelist s \<and> my_pid s' = my_pid s \<and>
     (\<forall>i. p_tx (procs s' i) = p_tx (procs s i)) \<and>
     (\<forall>c. b_data (bufs s' c) = b_data (bufs s c) \<and> b_xobj (bufs s' c) = b_xobj (bufs s c)) \<and>
     (\<forall>pa. \<not> buf_page s pa \<longrightarrow> heap s' pa = heap s pa)"

lemma frame_refl [simp]: "frame s s"
  by (simp add: frame_def)

lemma frame_trans: "frame s t \<Longrightarrow> frame t u \<Longrightarrow> frame s u"
  by (simp add: frame_def buf_page_def)

lemma frameD:
  assumes "frame s s'"
  shows "lay s' = lay s" "held s' = held s" "cur s' = cur s" "klog s' = klog s" "sb s' = sb s"
    "itable s' = itable s" "ftable s' = ftable s" "freelist s' = freelist s" "my_pid s' = my_pid s"
    "p_tx (procs s' i) = p_tx (procs s i)" "\<not> buf_page s pa \<Longrightarrow> heap s' pa = heap s pa"
  using assms by (simp_all add: frame_def)

lemma bstD:
  assumes "bst s C R L"
  shows "bio_ready s" "bio_inv s" "cview s ROOTDEV blk = C blk" "refs s = R" "uniq_bufs s" "buf_pages s"
    "clean_bufs s" "one_dev s" "BcacheLock \<notin> held s" "SleepLk (SLBuf b) \<notin> held s" "no_proc_lock s"
    "b < NBUF \<Longrightarrow> sl_locked (b_lock (bufs s b)) \<longleftrightarrow> b_dev (bufs s b) = ROOTDEV \<and> b_blockno (bufs s b) \<in> L"
    "blk \<in> L \<Longrightarrow> R blk \<noteq> 0"
  using assms by (simp_all add: bst_def bio_ready_def bio_inv_def)

lemma refs_cached: "uniq_bufs s \<Longrightarrow> cached s ROOTDEV blk b \<Longrightarrow> refs s blk = b_refcnt (bufs s b)"
proof -
  assume a: "uniq_bufs s" "cached s ROOTDEV blk b"
  show ?thesis
  proof (cases "find (cached s ROOTDEV blk) [0..<NBUF]")
    case None
    then show ?thesis using a(2) by (auto simp: find_None_iff cached_def)
  next
    case (Some c)
    then have "cached s ROOTDEV blk c" by (blast dest: find_SomeD)
    then have "c = b" using a unfolding uniq_bufs_def by (metis ROOTDEV_nonzero)
    then show ?thesis using Some by (simp add: refs_def)
  qed
qed

lemma refs_uncached: "(\<And>b. \<not> cached s ROOTDEV blk b) \<Longrightarrow> refs s blk = 0"
proof -
  assume "\<And>b. \<not> cached s ROOTDEV blk b"
  then have "find (cached s ROOTDEV blk) [0..<NBUF] = None" by (simp add: find_None_iff)
  then show ?thesis by (simp add: refs_def)
qed

lemma refs_eqI:
  assumes "uniq_bufs s" "uniq_bufs t"
    and "\<And>b. cached t ROOTDEV blk b \<Longrightarrow> b_refcnt (bufs t b) = v"
    and "(\<And>b. \<not> cached t ROOTDEV blk b) \<Longrightarrow> v = 0"
  shows "refs t blk = v"
  using assms refs_cached [of t blk] refs_uncached [of t blk] by metis

lemma length_C: "bst s C R L \<Longrightarrow> length (C blk) = BSIZE"
  using length_cview [of s ROOTDEV blk] by (simp add: bstD)

text \<open>A free buffer exists unless \<open>NBUF\<close> blocks are referenced.\<close>

lemma free_buffer:
  assumes "bst s C R L" and "card {blk. R blk \<noteq> 0} < NBUF"
  shows "\<exists>b < NBUF. b_refcnt (bufs s b) = 0"
proof (rule ccontr)
  assume n: "\<not> (\<exists>b < NBUF. b_refcnt (bufs s b) = 0)"
  let ?k = "\<lambda>b. b_blockno (bufs s b)"
  have dev: "b_dev (bufs s b) = ROOTDEV" if "b < NBUF" for b
    using that n bstD(8) [OF assms(1)] unfolding one_dev_def by blast
  have inj: "inj_on ?k {..<NBUF}"
  proof (rule inj_onI)
    fix b c assume "b \<in> {..<NBUF}" "c \<in> {..<NBUF}" "?k b = ?k c"
    then have "cached s ROOTDEV (?k b) b" "cached s ROOTDEV (?k b) c" using dev by (auto simp: cached_def)
    then show "b = c" using bstD(5) [OF assms(1)] unfolding uniq_bufs_def by (metis ROOTDEV_nonzero)
  qed
  have "?k ` {..<NBUF} \<subseteq> {blk. R blk \<noteq> 0}"
  proof
    fix k assume "k \<in> ?k ` {..<NBUF}"
    then obtain b where b: "b < NBUF" "k = ?k b" by auto
    then have "refs s k = b_refcnt (bufs s b)"
      using dev bstD(5) [OF assms(1)] by (intro refs_cached) (auto simp: cached_def)
    then show "k \<in> {blk. R blk \<noteq> 0}" using b n bstD(4) [OF assms(1)] by auto
  qed
  then have "card (?k ` {..<NBUF}) \<le> card {blk. R blk \<noteq> 0}"
    by (simp add: card_mono)
  then show False using inj assms(2) by (simp add: card_image)
qed

lemma hbuf_content:
  assumes "bst s C R L" "hbuf s b blk"
  shows "heap s (b_data (bufs s b)) = Some (BufData (C blk))" "bcontent s b = C blk" "blk \<in> L"
    "b < NBUF" "b_blockno (bufs s b) = blk" "b_refcnt (bufs s b) = R blk"
proof -
  have b: "b < NBUF" "b_valid (bufs s b)" "cached s ROOTDEV blk b" "b_dev (bufs s b) = ROOTDEV"
    "b_blockno (bufs s b) = blk"
    using assms(2) by (auto simp: hbuf_def cached_def)
  then show "b < NBUF" "b_blockno (bufs s b) = blk" by simp_all
  have "bcontent s b = cview s ROOTDEV blk"
    using cview_cached [OF bstD(5) [OF assms(1)] _ b(3)] b(2) by simp
  then show c: "bcontent s b = C blk" using bstD(3) [OF assms(1)] by simp
  obtain bs where "heap s (b_data (bufs s b)) = Some (BufData bs)"
    using bstD(6) [OF assms(1)] b(1,2) unfolding buf_pages_def by blast
  then show "heap s (b_data (bufs s b)) = Some (BufData (C blk))"
    using c by (simp add: bcontent_def)
  show "blk \<in> L"
    using bstD(12) [OF assms(1) b(1)] b assms(2) by (simp add: hbuf_def)
  show "b_refcnt (bufs s b) = R blk"
    using refs_cached [OF bstD(5) [OF assms(1)] b(3)] bstD(4) [OF assms(1)] by simp
qed

lemma hbuf_inj:
  "bst s C R L \<Longrightarrow> hbuf s b k \<Longrightarrow> hbuf s c j \<Longrightarrow> b = c \<longleftrightarrow> k = j"
  using bstD(5) [of s C R L] unfolding hbuf_def uniq_bufs_def by (metis ROOTDEV_nonzero cached_def)

section \<open>The operations on the abstract state\<close>

lemma bst_can_bread:
  assumes st: "bst s C R L" and "blk \<notin> L" "R blk + 1 \<noteq> 0" and "R blk \<noteq> 0 \<or> card {k. R k \<noteq> 0} < NBUF"
  shows "can_bread s ROOTDEV blk"
proof -
  have u: "uniq_bufs s" and r: "refs s = R" using st by (simp_all add: bstD)
  have ref: "b_refcnt (bufs s b) = R blk" if "cached s ROOTDEV blk b" for b
    using refs_cached [OF u that] r by simp
  have lk: "\<not> sl_locked (b_lock (bufs s b))" if b: "b < NBUF" "cached s ROOTDEV blk b \<or> b_refcnt (bufs s b) = 0" for b
  proof
    assume "sl_locked (b_lock (bufs s b))"
    then have d: "b_dev (bufs s b) = ROOTDEV" "b_blockno (bufs s b) \<in> L" using bstD(12) [OF st b(1)] by simp_all
    then have "cached s ROOTDEV (b_blockno (bufs s b)) b" using b(1) by (simp add: cached_def)
    then have "b_refcnt (bufs s b) \<noteq> 0" using refs_cached [OF u] r bstD(13) [OF st d(2)] by metis
    then show False using b(2) d(2) assms(2) by (auto simp: cached_def)
  qed
  have "\<exists>b < NBUF. cached s ROOTDEV blk b \<or> b_refcnt (bufs s b) = 0"
  proof (cases "R blk = 0")
    case True
    then show ?thesis using free_buffer [OF st] assms(4) by blast
  next
    case False
    then have "\<exists>b. cached s ROOTDEV blk b" using refs_uncached [of s blk] r by auto
    then show ?thesis by (auto simp: cached_def)
  qed
  then show ?thesis using lk ref assms(3) by (auto simp: can_bread_def)
qed

lemma takes_refs:
  assumes st: "bst s C R L" and t: "takes s ROOTDEV blk b"
  shows "refs (bread_st s ROOTDEV blk b) = R(blk := R blk + 1)" and "b_refcnt (bufs s b) = R blk"
proof -
  let ?t = "bread_st s ROOTDEV blk b"
  have u: "uniq_bufs s" "refs s = R" using st by (simp_all add: bstD)
  have ut: "uniq_bufs ?t" using bread_inv [OF bstD(2) [OF st] t] by (simp add: bio_inv_def)
  have b: "b < NBUF" using t by (simp add: takes_def)
  show rb: "b_refcnt (bufs s b) = R blk"
    using t refs_cached [OF u(1)] refs_uncached [of s blk] u(2) by (auto simp: takes_def)
  show "refs ?t = R(blk := R blk + 1)"
  proof
    fix k
    show "refs ?t k = (R(blk := R blk + 1)) k"
    proof (cases "k = blk")
      case True
      have "cached ?t ROOTDEV blk b" using b by (simp add: cached_bread_st)
      then show ?thesis using refs_cached [OF ut, of blk b] rb True by simp
    next
      case k: False
      have same: "cached ?t ROOTDEV k c \<longleftrightarrow> cached s ROOTDEV k c \<and> c \<noteq> b" for c
        using k b by (auto simp: cached_bread_st)
      show ?thesis
      proof (cases "\<exists>c. cached ?t ROOTDEV k c")
        case True
        then obtain c where c: "cached ?t ROOTDEV k c" by blast
        then show ?thesis
          using refs_cached [OF ut c] refs_cached [OF u(1), of k c] same u(2) k by auto
      next
        case False
        then have "refs ?t k = 0" by (intro refs_uncached) auto
        moreover have "R k = 0"
        proof (cases "cached s ROOTDEV k b")
          case True
          then have "b_refcnt (bufs s b) = 0" using t k by (auto simp: takes_def cached_def)
          then show ?thesis using refs_cached [OF u(1) True] u(2) by simp
        next
          case n: False
          then have "\<not> cached s ROOTDEV k c" for c using False same by (cases "c = b") auto
          then show ?thesis using refs_uncached [of s k] u(2) by simp
        qed
        ultimately show ?thesis using k by simp
      qed
    qed
  qed
qed

lemma bread_ok:
  assumes st: "bst s C R L" and "blk \<notin> L" "R blk + 1 \<noteq> 0" and "R blk \<noteq> 0 \<or> card {k. R k \<noteq> 0} < NBUF"
  shows "\<exists>b s'. bread ROOTDEV blk s = Done b s' \<and> bst s' C (R(blk := R blk + 1)) (insert blk L) \<and> hbuf s' b blk \<and>
    disk s' = disk s \<and> dwrites s' = dwrites s \<and> frame s s' \<and> (\<forall>c k. hbuf s c k \<longrightarrow> hbuf s' c k \<and> c \<noteq> b)"
proof -
  note can = bst_can_bread [OF assms]
  obtain b where t: "takes s ROOTDEV blk b" "\<not> sl_locked (b_lock (bufs s b))"
    "bread ROOTDEV blk s = Done b (bread_st s ROOTDEV blk b)"
    using bread_Done [OF bstD(1) [OF st] can] .
  let ?t = "bread_st s ROOTDEV blk b"
  have b: "b < NBUF" using t(1) by (simp add: takes_def)
  note inv = bread_inv [OF bstD(2) [OF st] t(1)]
  have "bio_ready ?t" using inv bstD(1) [OF st] by (auto simp: bio_ready_def no_proc_lock_def)
  moreover have "\<forall>k. cview ?t ROOTDEV k = C k"
    using bread_cview [OF bstD(2) [OF st] t(1)] bstD(3) [OF st] by simp
  moreover have "\<forall>c < NBUF. sl_locked (b_lock (bufs ?t c)) \<longleftrightarrow>
      b_dev (bufs ?t c) = ROOTDEV \<and> b_blockno (bufs ?t c) \<in> insert blk L"
  proof (intro allI impI)
    fix c assume c: "c < NBUF"
    show "sl_locked (b_lock (bufs ?t c)) \<longleftrightarrow> b_dev (bufs ?t c) = ROOTDEV \<and> b_blockno (bufs ?t c) \<in> insert blk L"
    proof (cases "c = b")
      case False
      have "\<not> (b_dev (bufs s c) = ROOTDEV \<and> b_blockno (bufs s c) = blk)"
      proof
        assume "b_dev (bufs s c) = ROOTDEV \<and> b_blockno (bufs s c) = blk"
        then have "cached s ROOTDEV blk c" using c by (simp add: cached_def)
        then have "c = b" using t(1) bstD(5) [OF st] unfolding takes_def uniq_bufs_def by (metis ROOTDEV_nonzero)
        then show False using False by simp
      qed
      then show ?thesis using False bstD(12) [OF st c] by auto
    qed simp
  qed
  moreover have "\<forall>k \<in> insert blk L. (R(blk := R blk + 1)) k \<noteq> 0"
    using bstD(13) [OF st] assms(3) by auto
  ultimately have "bst ?t C (R(blk := R blk + 1)) (insert blk L)"
    using takes_refs(1) [OF st t(1)] by (simp add: bst_def)
  moreover have "hbuf ?t b blk" using b by (simp add: hbuf_def cached_bread_st)
  moreover have "hbuf ?t c k \<and> c \<noteq> b" if "hbuf s c k" for c k
  proof -
    have "c \<noteq> b" using that t(2) by (auto simp: hbuf_def)
    then show ?thesis using that b by (auto simp: hbuf_def cached_bread_st)
  qed
  moreover have "frame s ?t"
    using b by (auto simp: frame_def bread_st_def buf_page_def my_pid_def)
  ultimately show ?thesis using t(3) by (intro exI [of "\<lambda>b. \<exists>s'. _ b s'" b] exI [of _ ?t]) auto
qed

lemma set_data_ok:
  assumes st: "bst s C R L" and h: "hbuf s b blk" and "length bs = BSIZE"
  shows "bst (set_data s b bs) (C(blk := bs)) R L" "hbuf s c k \<Longrightarrow> hbuf (set_data s b bs) c k"
    "frame s (set_data s b bs)" "put_obj (b_data (bufs s b)) (BufData bs) s = Done () (set_data s b bs)"
proof -
  note hb = hbuf_content [OF st h]
  have r: "b_refcnt (bufs s b) \<noteq> 0" using hb bstD(13) [OF st] by metis
  have "bio_inv (set_data s b bs)"
    using set_data_inv [OF bstD(2) [OF st] hb(4) r assms(3)] .
  moreover have "cview (set_data s b bs) ROOTDEV k = (C(blk := bs)) k" for k
    using cview_set_data [OF bstD(2) [OF st], of ROOTDEV blk b ROOTDEV bs k] h bstD(3) [OF st, of k]
    by (simp add: hbuf_def)
  moreover have "refs (set_data s b bs) = refs s" by (auto simp: refs_def fun_eq_iff split: option.split)
  ultimately show "bst (set_data s b bs) (C(blk := bs)) R L"
    using st by (simp add: bst_def bio_ready_def no_proc_lock_def)
  show "hbuf s c k \<Longrightarrow> hbuf (set_data s b bs) c k" by (simp add: hbuf_def)
  show "frame s (set_data s b bs)" using hb(4) by (auto simp: frame_def buf_page_def)
  show "put_obj (b_data (bufs s b)) (BufData bs) s = Done () (set_data s b bs)"
    using put_obj_Done [OF hb(1)] by (simp add: set_data_def)
qed

lemma bwrite_ok:
  assumes st: "bst s C R L" and h: "hbuf s b blk"
  shows "bwrite b s = Done () (put_disk s blk (C blk))" "bst (put_disk s blk (C blk)) C R L"
    "hbuf s c k \<Longrightarrow> hbuf (put_disk s blk (C blk)) c k" "frame s (put_disk s blk (C blk))"
proof -
  note hb = hbuf_content [OF st h]
  obtain p where p: "cur s = Some p" using bstD(1) [OF st] by (auto simp: bio_ready_def)
  show "bwrite b s = Done () (put_disk s blk (C blk))"
    using bwrite_eq [OF p bstD(10) [OF st] _ hb(1)] h hb(5) by (simp add: hbuf_def)
  note d = put_disk_inv [OF bstD(2) [OF st], of blk b]
  have "refs (put_disk s blk (C blk)) = refs s" by (auto simp: refs_def fun_eq_iff split: option.split)
  then show "bst (put_disk s blk (C blk)) C R L"
    using st d h hb(2) by (simp add: bst_def bio_ready_def no_proc_lock_def hbuf_def)
  show "hbuf s c k \<Longrightarrow> hbuf (put_disk s blk (C blk)) c k" by (simp add: hbuf_def)
  show "frame s (put_disk s blk (C blk))" by (simp add: frame_def)
qed


lemma refs_upd:
  assumes u: "uniq_bufs s" "uniq_bufs t" and "cached s ROOTDEV blk b"
    and c: "\<And>k c. cached t ROOTDEV k c = cached s ROOTDEV k c"
    and "\<And>c. c \<noteq> b \<Longrightarrow> b_refcnt (bufs t c) = b_refcnt (bufs s c)" and "b_refcnt (bufs t b) = n"
  shows "refs t = (refs s)(blk := n)"
proof
  fix k
  show "refs t k = ((refs s)(blk := n)) k"
  proof (cases "\<exists>c. cached s ROOTDEV k c")
    case True
    then obtain x where x: "cached s ROOTDEV k x" by blast
    then have "x = b \<longleftrightarrow> k = blk" using assms(3) u(1) unfolding uniq_bufs_def by (metis ROOTDEV_nonzero cached_def)
    then show ?thesis
      using refs_cached [OF u(1) x] refs_cached [OF u(2), of k x] x c assms(5,6) by auto
  next
    case False
    then have "refs s k = 0" "refs t k = 0" "k \<noteq> blk" using c assms(3) by (auto intro: refs_uncached)
    then show ?thesis by simp
  qed
qed

lemma brelse_ok:
  assumes st: "bst s C R L" and h: "hbuf s b blk" and cl: "R blk = 1 \<Longrightarrow> C blk = disk s blk"
  shows "\<exists>s'. brelse b s = Done () s' \<and> bst s' C (R(blk := R blk - 1)) (L - {blk}) \<and> disk s' = disk s \<and>
    dwrites s' = dwrites s \<and> frame s s' \<and> (\<forall>c k. k \<noteq> blk \<longrightarrow> hbuf s c k \<longrightarrow> hbuf s' c k)"
proof -
  note hb = hbuf_content [OF st h]
  obtain p where p: "cur s = Some p" using bstD(1) [OF st] by (auto simp: bio_ready_def)
  have ca: "cached s ROOTDEV blk b" and dev: "b_dev (bufs s b) = ROOTDEV" using h by (simp_all add: hbuf_def cached_def)
  let ?t = "brelse_st s b"
  note eqs = same_bufs_eqs [OF same_bufs_brelse, of s b]
  have inv: "bio_inv ?t"
    using brelse_inv [OF bstD(2) [OF st] hb(4) _ dev] cl hb by simp
  have "refs ?t = (refs s)(blk := R blk - 1)"
    using inv bstD(5) [OF st] ca hb(6) by (intro refs_upd [of s ?t blk b]) (auto simp: eqs bio_inv_def)
  moreover have "\<forall>c < NBUF. sl_locked (b_lock (bufs ?t c)) \<longleftrightarrow>
      b_dev (bufs ?t c) = ROOTDEV \<and> b_blockno (bufs ?t c) \<in> L - {blk}"
  proof (intro allI impI)
    fix c assume c: "c < NBUF"
    show "sl_locked (b_lock (bufs ?t c)) \<longleftrightarrow> b_dev (bufs ?t c) = ROOTDEV \<and> b_blockno (bufs ?t c) \<in> L - {blk}"
    proof (cases "c = b")
      case True
      then show ?thesis using hb(5) by (simp add: no_sleeplock_def)
    next
      case False
      then have "\<not> cached s ROOTDEV blk c" using ca bstD(5) [OF st] unfolding uniq_bufs_def by (metis ROOTDEV_nonzero)
      then show ?thesis using False bstD(12) [OF st c] c by (auto simp: cached_def)
    qed
  qed
  ultimately have "bst ?t C (R(blk := R blk - 1)) (L - {blk})"
    using st inv by (simp add: bst_def bio_ready_def no_proc_lock_def eqs)
  moreover have "frame s ?t" using p by (auto simp: frame_def buf_page_def my_pid_def)
  moreover have "brelse b s = Done () ?t"
    using brelse_eq [OF p bstD(9,10,11) [OF st] _ hb(4)] h st by (simp add: hbuf_def bstD)
  moreover have "hbuf ?t c k" if "k \<noteq> blk" "hbuf s c k" for c k
    using that hb(5) by (auto simp: hbuf_def eqs cached_def)
  ultimately show ?thesis by auto
qed

lemma set_ref_ok:
  assumes st: "bst s C R L" and ca: "cached s ROOTDEV blk b" and "n = 0 \<Longrightarrow> C blk = disk s blk \<and> blk \<notin> L"
    and v: "b_valid (bufs s b)"
  shows "bst (set_ref s b n) C (R(blk := n)) L" "frame s (set_ref s b n)" "hbuf s c k \<Longrightarrow> hbuf (set_ref s b n) c k"
proof -
  let ?t = "set_ref s b n"
  note eqs = same_bufs_eqs [OF same_bufs_set_ref, of s b n]
  have b: "b_dev (bufs s b) = ROOTDEV" "b_blockno (bufs s b) = blk" using ca by (simp_all add: cached_def)
  have "bcontent s b = C blk"
    using cview_cached [OF bstD(5) [OF st] _ ca] v bstD(3) [OF st, of blk] by simp
  then have inv: "bio_inv ?t"
    using set_ref_inv [OF bstD(2) [OF st] _ b(1)] assms(3) b(2) by simp
  have "refs ?t = (refs s)(blk := n)"
    using inv bstD(5) [OF st] ca by (intro refs_upd [of s ?t blk b]) (auto simp: eqs bio_inv_def)
  moreover have "\<forall>k \<in> L. (R(blk := n)) k \<noteq> 0" using assms(3) bstD(13) [OF st] by auto
  ultimately show "bst ?t C (R(blk := n)) L"
    using st inv by (simp add: bst_def bio_ready_def no_proc_lock_def eqs)
  show "frame s ?t" by (simp add: frame_def)
  show "hbuf s c k \<Longrightarrow> hbuf ?t c k" by (simp add: hbuf_def eqs)
qed

lemma bpin_ok:
  assumes st: "bst s C R L" and h: "hbuf s b blk" and "R blk + 1 \<noteq> 0"
  shows "\<exists>s'. bpin b s = Done () s' \<and> bst s' C (R(blk := R blk + 1)) L \<and> disk s' = disk s \<and>
    dwrites s' = dwrites s \<and> frame s s' \<and> (\<forall>c k. hbuf s c k \<longrightarrow> hbuf s' c k)"
proof -
  have c: "cached s ROOTDEV blk b" "b_valid (bufs s b)" using h by (simp_all add: hbuf_def)
  note r = hbuf_content(6) [OF st h]
  note ok = set_ref_ok [OF st c(1) _ c(2), of "R blk + 1"]
  show ?thesis
    using bpin_eq [OF bstD(9) [OF st], of b] r ok assms(3) by (auto intro!: exI [of _ "set_ref s b (R blk + 1)"])
qed

lemma bunpin_ok:
  assumes st: "bst s C R L" and h: "hbuf s b blk" and "1 < R blk"
  shows "\<exists>s'. bunpin b s = Done () s' \<and> bst s' C (R(blk := R blk - 1)) L \<and> disk s' = disk s \<and>
    dwrites s' = dwrites s \<and> frame s s' \<and> (\<forall>c k. hbuf s c k \<longrightarrow> hbuf s' c k)"
proof -
  have c: "cached s ROOTDEV blk b" "b_valid (bufs s b)" using h by (simp_all add: hbuf_def)
  note r = hbuf_content(6) [OF st h]
  have "R blk - 1 \<noteq> 0" using assms(3) by auto
  note ok = set_ref_ok [OF st c(1) _ c(2), of "R blk - 1"]
  show ?thesis
    using bunpin_eq [OF bstD(9) [OF st], of b] r ok \<open>R blk - 1 \<noteq> 0\<close>
    by (auto intro!: exI [of _ "set_ref s b (R blk - 1)"])
qed

end
