(* ===== verification/Log.thy ===== *)
theory Log
  imports Bcache
begin

text \<open>
  The write-ahead log, \<open>log.c\<close>.

  The header block is read and written at byte level: \<open>n\<close> is the little-endian word at offset 0 of the
  block and \<open>block[i]\<close> the one at offset \<open>4 + 4 * i\<close>. \<open>begin_op\<close> sleeps while the log is busy;
  \<open>begin_op_resume\<close> is the code from the return of \<open>sleep\<close> on.

  Every write to the disk is recorded in \<open>dwrites\<close> in the order it is made. A crash of the machine
  leaves the disk as some prefix of these writes made it.
\<close>

section \<open>Operations\<close>

definition tx_active :: "bool K" where
  [kdefs]: "tx_active =
    bnd this_proc (\<lambda>p.
    bnd (getk (\<lambda>s. p_tx (procs s p))) (\<lambda>tx.
    if tx = 0 then ret False else bnd (get_tx tx) (\<lambda>t.
      ret (t_status t = TX_ACTIVE))))"

definition get_data :: "nat \<Rightarrow> u8 list K" where
  [kdefs]: "get_data b =
    bnd (get_buf b) (\<lambda>x.
    get_bdata (b_data x))"

definition put_data :: "nat \<Rightarrow> u8 list \<Rightarrow> unit K" where
  [kdefs]: "put_data b bs =
    bnd (get_buf b) (\<lambda>x.
    put_obj (b_data x) (BufData bs))"

definition head_n :: "u8 list \<Rightarrow> int" where
  "head_n bs = sint (of_le (bslice 0 4 bs) :: u32)"

definition head_block :: "u8 list \<Rightarrow> nat \<Rightarrow> u32" where
  "head_block bs i = of_le (bslice (4 + 4 * i) 4 bs)"

definition install_one :: "bool \<Rightarrow> nat \<Rightarrow> unit K" where
  "install_one recovering tail =
    bnd (getk klog) (\<lambda>lg.
    bnd (nth_k (lh_block lg) tail) (\<lambda>dst.
    sq (whenk recovering (printk (''recovering tail %d dst %d'' @ NL) [PInt (of_nat tail), PInt (scast dst)]))
    (bnd (bread (lg_dev lg) (lg_start lg + of_nat tail + 1)) (\<lambda>lbuf.
    bnd (bread (lg_dev lg) dst) (\<lambda>dbuf.
    bnd (get_data lbuf) (\<lambda>bs.
    sq (put_data dbuf bs)
    (sq (bwrite dbuf)
    (sq (whenk (\<not> recovering) (bunpin dbuf))
    (sq (brelse lbuf)
    (brelse dbuf))))))))))"

definition install_trans :: "bool \<Rightarrow> unit K" where
  "install_trans recovering =
    bnd (getk (\<lambda>s. lh_n (klog s))) (\<lambda>n.
    for_each [0..<nat n] (install_one recovering))"

definition read_head :: "unit K" where
  "read_head =
    bnd (getk klog) (\<lambda>lg.
    bnd (bread (lg_dev lg) (lg_start lg)) (\<lambda>b.
    bnd (get_data b) (\<lambda>bs.
    sq (upd_log (lh_n_update (\<lambda>_. head_n bs)))
    (sq (for_each [0..<nat (head_n bs)] (\<lambda>i. sq (needs (i < LOGBLOCKS))
      (upd_log (lh_block_update (\<lambda>l. l[i := head_block bs i])))))
    (brelse b)))))"

definition write_head :: "unit K" where
  "write_head =
    bnd (getk klog) (\<lambda>lg.
    bnd (bread (lg_dev lg) (lg_start lg)) (\<lambda>b.
    bnd (get_data b) (\<lambda>bs.
    sq (put_data b (splice_at 0 (to_le 4 (word_of_int (lh_n lg) :: u32)) bs))
    (sq (for_each [0..<nat (lh_n lg)] (\<lambda>i. bnd (nth_k (lh_block lg) i) (\<lambda>blk.
      bnd (get_data b) (\<lambda>bs.
      put_data b (splice_at (4 + 4 * i) (to_le 4 blk) bs)))))
    (sq (bwrite b)
    (brelse b))))))"

definition recover_from_log :: "unit K" where
  "recover_from_log =
    sq read_head
    (sq (install_trans True)
    (sq (upd_log (lh_n_update (\<lambda>_. 0)))
    write_head))"

definition LOGHEADER_SIZE :: nat where
  "LOGHEADER_SIZE = 4 + 4 * LOGBLOCKS"

definition initlog :: "u32 \<Rightarrow> superblock \<Rightarrow> unit K" where
  "initlog dev sblk =
    sq (whenk (BSIZE \<le> LOGHEADER_SIZE) (panic ''initlog: too big logheader''))
    (sq (initlock LogLock)
    (sq (upd_log (lg_start_update (\<lambda>_. sb_logstart sblk)))
    (sq (upd_log (lg_dev_update (\<lambda>_. dev)))
    recover_from_log)))"

text \<open>The body of the loop of \<open>begin_op\<close>, with the log's lock held.\<close>

definition begin_try :: "unit K" where
  [kdefs]: "begin_try =
    bnd (getk klog) (\<lambda>lg.
    if lg_committing lg then sleep ChLog LogLock
      else if lh_n lg + (lg_outstanding lg + 1) * int MAXOPBLOCKS > int LOGBLOCKS then sleep ChLog LogLock
      else sq (upd_log (lg_outstanding_update (\<lambda>n. n + 1)))
        (release LogLock))"

definition begin_op :: "unit K" where
  "begin_op =
    bnd tx_active (\<lambda>a.
    if a then ret () else
    sq (acquire LogLock)
    begin_try)"

definition begin_op_resume :: "unit K" where
  "begin_op_resume =
    sq (sleep_resume LogLock)
    begin_try"

definition write_log_one :: "nat \<Rightarrow> unit K" where
  "write_log_one tail =
    bnd (getk klog) (\<lambda>lg.
    bnd (bread (lg_dev lg) (lg_start lg + of_nat tail + 1)) (\<lambda>to.
    bnd (nth_k (lh_block lg) tail) (\<lambda>src.
    bnd (bread (lg_dev lg) src) (\<lambda>from.
    bnd (get_data from) (\<lambda>bs.
    sq (put_data to bs)
    (sq (bwrite to)
    (sq (brelse from)
    (brelse to))))))))"

definition write_log :: "unit K" where
  "write_log =
    bnd (getk (\<lambda>s. lh_n (klog s))) (\<lambda>n.
    for_each [0..<nat n] write_log_one)"

definition commit :: "unit K" where
  "commit =
    bnd (getk (\<lambda>s. lh_n (klog s))) (\<lambda>n.
    whenk (n > 0) (sq write_log
      (sq write_head
      (sq (install_trans False)
      (sq (upd_log (lh_n_update (\<lambda>_. 0)))
      write_head)))))"

definition end_op :: "unit K" where
  "end_op =
    bnd tx_active (\<lambda>a.
    if a then ret () else
    sq (acquire LogLock)
    (sq (upd_log (lg_outstanding_update (\<lambda>n. n - 1)))
    (bnd (getk klog) (\<lambda>lg.
    if lg_committing lg then panic ''log.committing'' else
    bnd (if lg_outstanding lg = 0
      then sq (upd_log (lg_committing_update (\<lambda>_. True))) (ret True)
      else sq (wakeup ChLog) (ret False)) (\<lambda>do_commit.
    sq (release LogLock)
    (whenk do_commit (sq commit
      (sq (acquire LogLock)
      (sq (upd_log (lg_committing_update (\<lambda>_. False)))
      (sq (wakeup ChLog)
      (release LogLock)))))))))))"

text \<open>The position in the log that \<open>log_write\<close> uses for a block: the first entry for the same
  block, or the end.\<close>

fun log_slot :: "u32 list \<Rightarrow> nat \<Rightarrow> nat \<Rightarrow> u32 \<Rightarrow> nat" where
  "log_slot blks i 0 blk = i"
| "log_slot blks i (Suc k) blk = (if blks ! i = blk then i else log_slot blks (Suc i) k blk)"

definition log_write :: "nat \<Rightarrow> unit K" where
  "log_write b =
    bnd tx_active (\<lambda>a.
    if a then ret () else
    sq (acquire LogLock)
    (bnd (getk klog) (\<lambda>lg.
    if int LOGBLOCKS \<le> lh_n lg then panic ''too big a transaction'' else
    if lg_outstanding lg < 1 then panic ''log_write outside of trans'' else
    bnd (get_buf b) (\<lambda>x.
    (let i = log_slot (lh_block lg) 0 (nat (lh_n lg)) (b_blockno x) in
    sq (upd_log (lh_block_update (\<lambda>l. l[i := b_blockno x])))
    (sq (whenk (int i = lh_n lg) (sq (bpin b)
      (upd_log (lh_n_update (\<lambda>n. n + 1)))))
    (release LogLock)))))))"

section \<open>The header block\<close>

definition put_head :: "int \<Rightarrow> u32 list \<Rightarrow> u8 list \<Rightarrow> u8 list" where
  "put_head n blks bs = fold (\<lambda>i bs. splice_at (4 + 4 * i) (to_le 4 (blks ! i)) bs) [0..<nat n]
     (splice_at 0 (to_le 4 (word_of_int n :: u32)) bs)"

lemma put_head_loop:
  assumes "length bs = BSIZE" "k \<le> LOGBLOCKS"
  shows "length (fold (\<lambda>i bs. splice_at (4 + 4 * i) (to_le 4 (blks ! i)) bs) [0..<k] bs) = BSIZE \<and>
    bslice 0 4 (fold (\<lambda>i bs. splice_at (4 + 4 * i) (to_le 4 (blks ! i)) bs) [0..<k] bs) = bslice 0 4 bs \<and>
    (\<forall>i < k. bslice (4 + 4 * i) 4 (fold (\<lambda>i bs. splice_at (4 + 4 * i) (to_le 4 (blks ! i)) bs) [0..<k] bs) =
      to_le 4 (blks ! i :: u32))"
  using assms(2)
proof (induction k)
  case 0
  then show ?case using assms(1) by simp
next
  case (Suc k)
  then show ?case
    by (auto simp: less_Suc_eq bslice_splice_same bslice_splice_other)
qed

lemma put_head_ok:
  assumes "length bs = BSIZE" "0 \<le> n" "n \<le> int LOGBLOCKS"
  shows "length (put_head n blks bs) = BSIZE" "head_n (put_head n blks bs) = n"
    "i < nat n \<Longrightarrow> head_block (put_head n blks bs) i = blks ! i"
proof -
  let ?b = "splice_at 0 (to_le 4 (word_of_int n :: u32)) bs"
  have l: "length ?b = BSIZE" "nat n \<le> LOGBLOCKS" using assms by simp_all
  note loop = put_head_loop [OF l, of blks]
  show "length (put_head n blks bs) = BSIZE" using loop by (simp add: put_head_def)
  have "bslice 0 4 ?b = to_le 4 (word_of_int n :: u32)"
    using assms(1) bslice_splice_same [of 0 "to_le 4 (word_of_int n :: u32)" bs] by simp
  then show "head_n (put_head n blks bs) = n"
    using loop assms(2,3) by (simp add: put_head_def head_n_def int_word_sint)
  show "i < nat n \<Longrightarrow> head_block (put_head n blks bs) i = blks ! i"
    using loop by (simp add: put_head_def head_block_def)
qed

section \<open>Sequences of writes\<close>

definition apply_writes :: "(u32 \<times> u8 list) list \<Rightarrow> (u32 \<Rightarrow> u8 list) \<Rightarrow> u32 \<Rightarrow> u8 list" where
  "apply_writes ws D = fold (\<lambda>(b, bs) D. D(b := bs)) ws D"

lemma apply_writes_simps [simp]:
  "apply_writes [] D = D" "apply_writes (w # ws) D = apply_writes ws (D(fst w := snd w))"
  "apply_writes (ws @ vs) D = apply_writes vs (apply_writes ws D)"
  by (simp_all add: apply_writes_def split: prod.split)

lemma apply_writes_notin: "b \<notin> fst ` set ws \<Longrightarrow> apply_writes ws D b = D b"
  by (induction ws arbitrary: D) auto

lemma apply_writes_map:
  "distinct (map f xs) \<Longrightarrow> x \<in> set xs \<Longrightarrow> apply_writes (map (\<lambda>x. (f x, g x)) xs) D (f x) = g x"
  by (induction xs arbitrary: D) (auto simp: apply_writes_notin image_image)

text \<open>\<open>writes m ws R' s\<close>: from \<open>s\<close>, \<open>m\<close> writes \<open>ws\<close> to the disk and to the cached content alike,
  and leaves the reference counts \<open>R'\<close> and no buffer locked.\<close>

definition writes :: "unit K \<Rightarrow> (u32 \<times> u8 list) list \<Rightarrow> (u32 \<Rightarrow> u32) \<Rightarrow> kstate \<Rightarrow> (kstate \<Rightarrow> bool) \<Rightarrow> bool" where
  "writes m ws R' s P \<longleftrightarrow> (\<exists>s'. m s = Done () s' \<and>
     bst s' (apply_writes ws (cview s ROOTDEV)) R' {} \<and> disk s' = apply_writes ws (disk s) \<and>
     dwrites s' = dwrites s @ ws \<and> P s')"

lemma bst_cview: "bst s C R L \<Longrightarrow> cview s ROOTDEV = C"
  by (auto simp: bst_def)

lemma writes_sq:
  assumes "writes m ws R1 s P" and "\<And>s1. P s1 \<Longrightarrow> cview s1 ROOTDEV = apply_writes ws (cview s ROOTDEV) \<Longrightarrow>
      bst s1 (cview s1 ROOTDEV) R1 {} \<Longrightarrow> disk s1 = apply_writes ws (disk s) \<Longrightarrow> writes n vs R2 s1 Q"
  shows "writes (sq m n) (ws @ vs) R2 s Q"
proof -
  obtain s1 where s1: "m s = Done () s1" "bst s1 (apply_writes ws (cview s ROOTDEV)) R1 {}"
    "disk s1 = apply_writes ws (disk s)" "dwrites s1 = dwrites s @ ws" "P s1"
    using assms(1) by (auto simp: writes_def)
  have "writes n vs R2 s1 Q"
    using assms(2) [OF s1(5)] s1(2,3) bst_cview [OF s1(2)] by simp
  then show ?thesis
    using s1 bst_cview [OF s1(2)] by (auto simp: writes_def)
qed

lemma sq_ret_right: "sq m (ret ()) = m"
  by (rule ext) (simp add: sq_def bnd_def ret_def split: outcome.split)

lemma writes_for_each:
  assumes "I 0 (R 0) s" and "bst s (cview s ROOTDEV) (R 0) {}"
    and "\<And>i t. i < n \<Longrightarrow> I i (R i) t \<Longrightarrow> bst t (cview t ROOTDEV) (R i) {} \<Longrightarrow>
       cview t ROOTDEV = apply_writes (map w [0..<i]) (cview s ROOTDEV) \<Longrightarrow>
       writes (body i) [w i] (R (Suc i)) t (I (Suc i) (R (Suc i)))"
  shows "writes (for_each [0..<n] body) (map w [0..<n]) (R n) s (I n (R n))"
  using assms(3)
proof (induction n)
  case 0
  then show ?case using assms(1,2) by (simp add: writes_def ret_def)
next
  case (Suc n)
  have "writes (for_each [0..<n] body) (map w [0..<n]) (R n) s (I n (R n))"
    by (rule Suc.IH) (use Suc.prems in auto)
  then have "writes (sq (for_each [0..<n] body) (body n)) (map w [0..<n] @ [w n]) (R (Suc n)) s (I (Suc n) (R (Suc n)))"
    by (rule writes_sq) (use Suc.prems in auto)
  then show ?case by (simp add: for_each_append sq_ret_right)
qed

section \<open>The steps of a commit\<close>

definition logblk :: "u32 \<Rightarrow> nat \<Rightarrow> u32" where
  "logblk st i = st + of_nat i + 1"

definition log_region :: "u32 \<Rightarrow> u32 set" where
  "log_region st = insert st (logblk st ` {..<LOGBLOCKS})"

text \<open>The blocks of a log transaction: not too many, and all outside of the log itself.\<close>

definition log_fits :: "u32 \<Rightarrow> u32 list \<Rightarrow> bool" where
  "log_fits st blks \<longleftrightarrow> unat st + LOGBLOCKS < 2 ^ 32 \<and> length blks \<le> LOGBLOCKS \<and> set blks \<inter> log_region st = {}"

lemma unat_logblk: "unat st + LOGBLOCKS < 2 ^ 32 \<Longrightarrow> i < LOGBLOCKS \<Longrightarrow> unat (logblk st i) = unat st + i + 1"
  by (simp add: logblk_def unat_word_ariths unat_of_nat)

lemma logblk_inj:
  "unat st + LOGBLOCKS < 2 ^ 32 \<Longrightarrow> i < LOGBLOCKS \<Longrightarrow> j < LOGBLOCKS \<Longrightarrow> logblk st i = logblk st j \<longleftrightarrow> i = j"
  using unat_logblk [of st i] unat_logblk [of st j] by (metis add_left_cancel add_right_cancel)

lemma logblk_neq_start: "unat st + LOGBLOCKS < 2 ^ 32 \<Longrightarrow> i < LOGBLOCKS \<Longrightarrow> logblk st i \<noteq> st"
  using unat_logblk [of st i] by auto

lemma get_data_hbuf: "bst s C R L \<Longrightarrow> hbuf s b blk \<Longrightarrow> get_data b s = Done (C blk) s"
  using hbuf_content [of s C R L b blk] by (simp add: get_data_def bnd_def get_buf_def getk_def get_bdata_def)

lemma put_data_hbuf:
  "bst s C R L \<Longrightarrow> hbuf s b blk \<Longrightarrow> length bs = BSIZE \<Longrightarrow> put_data b bs s = Done () (set_data s b bs)"
  using set_data_ok [of s C R L b blk bs] by (simp add: put_data_def bnd_def get_buf_def getk_def)

lemma fun_upd_back: "(f(a := x))(a := f a) = f"
  by simp

lemma write_log_one_ok:
  assumes st: "bst s C R {}" and lg: "lg_dev (klog s) = ROOTDEV" "i < length (lh_block (klog s))"
    and dst: "dst = logblk (lg_start (klog s)) i" and src: "src = lh_block (klog s) ! i" "R src \<noteq> 0"
    and ne: "dst \<noteq> src" and R: "R dst + 1 \<noteq> 0" "R src + 1 \<noteq> 0" and room: "R dst \<noteq> 0 \<or> card {k. R k \<noteq> 0} < NBUF"
  shows "writes (write_log_one i) [(dst, C src)] R s (frame s)"
proof -
  obtain to s1 where 1: "bread ROOTDEV dst s = Done to s1" "bst s1 C (R(dst := R dst + 1)) {dst}" "hbuf s1 to dst"
    "disk s1 = disk s" "dwrites s1 = dwrites s" "frame s s1"
    using bread_ok [OF st _ R(1) room(1)] by auto
  obtain fr s2 where 2: "bread ROOTDEV src s1 = Done fr s2" "bst s2 C (R(dst := R dst + 1, src := R src + 1)) {src, dst}"
    "hbuf s2 fr src" "disk s2 = disk s1" "dwrites s2 = dwrites s1" "frame s1 s2" "hbuf s2 to dst"
    using bread_ok [OF 1(2), of src] ne R(2) src(2) 1(3) by auto
  have len: "length (C src) = BSIZE" using length_C [OF st] .
  let ?s3 = "set_data s2 to (C src)"
  note 3 = set_data_ok [OF 2(2,7) len]
  note 4 = bwrite_ok [OF 3(1) 3(2) [OF 2(7)], simplified]
  let ?s4 = "put_disk ?s3 dst (C src)"
  obtain s5 where 5: "brelse fr ?s4 = Done () s5" "bst s5 (C(dst := C src)) (R(dst := R dst + 1)) {dst}"
    "disk s5 = disk ?s4" "dwrites s5 = dwrites ?s4" "frame ?s4 s5" "hbuf s5 to dst"
    using brelse_ok [OF 4(2) 4(3) [OF 3(2) [OF 2(3)]]] src(2) ne 4(3) [OF 3(2) [OF 2(7)]]
    by (auto simp: insert_Diff_if fun_upd_idem)
  obtain s6 where 6: "brelse to s5 = Done () s6" "bst s6 (C(dst := C src)) R {}"
    "disk s6 = disk s5" "dwrites s6 = dwrites s5" "frame s5 s6"
    using brelse_ok [OF 5(2,6)] 5(3) by auto
  have "write_log_one i s = Done () s6"
    using 1(1) 2(1) get_data_hbuf [OF 2(2,3)] put_data_hbuf [OF 2(2,7) len] 4(1) 5(1) 6(1) lg
    by (simp add: write_log_one_def bnd_def sq_def getk_def nth_k_def ret_def dst [unfolded logblk_def] src(1))
  moreover have "frame s s6"
    using 1(6) 2(6) 3(3) 4(4) 5(5) 6(5) by (meson frame_trans)
  ultimately show ?thesis
    using 1(4,5) 2(4,5) 5(3,4) 6(2,3,4) bst_cview [OF st] by (simp add: writes_def)
qed

lemma bst_cong:
  assumes "bst s C R L" and e: "bufs t = bufs s" "heap t = heap s" "disk t = disk s" "cur t = cur s" "held t = held s"
    "my_pid t = my_pid s"
  shows "bst t C R L" and "hbuf t b k = hbuf s b k"
proof -
  have sb: "same_bufs s t" using e by (simp add: same_bufs_def)
  note eqs = same_bufs_eqs [OF sb]
  have c: "cached t = cached s" by (intro ext) (rule eqs)
  have "bio_inv t"
    using assms(1) e bio_inv_refcnt [OF bstD(2) [OF assms(1)] sb]
    by (auto simp: bst_def bio_ready_def bio_inv_def one_dev_def)
  moreover have "refs t = refs s" by (auto simp: refs_def fun_eq_iff c e split: option.split)
  ultimately show "bst t C R L"
    using assms(1) e by (simp add: bst_def bio_ready_def no_proc_lock_def eqs)
  show "hbuf t b k = hbuf s b k" using e c by (simp add: hbuf_def)
qed

lemma bst_conout: "bst s C R L \<Longrightarrow> bst (s\<lparr>conout := x\<rparr>) C R L"
  by (rule bst_cong) (auto simp: my_pid_def)

lemma bst_klog: "bst s C R L \<Longrightarrow> bst (s\<lparr>klog := x\<rparr>) C R L"
  by (rule bst_cong) (auto simp: my_pid_def)

lemma frame_conout [simp]: "frame s (s\<lparr>conout := x\<rparr>)" "frame (s\<lparr>conout := x\<rparr>) t = frame s t"
  by (auto simp: frame_def buf_page_def my_pid_def)

lemma word_gt_1: "(x :: u32) \<noteq> 0 \<Longrightarrow> x + 1 \<noteq> 0 \<Longrightarrow> 1 < x + 1"
  using unatSuc [of x] unat_gt_0 [of x] by (simp add: word_less_nat_alt add.commute)

lemma install_one_ok:
  assumes st: "bst s C R {}" and lg: "lg_dev (klog s) = ROOTDEV" "i < length (lh_block (klog s))"
    and src: "src = logblk (lg_start (klog s)) i" "C src = disk s src" and dst: "dst = lh_block (klog s) ! i" "rec \<or> R dst \<noteq> 0"
    and ne: "dst \<noteq> src" and R: "R src + 1 \<noteq> 0" "R dst + 1 \<noteq> 0" and room: "R src \<noteq> 0 \<or> card {k. R k \<noteq> 0} < NBUF"
    "R dst \<noteq> 0 \<or> card {k. (R(src := R src + 1)) k \<noteq> 0} < NBUF"
  shows "writes (install_one rec i) [(dst, C src)] (if rec then R else R(dst := R dst - 1)) s (frame s)"
proof -
  let ?s = "if rec then s\<lparr>conout := conout s @ [(''recovering tail %d dst %d'' @ NL, [PInt (of_nat i), PInt (scast dst)])]\<rparr> else s"
  have st0: "bst ?s C R {}" "frame s ?s" "disk ?s = disk s" "dwrites ?s = dwrites s" using st bst_conout by auto
  obtain lb s1 where 1: "bread ROOTDEV src ?s = Done lb s1" "bst s1 C (R(src := R src + 1)) {src}" "hbuf s1 lb src"
    "disk s1 = disk s" "dwrites s1 = dwrites s" "frame ?s s1"
    using bread_ok [OF st0(1) _ R(1) room(1)] st0(3,4) by auto
  obtain db s2 where 2: "bread ROOTDEV dst s1 = Done db s2" "bst s2 C (R(src := R src + 1, dst := R dst + 1)) {dst, src}"
    "hbuf s2 db dst" "disk s2 = disk s1" "dwrites s2 = dwrites s1" "frame s1 s2" "hbuf s2 lb src"
    using bread_ok [OF 1(2), of dst] ne R(2) room(2) 1(3) by auto
  have len: "length (C src) = BSIZE" using length_C [OF st] .
  let ?s3 = "set_data s2 db (C src)"
  note 3 = set_data_ok [OF 2(2,3) len]
  note 4 = bwrite_ok [OF 3(1) 3(2) [OF 2(3)], simplified]
  let ?s4 = "put_disk ?s3 dst (C src)"
  let ?Rd = "if rec then R dst + 1 else R dst"
  have h4: "hbuf ?s4 db dst" "hbuf ?s4 lb src" using 4(3) 3(2) 2(3,7) by blast+
  have gt: "1 < R dst + 1" if "\<not> rec"
    using that dst(2) R(2) word_gt_1 by blast
  obtain s5 where 5: "whenk (\<not> rec) (bunpin db) ?s4 = Done () s5"
    "bst s5 (C(dst := C src)) (R(src := R src + 1, dst := ?Rd)) {dst, src}"
    "disk s5 = disk ?s4" "dwrites s5 = dwrites ?s4" "frame ?s4 s5" "hbuf s5 db dst" "hbuf s5 lb src"
  proof (cases rec)
    case True
    then show ?thesis using that [of ?s4] 4(2) h4 by (simp add: whenk_def ret_def)
  next
    case False
    then show ?thesis using that bunpin_ok [OF 4(2) h4(1)] gt h4 by (auto simp: whenk_def)
  qed
  obtain s6 where 6: "brelse lb s5 = Done () s6" "bst s6 (C(dst := C src)) (R(dst := ?Rd)) {dst}"
    "disk s6 = disk s5" "dwrites s6 = dwrites s5" "frame s5 s6" "hbuf s6 db dst"
    using brelse_ok [OF 5(2,7)] ne src(2) 1(4) 2(4) 5(3,6) by (auto simp: insert_Diff_if fun_upd_twist)
  obtain s7 where 7: "brelse db s6 = Done () s7" "bst s7 (C(dst := C src)) (R(dst := ?Rd - 1)) {}"
    "disk s7 = disk s6" "dwrites s7 = dwrites s6" "frame s6 s7"
    using brelse_ok [OF 6(2,6)] 6(3) 5(3) by auto
  have "install_one rec i s = Done () s7"
    using 1(1) 2(1) get_data_hbuf [OF 2(2,7)] put_data_hbuf [OF 2(2,3) len] 4(1) 5(1) 6(1) 7(1) lg
    by (auto simp: install_one_def bnd_def sq_def getk_def nth_k_def ret_def src(1) [unfolded logblk_def] dst(1)
        whenk_def printk_def modk_def split: if_splits)
  moreover have "frame s s7"
    using st0(2) 1(6) 2(6) 3(3) 4(4) 5(5) 6(5) 7(5) by (meson frame_trans)
  ultimately show ?thesis
    using 1(4,5) 2(4,5) 5(3,4) 6(3,4) 7(2,3,4) bst_cview [OF st]
    by (cases rec) (simp_all add: writes_def fun_upd_idem)
qed

section \<open>The header on the disk\<close>

lemma set_data_twice [simp]: "set_data (set_data s b xs) b ys = set_data s b ys"
  by (simp add: set_data_def)

lemma write_head_loop:
  assumes st: "bst s C R L" and h: "hbuf s b blk" and len: "length bs = BSIZE"
    and k: "k \<le> LOGBLOCKS" "k \<le> length (blks :: u32 list)"
  shows "for_each [0..<k] (\<lambda>i. bnd (nth_k blks i) (\<lambda>x. bnd (get_data b) (\<lambda>bs.
      put_data b (splice_at (4 + 4 * i) (to_le 4 x) bs)))) (set_data s b bs) =
    Done () (set_data s b (fold (\<lambda>i bs. splice_at (4 + 4 * i) (to_le 4 (blks ! i)) bs) [0..<k] bs))"
  using k
proof (induction k)
  case 0
  then show ?case by (simp add: ret_def)
next
  case (Suc k)
  let ?h = "fold (\<lambda>i bs. splice_at (4 + 4 * i) (to_le 4 (blks ! i)) bs) [0..<k] bs"
  let ?s = "set_data s b ?h"
  have l: "length ?h = BSIZE" using put_head_loop [OF len, of k blks] Suc.prems by simp
  note ok = set_data_ok [OF st h l]
  have g: "get_data b ?s = Done ?h ?s" using get_data_hbuf [OF ok(1) ok(2) [OF h]] by simp
  have p: "put_data b (splice_at (4 + 4 * k) (to_le 4 (blks ! k)) ?h) ?s =
      Done () (set_data s b (splice_at (4 + 4 * k) (to_le 4 (blks ! k)) ?h))"
    using put_data_hbuf [OF ok(1) ok(2) [OF h]] l Suc.prems by simp
  show ?case
    using Suc g p by (simp add: for_each_append sq_ret_right) (simp add: sq_def bnd_def nth_k_def ret_def)
qed

lemma write_head_ok:
  assumes st: "bst s C R {}" and lg: "lg_dev (klog s) = ROOTDEV" "blk = lg_start (klog s)"
    and n: "0 \<le> lh_n (klog s)" "lh_n (klog s) \<le> int LOGBLOCKS" "nat (lh_n (klog s)) \<le> length (lh_block (klog s))"
    and R: "R blk + 1 \<noteq> 0" and room: "R blk \<noteq> 0 \<or> card {k. R k \<noteq> 0} < NBUF"
  shows "writes write_head [(blk, put_head (lh_n (klog s)) (lh_block (klog s)) (C blk))] R s (frame s)"
proof -
  let ?lg = "klog s"
  obtain b s1 where 1: "bread ROOTDEV blk s = Done b s1" "bst s1 C (R(blk := R blk + 1)) {blk}" "hbuf s1 b blk"
    "disk s1 = disk s" "dwrites s1 = dwrites s" "frame s s1"
    using bread_ok [OF st _ R room] by auto
  have len: "length (C blk) = BSIZE" using length_C [OF st] .
  let ?init = "splice_at 0 (to_le 4 (word_of_int (lh_n ?lg) :: u32)) (C blk)"
  let ?h = "put_head (lh_n ?lg) (lh_block ?lg) (C blk)"
  have h0: "length ?init = BSIZE" using len by simp
  have hl: "length ?h = BSIZE" using put_head_ok(1) len n(1,2) by blast
  note 2 = set_data_ok [OF 1(2,3) h0]
  have loop: "for_each [0..<nat (lh_n ?lg)] (\<lambda>i. bnd (nth_k (lh_block ?lg) i) (\<lambda>x. bnd (get_data b) (\<lambda>bs.
      put_data b (splice_at (4 + 4 * i) (to_le 4 x) bs)))) (set_data s1 b ?init) = Done () (set_data s1 b ?h)"
    unfolding put_head_def using n by (intro write_head_loop [OF 1(2,3) h0]) auto
  note 3 = set_data_ok [OF 1(2,3) hl]
  note 4 = bwrite_ok [OF 3(1) 3(2) [OF 1(3)], simplified]
  let ?s4 = "put_disk (set_data s1 b ?h) blk ?h"
  have h4: "hbuf ?s4 b blk" using 4(3) 3(2) 1(3) by blast
  obtain s5 where 5: "brelse b ?s4 = Done () s5" "bst s5 (C(blk := ?h)) R {}" "disk s5 = disk ?s4"
    "dwrites s5 = dwrites ?s4" "frame ?s4 s5"
    using brelse_ok [OF 4(2) h4] by auto
  have "write_head s = Done () s5"
    using 1(1) get_data_hbuf [OF 1(2,3)] put_data_hbuf [OF 1(2,3) h0] loop 4(1) 5(1) lg
    by (simp add: write_head_def bnd_def sq_def getk_def)
  moreover have "frame s s5" using 1(6) 3(3) 4(4) 5(5) by (meson frame_trans)
  ultimately show ?thesis
    using 1(4,5) 5(2,3,4) bst_cview [OF st] by (simp add: writes_def)
qed

lemma read_head_loop:
  assumes "k \<le> LOGBLOCKS" "length (lh_block (klog s)) = LOGBLOCKS"
  shows "\<exists>bl. for_each [0..<k] (\<lambda>i. sq (needs (i < LOGBLOCKS)) (upd_log (lh_block_update (\<lambda>l. l[i := f i])))) s =
    Done () (s\<lparr>klog := (klog s)\<lparr>lh_block := bl\<rparr>\<rparr>) \<and> length bl = LOGBLOCKS \<and> (\<forall>i < k. bl ! i = f i)"
  using assms(1)
proof (induction k)
  case 0
  then show ?case using assms(2) by (intro exI [of _ "lh_block (klog s)"]) (simp add: ret_def)
next
  case (Suc k)
  then obtain bl where bl: "for_each [0..<k] (\<lambda>i. sq (needs (i < LOGBLOCKS)) (upd_log (lh_block_update (\<lambda>l. l[i := f i])))) s =
    Done () (s\<lparr>klog := (klog s)\<lparr>lh_block := bl\<rparr>\<rparr>)" "length bl = LOGBLOCKS" "\<forall>i < k. bl ! i = f i"
    by auto
  then show ?case
    using Suc.prems
    by (intro exI [of _ "bl[k := f k]"])
       (auto simp: for_each_append sq_ret_right less_Suc_eq sq_def bnd_def needs_def upd_log_def modk_def ret_def)
qed

lemma read_head_ok:
  assumes st: "bst s C R {}" and lg: "lg_dev (klog s) = ROOTDEV" "blk = lg_start (klog s)"
    and n: "head_n (C blk) = n" "0 \<le> n" "n \<le> int LOGBLOCKS" "length (lh_block (klog s)) = LOGBLOCKS"
    and R: "R blk + 1 \<noteq> 0" and room: "R blk \<noteq> 0 \<or> card {k. R k \<noteq> 0} < NBUF" and cl: "R blk = 0 \<Longrightarrow> C blk = disk s blk"
  shows "\<exists>s' bl. read_head s = Done () s' \<and> bst s' C R {} \<and> disk s' = disk s \<and> dwrites s' = dwrites s \<and>
    klog s' = (klog s)\<lparr>lh_n := n, lh_block := bl\<rparr> \<and> length bl = LOGBLOCKS \<and>
    (\<forall>i < nat n. bl ! i = head_block (C blk) i) \<and> held s' = held s \<and> cur s' = cur s"
proof -
  obtain b s1 where 1: "bread ROOTDEV blk s = Done b s1" "bst s1 C (R(blk := R blk + 1)) {blk}" "hbuf s1 b blk"
    "disk s1 = disk s" "dwrites s1 = dwrites s" "frame s s1"
    using bread_ok [OF st _ R room] by auto
  let ?s2 = "s1\<lparr>klog := (klog s1)\<lparr>lh_n := n\<rparr>\<rparr>"
  have k1: "klog s1 = klog s" using frameD(4) [OF 1(6)] .
  obtain bl where bl: "for_each [0..<nat n] (\<lambda>i. sq (needs (i < LOGBLOCKS))
      (upd_log (lh_block_update (\<lambda>l. l[i := head_block (C blk) i])))) ?s2 = Done () (?s2\<lparr>klog := (klog ?s2)\<lparr>lh_block := bl\<rparr>\<rparr>)"
    "length bl = LOGBLOCKS" "\<forall>i < nat n. bl ! i = head_block (C blk) i"
    using read_head_loop [of "nat n" ?s2 "head_block (C blk)"] n k1 by (auto simp: nat_le_iff)
  let ?s3 = "?s2\<lparr>klog := (klog ?s2)\<lparr>lh_block := bl\<rparr>\<rparr>"
  have 3: "bst ?s3 C (R(blk := R blk + 1)) {blk}" "hbuf ?s3 b blk"
    using bst_klog [OF 1(2)] bst_cong(2) [OF 1(2), of ?s3] 1(3) by (simp_all add: my_pid_def)
  obtain s4 where 4: "brelse b ?s3 = Done () s4" "bst s4 C R {}" "disk s4 = disk ?s3"
    "dwrites s4 = dwrites ?s3" "frame ?s3 s4"
    using brelse_ok [OF 3] cl 1(4) by auto
  have "read_head s = Done () s4"
    using 1(1) get_data_hbuf [OF 1(2,3)] bl(1) 4(1) lg n(1)
    by (simp add: read_head_def bnd_def sq_def getk_def upd_log_def modk_def)
  then show ?thesis
    using 4 1 bl(2,3) frameD [OF 4(5)] frameD [OF 1(6)] by (intro exI [of _ s4] exI [of _ bl]) auto
qed

section \<open>Commit\<close>

text \<open>The state in which a log transaction of \<open>n\<close> blocks is ready to commit: the blocks are pinned in the
  cache, nothing is locked, and a buffer is left for the log blocks.\<close>

definition log_ready :: "kstate \<Rightarrow> u32 \<Rightarrow> u32 list \<Rightarrow> (u32 \<Rightarrow> u8 list) \<Rightarrow> (u32 \<Rightarrow> u32) \<Rightarrow> bool" where
  "log_ready s st bs C R \<longleftrightarrow> bst s C R {} \<and>
     lg_dev (klog s) = ROOTDEV \<and> lg_start (klog s) = st \<and> lh_n (klog s) = int (length bs) \<and>
     length (lh_block (klog s)) = LOGBLOCKS \<and> take (length bs) (lh_block (klog s)) = bs \<and>
     log_fits st bs \<and> distinct bs \<and> (\<forall>k \<in> set bs. R k \<noteq> 0) \<and> (\<forall>k. R k + 1 \<noteq> 0) \<and>
     card {k. R k \<noteq> 0} < NBUF"

lemma log_readyD:
  assumes "log_ready s st bs C R"
  shows "bst s C R {}" "lg_dev (klog s) = ROOTDEV" "lg_start (klog s) = st" "lh_n (klog s) = int (length bs)"
    "length (lh_block (klog s)) = LOGBLOCKS" "log_fits st bs" "length bs \<le> LOGBLOCKS" "distinct bs" "R k + 1 \<noteq> 0"
    "card {k. R k \<noteq> 0} < NBUF" "k \<in> set bs \<Longrightarrow> R k \<noteq> 0" "i < length bs \<Longrightarrow> lh_block (klog s) ! i = bs ! i"
    "i < length bs \<Longrightarrow> bs ! i \<notin> log_region st" "i < length bs \<Longrightarrow> logblk st i \<in> log_region st"
  using assms unfolding log_ready_def log_fits_def log_region_def
  by (auto simp: disjoint_iff) (metis nth_take)

definition unpinned :: "u32 list \<Rightarrow> (u32 \<Rightarrow> u32) \<Rightarrow> u32 \<Rightarrow> u32" where
  "unpinned bs R k = (if k \<in> set bs then R k - 1 else R k)"

lemma unpinned_Nil [simp]: "unpinned [] R = R"
  by (simp add: unpinned_def fun_eq_iff)

lemma unpinned_snoc:
  "i < length bs \<Longrightarrow> distinct bs \<Longrightarrow>
   unpinned (take (Suc i) bs) R = (unpinned (take i bs) R)(bs ! i := unpinned (take i bs) R (bs ! i) - 1)"
  by (auto simp: unpinned_def fun_eq_iff take_Suc_conv_app_nth distinct_conv_nth in_set_conv_nth)

definition log_writes :: "u32 \<Rightarrow> u32 list \<Rightarrow> (u32 \<Rightarrow> u8 list) \<Rightarrow> (u32 \<times> u8 list) list" where
  "log_writes st bs C = map (\<lambda>i. (logblk st i, C (bs ! i))) [0..<length bs]"

definition home_writes :: "u32 list \<Rightarrow> (u32 \<Rightarrow> u8 list) \<Rightarrow> (u32 \<times> u8 list) list" where
  "home_writes bs C = map (\<lambda>i. (bs ! i, C (bs ! i))) [0..<length bs]"

lemma write_log_ok:
  assumes rd: "log_ready s st bs C R"
  shows "writes write_log (log_writes st bs C) R s (frame s)"
proof -
  note D = log_readyD [OF rd]
  have "writes (for_each [0..<length bs] write_log_one) (map (\<lambda>i. (logblk st i, C (bs ! i))) [0..<length bs]) R s (frame s)"
  proof (rule writes_for_each [where R = "\<lambda>_. R" and I = "\<lambda>_ _. frame s"])
    show "bst s (cview s ROOTDEV) R {}" using D(1) bst_cview [OF D(1)] by simp
  next
    fix i t assume i: "i < length bs" and t: "frame s t" "bst t (cview t ROOTDEV) R {}"
      "cview t ROOTDEV = apply_writes (map (\<lambda>i. (logblk st i, C (bs ! i))) [0..<i]) (cview s ROOTDEV)"
    have ne: "logblk st i \<noteq> bs ! i" using D(13,14) [OF i] by metis
    have "bs ! i \<notin> fst ` set (map (\<lambda>i. (logblk st i, C (bs ! i))) [0..<i])"
      using D(13) [OF i] D(14) i by auto
    then have "cview t ROOTDEV (bs ! i) = C (bs ! i)"
      using t(3) bst_cview [OF D(1)] by (simp add: apply_writes_notin)
    moreover have "writes (write_log_one i) [(logblk st i, cview t ROOTDEV (bs ! i))] R t (frame t)"
      using D frameD(4) [OF t(1)] i ne by (intro write_log_one_ok [OF t(2)]) auto
    ultimately show "writes (write_log_one i) [(logblk st i, C (bs ! i))] R t (frame s)"
      using t(1) frame_trans by (auto simp: writes_def)
  qed simp
  then show ?thesis
    using D(4) by (simp add: writes_def write_log_def bnd_def getk_def log_writes_def)
qed

lemma install_trans_ok:
  assumes rd: "log_ready s st bs C R" and logged: "\<And>i. i < length bs \<Longrightarrow> C (logblk st i) = C (bs ! i) \<and> disk s (logblk st i) = C (bs ! i)"
  shows "writes (install_trans False) (home_writes bs C) (unpinned bs R) s (frame s)"
proof -
  note D = log_readyD [OF rd]
  let ?R = "\<lambda>i. unpinned (take i bs) R" and ?w = "\<lambda>i. (bs ! i, C (bs ! i))"
  let ?I = "\<lambda>i t. frame s t \<and> (\<forall>b. b \<notin> set (take i bs) \<longrightarrow> disk t b = disk s b)"
  have "writes (for_each [0..<length bs] (install_one False)) (map ?w [0..<length bs]) (?R (length bs)) s (?I (length bs))"
  proof (rule writes_for_each [where R = ?R and I = "\<lambda>i _. ?I i"])
    show "bst s (cview s ROOTDEV) (?R 0) {}" using D(1) bst_cview [OF D(1)] by simp
  next
    fix i t assume i: "i < length bs" and t: "?I i t" "bst t (cview t ROOTDEV) (?R i) {}"
      "cview t ROOTDEV = apply_writes (map ?w [0..<i]) (cview s ROOTDEV)"
    have ne: "bs ! i \<noteq> logblk st i" using D(13,14) [OF i] by metis
    have nt: "logblk st i \<notin> set (take i bs)"
      using D(13,14) i by (metis in_set_conv_nth in_set_takeD)
    then have "logblk st i \<notin> fst ` set (map ?w [0..<i])"
      using i by (auto simp: in_set_conv_nth)
    then have c: "cview t ROOTDEV (logblk st i) = C (bs ! i)"
      using t(3) bst_cview [OF D(1)] logged [OF i] by (simp add: apply_writes_notin)
    have d: "disk t (logblk st i) = C (bs ! i)" using t(1) nt logged [OF i] by simp
    have nd: "bs ! i \<notin> set (take i bs)" using D(8) i by (auto simp: in_set_conv_nth distinct_conv_nth)
    have Ri: "?R i (bs ! i) = R (bs ! i)" "?R i (logblk st i) = R (logblk st i)"
      using nd nt by (simp_all add: unpinned_def)
    have "{k. ?R i k \<noteq> 0} \<subseteq> {k. R k \<noteq> 0}" using D(11) by (auto simp: unpinned_def dest: in_set_takeD)
    then have room: "card {k. ?R i k \<noteq> 0} < NBUF"
      using D(10) card_mono [of "{k. R k \<noteq> 0}"] by (meson finite order_le_less_trans)
    have "writes (install_one False i) [(bs ! i, cview t ROOTDEV (logblk st i))]
        (if False then ?R i else (?R i)(bs ! i := ?R i (bs ! i) - 1)) t (frame t)"
      using D frameD(4) [of s t] t(1) i ne c d Ri room by (intro install_one_ok [OF t(2)]) auto
    then obtain u where u: "install_one False i t = Done () u"
      "bst u (apply_writes [?w i] (cview t ROOTDEV)) (?R (Suc i)) {}" "disk u = apply_writes [?w i] (disk t)"
      "dwrites u = dwrites t @ [?w i]" "frame t u"
      using c unpinned_snoc [OF i D(8), of R] by (auto simp: writes_def)
    have "?I (Suc i) u"
      using t(1) u(3,5) frame_trans [of s t u] i by (auto simp: take_Suc_conv_app_nth)
    then show "writes (install_one False i) [?w i] (?R (Suc i)) t (?I (Suc i))"
      using u by (auto simp: writes_def)
  qed simp
  then show ?thesis
    using D(4) by (auto simp: writes_def install_trans_def bnd_def getk_def home_writes_def)
qed

definition commit_writes :: "u32 \<Rightarrow> u32 list \<Rightarrow> u32 list \<Rightarrow> (u32 \<Rightarrow> u8 list) \<Rightarrow> (u32 \<times> u8 list) list" where
  "commit_writes st blks bs C =
     (let h = put_head (int (length bs)) blks (C st)
      in log_writes st bs C @ [(st, h)] @ home_writes bs C @ [(st, put_head 0 blks h)])"

lemma writes_upd_log:
  "bst s (cview s ROOTDEV) R {} \<Longrightarrow> writes (upd_log f) [] R s (\<lambda>t. t = s\<lparr>klog := f (klog s)\<rparr>)"
  using bst_klog by (auto simp: writes_def upd_log_def modk_def)

lemma apply_log_writes:
  assumes "log_fits st bs"
  shows "i < length bs \<Longrightarrow> apply_writes (log_writes st bs C) D (logblk st i) = C (bs ! i)"
    and "b \<notin> log_region st \<Longrightarrow> apply_writes (log_writes st bs C) D b = D b"
    and "apply_writes (log_writes st bs C) D st = D st"
proof -
  have f: "unat st + LOGBLOCKS < 2 ^ 32" "length bs \<le> LOGBLOCKS" using assms by (auto simp: log_fits_def)
  have "inj_on (logblk st) (set [0..<length bs])"
    using logblk_inj [OF f(1)] f(2) by (auto simp: inj_on_def)
  then have "distinct (map (logblk st) [0..<length bs])" by (simp add: distinct_map)
  then show "i < length bs \<Longrightarrow> apply_writes (log_writes st bs C) D (logblk st i) = C (bs ! i)"
    unfolding log_writes_def by (intro apply_writes_map) auto
  show "b \<notin> log_region st \<Longrightarrow> apply_writes (log_writes st bs C) D b = D b"
    using f(2) by (intro apply_writes_notin) (auto simp: log_writes_def log_region_def)
  show "apply_writes (log_writes st bs C) D st = D st"
  proof (rule apply_writes_notin)
    have "st \<noteq> logblk st i" if "i < length bs" for i
      using logblk_neq_start [OF f(1), of i] f(2) that by simp
    then show "st \<notin> fst ` set (log_writes st bs C)" by (auto simp: log_writes_def)
  qed
qed

lemma apply_home_writes:
  assumes "distinct bs"
  shows "k \<in> set bs \<Longrightarrow> apply_writes (home_writes bs C) D k = C k"
    and "k \<notin> set bs \<Longrightarrow> apply_writes (home_writes bs C) D k = D k"
proof -
  have m: "map (\<lambda>i. bs ! i) [0..<length bs] = bs" by (simp add: map_nth)
  show "k \<in> set bs \<Longrightarrow> apply_writes (home_writes bs C) D k = C k"
    using apply_writes_map [of "\<lambda>i. bs ! i" "[0..<length bs]" _ "\<lambda>i. C (bs ! i)" D] assms m
    by (auto simp: home_writes_def in_set_conv_nth)
  show "k \<notin> set bs \<Longrightarrow> apply_writes (home_writes bs C) D k = D k"
    by (intro apply_writes_notin) (auto simp: home_writes_def)
qed

lemma log_ready_step:
  assumes rd: "log_ready s st bs C R" and "bst t C' R {}" and "klog t = klog s"
  shows "log_ready t st bs C' R"
  using assms by (simp add: log_ready_def)

text \<open>The second half of a commit: from the header that makes it durable to the cleared header.\<close>

lemma commit_install:
  assumes rd: "log_ready s st bs C R"
    and logged: "\<And>i. i < length bs \<Longrightarrow> C (logblk st i) = C (bs ! i) \<and> disk s (logblk st i) = C (bs ! i)"
  shows "writes (sq (install_trans False) (sq (upd_log (lh_n_update (\<lambda>_. 0))) write_head))
       (home_writes bs C @ [] @ [(st, put_head 0 (lh_block (klog s)) (C st))]) (unpinned bs R) s
       (\<lambda>t. klog t = (klog s)\<lparr>lh_n := 0\<rparr> \<and> frame s (t\<lparr>klog := klog s\<rparr>))"
proof (rule writes_sq [OF install_trans_ok [OF rd logged]])
  note D = log_readyD [OF rd]
  have stn: "st \<notin> set bs" using D(6) by (auto simp: log_fits_def log_region_def)
  fix s3 assume s3: "frame s s3" "cview s3 ROOTDEV = apply_writes (home_writes bs C) (cview s ROOTDEV)"
    "bst s3 (cview s3 ROOTDEV) (unpinned bs R) {}"
  have k3: "klog s3 = klog s" using frameD(4) [OF s3(1)] .
  have st3: "cview s3 ROOTDEV st = C st"
    using s3(2) bst_cview [OF D(1)] apply_home_writes(2) [OF D(8) stn] by simp
  have "{k. unpinned bs R k \<noteq> 0} \<subseteq> {k. R k \<noteq> 0}" using D(11) by (auto simp: unpinned_def)
  then have room: "card {k. unpinned bs R k \<noteq> 0} < NBUF"
    using D(10) card_mono [of "{k. R k \<noteq> 0}"] by (meson finite order_le_less_trans)
  show "writes (sq (upd_log (lh_n_update (\<lambda>_. 0))) write_head)
      ([] @ [(st, put_head 0 (lh_block (klog s)) (C st))]) (unpinned bs R) s3
      (\<lambda>t. klog t = (klog s)\<lparr>lh_n := 0\<rparr> \<and> frame s (t\<lparr>klog := klog s\<rparr>))"
  proof (rule writes_sq [OF writes_upd_log [OF s3(3)]])
    fix s4 assume s4: "s4 = s3\<lparr>klog := (klog s3)\<lparr>lh_n := 0\<rparr>\<rparr>" "bst s4 (cview s4 ROOTDEV) (unpinned bs R) {}"
      "cview s4 ROOTDEV = apply_writes [] (cview s3 ROOTDEV)"
    have R1: "unpinned bs R st + 1 \<noteq> 0" using D(9) stn by (simp add: unpinned_def)
    have "writes write_head [(st, put_head 0 (lh_block (klog s)) (C st))] (unpinned bs R) s4 (frame s4)"
      using write_head_ok [OF s4(2), of st] D k3 st3 R1 room s4(1,3) by simp
    moreover have "frame s4 t \<Longrightarrow> klog t = (klog s)\<lparr>lh_n := 0\<rparr> \<and> frame s (t\<lparr>klog := klog s\<rparr>)" for t
      using s3(1) s4(1) k3 by (auto simp: frame_def buf_page_def my_pid_def)
    ultimately show "writes write_head [(st, put_head 0 (lh_block (klog s)) (C st))] (unpinned bs R) s4
        (\<lambda>t. klog t = (klog s)\<lparr>lh_n := 0\<rparr> \<and> frame s (t\<lparr>klog := klog s\<rparr>))"
      by (auto simp: writes_def)
  qed
qed

lemma writes_mono: "writes m ws R' s P \<Longrightarrow> (\<And>t. P t \<Longrightarrow> Q t) \<Longrightarrow> writes m ws R' s Q"
  by (auto simp: writes_def)

lemma commit_ok:
  assumes rd: "log_ready s st bs C R" and ne: "bs \<noteq> []"
  shows "writes commit (commit_writes st (lh_block (klog s)) bs C) (unpinned bs R) s
           (\<lambda>t. klog t = (klog s)\<lparr>lh_n := 0\<rparr> \<and> frame s (t\<lparr>klog := klog s\<rparr>))"
proof -
  note D = log_readyD [OF rd]
  let ?bl = "lh_block (klog s)" and ?h = "put_head (int (length bs)) (lh_block (klog s)) (C st)"
  let ?tail = "sq (install_trans False) (sq (upd_log (lh_n_update (\<lambda>_. 0))) write_head)"
  let ?fin = "home_writes bs C @ [] @ [(st, put_head 0 ?bl ?h)]"
  let ?P = "\<lambda>t. klog t = (klog s)\<lparr>lh_n := 0\<rparr> \<and> frame s (t\<lparr>klog := klog s\<rparr>)"
  have C: "cview s ROOTDEV = C" by (rule bst_cview [OF D(1)])
  have "writes (sq write_log (sq write_head ?tail)) (log_writes st bs C @ [(st, ?h)] @ ?fin) (unpinned bs R) s ?P"
  proof (rule writes_sq [OF write_log_ok [OF rd]])
    fix s1 assume s1: "frame s s1" "cview s1 ROOTDEV = apply_writes (log_writes st bs C) (cview s ROOTDEV)"
      "bst s1 (cview s1 ROOTDEV) R {}" "disk s1 = apply_writes (log_writes st bs C) (disk s)"
    have k1: "klog s1 = klog s" using frameD(4) [OF s1(1)] .
    have st1: "cview s1 ROOTDEV st = C st" using s1(2) C apply_log_writes(3) [OF D(6)] by simp
    have wh: "writes write_head [(st, ?h)] R s1 (frame s1)"
      using write_head_ok [OF s1(3), of st] D k1 st1 by simp
    show "writes (sq write_head ?tail) ([(st, ?h)] @ ?fin) (unpinned bs R) s1 ?P"
    proof (rule writes_sq [OF wh])
      fix s2 assume s2: "frame s1 s2" "cview s2 ROOTDEV = apply_writes [(st, ?h)] (cview s1 ROOTDEV)"
        "bst s2 (cview s2 ROOTDEV) R {}" "disk s2 = apply_writes [(st, ?h)] (disk s1)"
      have k2: "klog s2 = klog s" using frameD(4) [OF s2(1)] k1 by simp
      have same: "cview s2 ROOTDEV (bs ! i) = C (bs ! i)" "cview s2 ROOTDEV (logblk st i) = C (bs ! i)"
        "disk s2 (logblk st i) = C (bs ! i)" if i: "i < length bs" for i
      proof -
        have "bs ! i \<noteq> st" "logblk st i \<noteq> st"
          using i D(6,7,13) logblk_neq_start [of st i] by (auto simp: log_fits_def log_region_def)
        then show "cview s2 ROOTDEV (bs ! i) = C (bs ! i)" "cview s2 ROOTDEV (logblk st i) = C (bs ! i)"
          "disk s2 (logblk st i) = C (bs ! i)"
          using s1(2,4) s2(2,4) C apply_log_writes(1,2) [OF D(6)] D(13) i by simp_all
      qed
      have hw: "home_writes bs (cview s2 ROOTDEV) = home_writes bs C" using same(1) by (simp add: home_writes_def)
      have f: "frame s s2" using s1(1) s2(1) by (rule frame_trans)
      have "writes ?tail ?fin (unpinned bs R) s2 (\<lambda>t. klog t = (klog s)\<lparr>lh_n := 0\<rparr> \<and> frame s2 (t\<lparr>klog := klog s\<rparr>))"
        using commit_install [OF log_ready_step [OF rd s2(3) k2]] same hw k2 s2(2) by simp
      then show "writes ?tail ?fin (unpinned bs R) s2 ?P"
        by (rule writes_mono) (use f frame_trans in blast)
    qed
  qed
  then show ?thesis
    using D(4) ne by (simp add: writes_def commit_def bnd_def getk_def whenk_def commit_writes_def Let_def)
qed

section \<open>Recovery\<close>

text \<open>A freshly booted machine about to recover: nothing referenced or locked in the cache, which then
  agrees with the disk.\<close>

definition boot_ready :: "kstate \<Rightarrow> u32 \<Rightarrow> bool" where
  "boot_ready t st \<longleftrightarrow> bst t (disk t) (\<lambda>_. 0) {} \<and> lg_dev (klog t) = ROOTDEV \<and> lg_start (klog t) = st \<and>
     length (lh_block (klog t)) = LOGBLOCKS"

definition disk_log :: "(u32 \<Rightarrow> u8 list) \<Rightarrow> u32 \<Rightarrow> u32 list" where
  "disk_log D st = map (head_block (D st)) [0..<nat (head_n (D st))]"

definition replay :: "(u32 \<Rightarrow> u8 list) \<Rightarrow> u32 \<Rightarrow> (u32 \<times> u8 list) list" where
  "replay D st = map (\<lambda>i. (disk_log D st ! i, D (logblk st i))) [0..<length (disk_log D st)]"

lemma NBUF_gt_1: "1 < NBUF"
  by (simp add: NBUF_def)

lemma install_trans_recover:
  assumes st: "bst s (disk s) (\<lambda>_. 0) {}" and lg: "lg_dev (klog s) = ROOTDEV" "lg_start (klog s) = st"
    and n: "lh_n (klog s) = int (length bl)" "\<And>i. i < length bl \<Longrightarrow> lh_block (klog s) ! i = bl ! i"
      "length (lh_block (klog s)) = LOGBLOCKS" and fit: "log_fits st bl"
  shows "writes (install_trans True) (map (\<lambda>i. (bl ! i, disk s (logblk st i))) [0..<length bl]) (\<lambda>_. 0) s (frame s)"
proof -
  let ?w = "\<lambda>i. (bl ! i, disk s (logblk st i))"
  let ?I = "\<lambda>i t. frame s t \<and> disk t = apply_writes (map ?w [0..<i]) (disk s)"
  have C: "cview s ROOTDEV = disk s" by (rule bst_cview [OF st])
  have reg: "bl ! i \<notin> log_region st" "logblk st i \<in> log_region st" "i < LOGBLOCKS" if "i < length bl" for i
    using that fit by (auto simp: log_fits_def log_region_def disjoint_iff)
  have "writes (for_each [0..<length bl] (install_one True)) (map ?w [0..<length bl]) (\<lambda>_. 0) s (?I (length bl))"
  proof (rule writes_for_each [where R = "\<lambda>_ _. 0" and I = "\<lambda>i _. ?I i"])
    show "bst s (cview s ROOTDEV) (\<lambda>_. 0) {}" using st C by simp
  next
    fix i t assume i: "i < length bl" and t: "?I i t" "bst t (cview t ROOTDEV) (\<lambda>_. 0) {}"
      "cview t ROOTDEV = apply_writes (map ?w [0..<i]) (cview s ROOTDEV)"
    have ne: "bl ! i \<noteq> logblk st i" using reg [OF i] by metis
    have "logblk st i \<notin> fst ` set (map ?w [0..<i])"
      using reg(1) reg(2) [OF i] i by auto
    then have d: "disk t (logblk st i) = disk s (logblk st i)" "cview t ROOTDEV (logblk st i) = disk t (logblk st i)"
      using t C by (simp_all add: apply_writes_notin)
    have card: "card {k. ((\<lambda>_. 0)(x := 0 + 1)) k \<noteq> (0 :: u32)} < NBUF" for x :: u32
    proof -
      have "{k. ((\<lambda>_. 0)(x := 0 + 1)) k \<noteq> (0 :: u32)} = {x}" by auto
      then show ?thesis using NBUF_gt_1 by simp
    qed
    have "writes (install_one True i) [(bl ! i, cview t ROOTDEV (logblk st i))]
       (if True then (\<lambda>_. 0) else (\<lambda>_. 0)(bl ! i := 0 - 1)) t (frame t)"
      using lg n i ne d frameD(4) [of s t] t(1) reg(3) [OF i] card NBUF_gt_1
      by (intro install_one_ok [OF t(2)]) auto
    then obtain u where u: "install_one True i t = Done () u" "bst u (apply_writes [?w i] (cview t ROOTDEV)) (\<lambda>_. 0) {}"
      "disk u = apply_writes [?w i] (disk t)" "dwrites u = dwrites t @ [?w i]" "frame t u"
      using d by (auto simp: writes_def)
    then show "writes (install_one True i) [?w i] (\<lambda>_. 0) t (?I (Suc i))"
      using t(1) frame_trans [of s t u] by (auto simp: writes_def)
  qed simp
  then show ?thesis
    using n(1) by (auto simp: writes_def install_trans_def bnd_def getk_def)
qed

lemma recover_ok:
  assumes b: "boot_ready t st" and h: "0 \<le> head_n (disk t st)" "head_n (disk t st) \<le> int LOGBLOCKS"
    and fit: "log_fits st (disk_log (disk t) st)"
  shows "\<exists>t' h. recover_from_log t = Done () t' \<and> boot_ready t' st \<and> lh_n (klog t') = 0 \<and>
    disk t' = (apply_writes (replay (disk t) st) (disk t))(st := h) \<and> head_n h = 0"
proof -
  let ?n = "head_n (disk t st)" and ?bl = "disk_log (disk t) st"
  have st: "bst t (disk t) (\<lambda>_. 0) {}" and lg: "lg_dev (klog t) = ROOTDEV" "lg_start (klog t) = st"
    "length (lh_block (klog t)) = LOGBLOCKS"
    using b by (auto simp: boot_ready_def)
  obtain s1 bl where 1: "read_head t = Done () s1" "bst s1 (disk t) (\<lambda>_. 0) {}" "disk s1 = disk t"
    "klog s1 = (klog t)\<lparr>lh_n := ?n, lh_block := bl\<rparr>" "length bl = LOGBLOCKS" "\<forall>i < nat ?n. bl ! i = head_block (disk t st) i"
    using read_head_ok [OF st lg(1), of st ?n] lg h NBUF_gt_1 by auto
  have len: "length ?bl = nat ?n" by (simp add: disk_log_def)
  have "writes (install_trans True) (map (\<lambda>i. (?bl ! i, disk s1 (logblk st i))) [0..<length ?bl]) (\<lambda>_. 0) s1 (frame s1)"
    using 1 lg h fit by (intro install_trans_recover) (auto simp: disk_log_def)
  then obtain s2 where 2: "install_trans True s1 = Done () s2" "bst s2 (apply_writes (replay (disk t) st) (disk t)) (\<lambda>_. 0) {}"
    "disk s2 = apply_writes (replay (disk t) st) (disk t)" "frame s1 s2"
    using 1(3) bst_cview [OF 1(2)] by (auto simp: writes_def replay_def)
  let ?s3 = "s2\<lparr>klog := (klog s2)\<lparr>lh_n := 0\<rparr>\<rparr>" and ?D = "apply_writes (replay (disk t) st) (disk t)"
  let ?h = "put_head 0 bl (?D st)"
  have k3: "klog ?s3 = (klog t)\<lparr>lh_n := 0, lh_block := bl\<rparr>" using frameD(4) [OF 2(4)] 1(4) by simp
  have 3: "bst ?s3 ?D (\<lambda>_. 0) {}" by (rule bst_klog [OF 2(2)])
  have "writes write_head [(st, ?h)] (\<lambda>_. 0) ?s3 (frame ?s3)"
    using write_head_ok [OF 3, of st] k3 lg NBUF_gt_1 by simp
  then obtain s4 where 4: "write_head ?s3 = Done () s4" "bst s4 (?D(st := ?h)) (\<lambda>_. 0) {}" "disk s4 = ?D(st := ?h)" "frame ?s3 s4"
    using bst_cview [OF 3] 2(3) by (auto simp: writes_def)
  have "recover_from_log t = Done () s4"
    using 1(1) 2(1) 4(1) by (simp add: recover_from_log_def sq_def bnd_def upd_log_def modk_def)
  moreover have "klog s4 = (klog t)\<lparr>lh_n := 0, lh_block := bl\<rparr>" using frameD(4) [OF 4(4)] k3 by simp
  moreover have "head_n ?h = 0"
    using put_head_ok(2) [of "?D st" 0 bl] length_C [OF 3] by simp
  ultimately show ?thesis
    using 4(2,3) lg 1(5) by (intro exI [of _ s4] exI [of _ ?h]) (simp add: boot_ready_def)
qed

section \<open>Crashes\<close>

lemma disk_log_empty: "head_n (D st) = 0 \<Longrightarrow> disk_log D st = [] \<and> replay D st = []"
  by (simp add: disk_log_def replay_def)

lemma disk_log_full:
  assumes "length (C st) = BSIZE" "length bs \<le> LOGBLOCKS" "\<And>i. i < length bs \<Longrightarrow> blks ! i = bs ! i"
    and "D st = put_head (int (length bs)) blks (C st)"
  shows "disk_log D st = bs" and "head_n (D st) = int (length bs)"
proof -
  show n: "head_n (D st) = int (length bs)" using put_head_ok(2) assms by simp
  show "disk_log D st = bs"
    using n put_head_ok(3) [OF assms(1), of "int (length bs)"] assms by (intro nth_equalityI) (auto simp: disk_log_def)
qed

text \<open>The disk after the first \<open>k\<close> writes of a commit.\<close>

lemma crash_before:
  assumes "log_fits st bs" "k \<le> length bs" and "D = apply_writes (take k (commit_writes st blks bs C)) D0"
  shows "D st = D0 st" and "b \<notin> log_region st \<Longrightarrow> D b = D0 b"
proof -
  have l: "length bs = length (log_writes st bs C)" by (simp add: log_writes_def)
  have t: "take k (commit_writes st blks bs C) = take k (log_writes st bs C)"
    using assms(2) l by (simp add: commit_writes_def Let_def)
  have f: "fst ` set (take k (log_writes st bs C)) \<subseteq> logblk st ` {..<length bs}"
    by (auto simp: log_writes_def dest!: in_set_takeD)
  moreover have "logblk st ` {..<length bs} \<subseteq> log_region st - {st}"
    using assms(1) logblk_neq_start [of st] by (fastforce simp: log_fits_def log_region_def)
  ultimately have "st \<notin> fst ` set (take k (log_writes st bs C))"
    "b \<notin> log_region st \<Longrightarrow> b \<notin> fst ` set (take k (log_writes st bs C))" by auto
  then show "D st = D0 st" "b \<notin> log_region st \<Longrightarrow> D b = D0 b"
    using assms(3) t by (simp_all add: apply_writes_notin)
qed

lemma crash_between:
  assumes fit: "log_fits st bs" and d: "distinct bs" and k: "length bs < k" "k \<le> 2 * length bs + 1"
    and D: "D = apply_writes (take k (commit_writes st blks bs C)) D0"
  shows "D st = put_head (int (length bs)) blks (C st)" "i < length bs \<Longrightarrow> D (logblk st i) = C (bs ! i)"
    "b \<notin> log_region st \<Longrightarrow> b \<notin> set bs \<Longrightarrow> D b = D0 b"
proof -
  let ?h = "put_head (int (length bs)) blks (C st)"
  define j where "j = k - length bs - 1"
  have j: "k = length bs + 1 + j" "j \<le> length bs" using k by (simp_all add: j_def)
  have l: "length (log_writes st bs C) = length bs" "length (home_writes bs C) = length bs"
    by (simp_all add: log_writes_def home_writes_def)
  have t: "take k (commit_writes st blks bs C) = log_writes st bs C @ [(st, ?h)] @ take j (home_writes bs C)"
    using j l by (simp add: commit_writes_def Let_def)
  have h: "fst ` set (take j (home_writes bs C)) \<subseteq> set bs"
    by (auto simp: home_writes_def dest!: in_set_takeD)
  have reg: "set bs \<inter> log_region st = {}" "st \<in> log_region st" using fit by (auto simp: log_fits_def log_region_def)
  have out: "D b = ((apply_writes (log_writes st bs C) D0)(st := ?h)) b" if "b \<notin> set bs" for b
  proof -
    have "b \<notin> fst ` set (take j (home_writes bs C))" using that h by blast
    then show ?thesis using D t by (simp add: apply_writes_notin del: fun_upd_apply)
  qed
  show "D st = ?h" using out [of st] reg by auto
  show "D (logblk st i) = C (bs ! i)" if i: "i < length bs"
  proof -
    have "logblk st i \<in> log_region st" "logblk st i \<noteq> st"
      using i fit logblk_neq_start [of st i] by (auto simp: log_fits_def log_region_def)
    then show ?thesis using out [of "logblk st i"] reg(1) apply_log_writes(1) [OF fit i] by auto
  qed
  show "b \<notin> log_region st \<Longrightarrow> b \<notin> set bs \<Longrightarrow> D b = D0 b"
    using out [of b] apply_log_writes(2) [OF fit] reg(2) by auto
qed

lemma crash_after:
  assumes fit: "log_fits st bs" and d: "distinct bs" and k: "2 * length bs + 2 \<le> k"
    and D: "D = apply_writes (take k (commit_writes st blks bs C)) D0"
  shows "D st = put_head 0 blks (put_head (int (length bs)) blks (C st))"
    "b \<notin> log_region st \<Longrightarrow> D b = (if b \<in> set bs then C b else D0 b)"
proof -
  have l: "length (log_writes st bs C) = length bs" "length (home_writes bs C) = length bs"
    by (simp_all add: log_writes_def home_writes_def)
  have t: "take k (commit_writes st blks bs C) = commit_writes st blks bs C"
    using k l by (simp add: commit_writes_def Let_def)
  show "D st = put_head 0 blks (put_head (int (length bs)) blks (C st))"
    using D unfolding t by (simp add: commit_writes_def Let_def)
  show "b \<notin> log_region st \<Longrightarrow> D b = (if b \<in> set bs then C b else D0 b)"
    using D apply_home_writes [OF d] apply_log_writes(2) [OF fit] unfolding t
    by (auto simp: commit_writes_def Let_def log_region_def)
qed

lemma replay_full:
  assumes "distinct bs" and "disk_log D st = bs" and "\<And>i. i < length bs \<Longrightarrow> D (logblk st i) = C (bs ! i)"
  shows "apply_writes (replay D st) D b = (if b \<in> set bs then C b else D b)"
proof -
  have "replay D st = home_writes bs C" using assms by (simp add: replay_def home_writes_def)
  then show ?thesis using apply_home_writes [OF assms(1)] by auto
qed

lemma recover_after_crash:
  assumes rd: "log_ready s st bs C R" and h0: "head_n (disk s st) = 0" and b: "boot_ready t st"
    and D: "disk t = apply_writes (take k (commit_writes st (lh_block (klog s)) bs C)) (disk s)"
  shows "\<exists>t'. recover_from_log t = Done () t' \<and> boot_ready t' st \<and> head_n (disk t' st) = 0 \<and>
    (\<forall>b. b \<notin> log_region st \<longrightarrow> disk t' b = (if length bs < k \<and> b \<in> set bs then C b else disk s b))"
proof -
  note L = log_readyD [OF rd]
  have lenC: "length (C st) = BSIZE" using length_C [OF L(1)] .
  let ?bl = "lh_block (klog s)"
  have core: "\<exists>t'. recover_from_log t = Done () t' \<and> boot_ready t' st \<and> head_n (disk t' st) = 0 \<and>
      (\<forall>b. b \<notin> log_region st \<longrightarrow> disk t' b = apply_writes (replay (disk t) st) (disk t) b)"
    if "disk_log (disk t) st = [] \<or> disk_log (disk t) st = bs" "0 \<le> head_n (disk t st)" "head_n (disk t st) \<le> int LOGBLOCKS"
  proof -
    have "log_fits st (disk_log (disk t) st)" using that(1) L(6) by (auto simp: log_fits_def)
    then show ?thesis using recover_ok [OF b that(2,3)] by (auto simp: log_region_def)
  qed
  consider "k \<le> length bs" | "length bs < k" "k \<le> 2 * length bs + 1" | "2 * length bs + 2 \<le> k" by linarith
  then show ?thesis
  proof cases
    case 1
    note c = crash_before [OF L(6) 1 D]
    have "head_n (disk t st) = 0" using c(1) h0 by simp
    then show ?thesis using core disk_log_empty [of "disk t" st] c(2) 1 by auto
  next
    case 2
    note c = crash_between [OF L(6,8) 2 D]
    have dl: "disk_log (disk t) st = bs" "head_n (disk t st) = int (length bs)"
      using disk_log_full [where C = C and D = "disk t" and st = st, OF lenC L(7) L(12) c(1)] by simp_all
    have "apply_writes (replay (disk t) st) (disk t) b = (if b \<in> set bs then C b else disk t b)" for b
      using replay_full [OF L(8) dl(1)] c(2) by simp
    then show ?thesis using core dl c(3) 2 L(7) by auto
  next
    case 3
    note c = crash_after [OF L(6,8) 3 D]
    have "length (put_head (int (length bs)) ?bl (C st)) = BSIZE" using put_head_ok(1) [OF lenC] L(7) by simp
    then have "head_n (disk t st) = 0" using c(1) put_head_ok(2) [of _ 0 ?bl] by simp
    then show ?thesis using core disk_log_empty [of "disk t" st] c(2) 3 by auto
  qed
qed

text \<open>C1. A crash at any point during \<open>commit\<close> is harmless: whatever prefix of the disk writes made by
  the commit has reached the disk when the machine stops, booting and running recovery leaves the blocks
  outside the log either all as they were before the commit or all as the transaction left them in the
  cache. The header write is the commit point: before it the old blocks survive, from it on the new ones.\<close>

theorem commit_crash_safe:
  assumes "log_ready s st bs C R" and "bs \<noteq> []" and "head_n (disk s st) = 0"
  shows "\<exists>s' ws. commit s = Done () s' \<and> dwrites s' = dwrites s @ ws \<and> disk s' = apply_writes ws (disk s) \<and>
    (\<forall>k t. boot_ready t st \<longrightarrow> disk t = apply_writes (take k ws) (disk s) \<longrightarrow>
      (\<exists>t'. recover_from_log t = Done () t' \<and> head_n (disk t' st) = 0 \<and>
        (\<forall>b. b \<notin> log_region st \<longrightarrow>
           disk t' b = (if length bs < k \<and> b \<in> set bs then cview s ROOTDEV b else disk s b))))"
proof -
  let ?ws = "commit_writes st (lh_block (klog s)) bs C"
  obtain s' where s': "commit s = Done () s'" "dwrites s' = dwrites s @ ?ws" "disk s' = apply_writes ?ws (disk s)"
    using commit_ok [OF assms(1,2)] by (auto simp: writes_def)
  have "cview s ROOTDEV = C" using bst_cview log_readyD(1) [OF assms(1)] by blast
  then show ?thesis
    using s' recover_after_crash [OF assms(1,3)] by (intro exI [of _ s'] exI [of _ ?ws]) blast
qed

section \<open>A transaction ready to commit\<close>

lemma boot_bst:
  assumes "bio_ready s" and q: "\<And>b. b < NBUF \<Longrightarrow> b_refcnt (bufs s b) = 0 \<and> b_lock (bufs s b) = no_sleeplock"
  shows "bst s (disk s) (\<lambda>_. 0) {}"
proof -
  have inv: "uniq_bufs s" "clean_bufs s" using assms(1) by (simp_all add: bio_ready_def bio_inv_def)
  have "cview s ROOTDEV k = disk s k" for k
  proof (cases "\<exists>b. cached s ROOTDEV k b")
    case True
    then obtain b where b: "cached s ROOTDEV k b" by blast
    then show ?thesis
      using cview_cached [OF inv(1) _ b] inv(2) q by (auto simp: clean_bufs_def cached_def)
  qed (simp add: cview_uncached)
  moreover have "refs s k = 0" for k
  proof (cases "\<exists>b. cached s ROOTDEV k b")
    case True
    then obtain b where b: "cached s ROOTDEV k b" by blast
    then show ?thesis using refs_cached [OF inv(1) b] q by (auto simp: cached_def)
  qed (simp add: refs_uncached)
  ultimately show ?thesis
    using assms(1) q by (auto simp: bst_def no_sleeplock_def)
qed

lemma booted_bst:
  obtains t where "bst t (\<lambda>_. replicate BSIZE 0) (\<lambda>_. 0) {}" "disk t = (\<lambda>_. replicate BSIZE 0)" "held t = {}" "cur t = Some 0"
proof -
  obtain t where t: "bio_ready (t\<lparr>cur := Some 0\<rparr>)" "disk t = (\<lambda>_. replicate BSIZE 0)" "held t = {}"
    "\<And>b. b < NBUF \<Longrightarrow> b_refcnt (bufs t b) = 0 \<and> b_lock (bufs t b) = no_sleeplock"
    using booted_cache by metis
  then have "bst (t\<lparr>cur := Some 0\<rparr>) (disk (t\<lparr>cur := Some 0\<rparr>)) (\<lambda>_. 0) {}" by (intro boot_bst) auto
  then show thesis using that [of "t\<lparr>cur := Some 0\<rparr>"] t(2,3) by simp
qed

definition sample_log :: klog where
  "sample_log = \<lparr>lg_start = 2, lg_outstanding = 0, lg_committing = True, lg_dev = ROOTDEV, lh_n = 1,
     lh_block = 45 # replicate 29 0\<rparr>"

text \<open>A state in which block 45 was changed to ones and logged.\<close>

lemma sample_ready:
  obtains s C R where "log_ready s 2 [45] C R" "disk s = (\<lambda>_. replicate BSIZE 0)" "C 45 = replicate BSIZE 1"
proof -
  obtain t where t: "bst t (\<lambda>_. replicate BSIZE 0) (\<lambda>_. 0) {}" "disk t = (\<lambda>_. replicate BSIZE 0)"
    using booted_bst by metis
  obtain b s1 where 1: "bst s1 (\<lambda>_. replicate BSIZE 0) ((\<lambda>_. 0)(45 := 1)) {45}" "hbuf s1 b 45" "disk s1 = disk t"
    using bread_ok [OF t(1), of 45] NBUF_gt_1 by auto
  let ?C = "(\<lambda>_. replicate BSIZE 0)(45 := replicate BSIZE 1) :: u32 \<Rightarrow> u8 list"
  note 2 = set_data_ok [OF 1(1,2), of "replicate BSIZE 1"]
  have 2: "bst (set_data s1 b (replicate BSIZE 1)) ?C ((\<lambda>_. 0)(45 := 1)) {45}" "hbuf (set_data s1 b (replicate BSIZE 1)) b 45"
    using 2(1,2) 1(2) by auto
  obtain s3 where 3: "bst s3 ?C ((\<lambda>_. 0)(45 := 2)) {45}" "hbuf s3 b 45" "disk s3 = disk t"
    using bpin_ok [OF 2] 2(2) 1(3) by auto
  obtain s4 where 4: "bst s4 ?C ((\<lambda>_. 0)(45 := 1)) {}" "disk s4 = disk t"
    using brelse_ok [OF 3(1,2)] 3(3) by auto
  have "(45 :: u32) \<notin> log_region 2"
  proof
    assume "(45 :: u32) \<in> log_region 2"
    then obtain i where "i < 30" "(45 :: u32) = logblk 2 i" by (auto simp: log_region_def)
    then show False using unat_logblk [of 2 i] by auto
  qed
  then have "log_fits 2 [45]" by (simp add: log_fits_def)
  moreover have "card {k. ((\<lambda>_. 0)(45 := 1 :: u32)) (k :: u32) \<noteq> 0} < NBUF"
  proof -
    have "{k. ((\<lambda>_. 0)(45 := 1 :: u32)) (k :: u32) \<noteq> 0} = {45}" by auto
    then show ?thesis using NBUF_gt_1 by simp
  qed
  ultimately have "log_ready (s4\<lparr>klog := sample_log\<rparr>) 2 [45] ?C ((\<lambda>_. 0)(45 := 1))"
    using bst_klog [OF 4(1)] by (simp add: log_ready_def sample_log_def)
  then show thesis using that 4(2) t(2) by simp
qed

theorem commit_crash_safe_witness:
  "\<exists>s s' ws C R. log_ready s 2 [45] C R \<and> commit s = Done () s' \<and> dwrites s' = dwrites s @ ws \<and>
     disk s' = apply_writes ws (disk s)"
proof -
  obtain s C R where s: "log_ready s 2 [45] C R" "disk s = (\<lambda>_. replicate BSIZE 0)" by (rule sample_ready)
  have "head_n (disk s 2) = 0" unfolding s(2) by code_simp
  then show ?thesis using commit_crash_safe [OF s(1)] s(1) by blast
qed


section \<open>Logging a block\<close>

definition log_blocks :: "klog \<Rightarrow> u32 list" where
  "log_blocks lg = take (nat (lh_n lg)) (lh_block lg)"

definition log_wf :: "klog \<Rightarrow> bool" where
  "log_wf lg \<longleftrightarrow> length (lh_block lg) = LOGBLOCKS \<and> 0 \<le> lh_n lg \<and> lh_n lg \<le> int LOGBLOCKS \<and> distinct (log_blocks lg)"

lemma log_slot_range: "i \<le> log_slot blks i k blk \<and> log_slot blks i k blk \<le> i + k"
  by (induction blks i k blk rule: log_slot.induct) auto

lemma log_slot_found: "log_slot blks i k blk < i + k \<Longrightarrow> blks ! log_slot blks i k blk = blk"
  by (induction blks i k blk rule: log_slot.induct) (auto split: if_splits)

lemma log_slot_before: "i \<le> j \<Longrightarrow> j < log_slot blks i k blk \<Longrightarrow> blks ! j \<noteq> blk"
proof (induction blks i k blk rule: log_slot.induct)
  case (2 blks i k blk)
  then show ?case by (cases "j = i") (auto split: if_splits)
qed simp

lemma log_slot_cases:
  assumes "log_wf lg" and "i = log_slot (lh_block lg) 0 (nat (lh_n lg)) blk"
  shows "blk \<in> set (log_blocks lg) \<Longrightarrow> i < nat (lh_n lg) \<and> lh_block lg ! i = blk"
    and "blk \<notin> set (log_blocks lg) \<Longrightarrow> i = nat (lh_n lg)"
proof -
  let ?n = "nat (lh_n lg)"
  have n: "?n \<le> length (lh_block lg)" using assms(1) by (auto simp: log_wf_def)
  have r: "i \<le> ?n" using log_slot_range [of 0 "lh_block lg" ?n blk] assms(2) by simp
  have f: "i < ?n \<Longrightarrow> lh_block lg ! i = blk" using log_slot_found [of "lh_block lg" 0 ?n blk] assms(2) by simp
  have b: "j < i \<Longrightarrow> lh_block lg ! j \<noteq> blk" for j using log_slot_before [of 0 j "lh_block lg" ?n blk] assms(2) by simp
  show "blk \<in> set (log_blocks lg) \<Longrightarrow> i < ?n \<and> lh_block lg ! i = blk"
    using r f b n by (auto simp: log_blocks_def in_set_conv_nth) (metis le_neq_implies_less)+
  show "blk \<notin> set (log_blocks lg) \<Longrightarrow> i = ?n"
    using r f n by (auto simp: log_blocks_def in_set_conv_nth) (metis le_neq_implies_less nth_take order_less_le_trans)
qed

definition log_append :: "klog \<Rightarrow> u32 \<Rightarrow> klog" where
  "log_append lg blk = lg\<lparr>lh_block := (lh_block lg)[nat (lh_n lg) := blk], lh_n := lh_n lg + 1\<rparr>"

lemma log_append_ok:
  assumes "log_wf lg" "lh_n lg < int LOGBLOCKS" "blk \<notin> set (log_blocks lg)"
  shows "log_wf (log_append lg blk)" "log_blocks (log_append lg blk) = log_blocks lg @ [blk]"
proof -
  have n: "nat (lh_n lg + 1) = Suc (nat (lh_n lg))" "nat (lh_n lg) < length (lh_block lg)"
    using assms(1,2) by (auto simp: log_wf_def)
  then show b: "log_blocks (log_append lg blk) = log_blocks lg @ [blk]"
    by (simp add: log_blocks_def log_append_def take_Suc_conv_app_nth)
  show "log_wf (log_append lg blk)"
    using assms b by (auto simp: log_wf_def log_append_def)
qed

lemma log_write_eq:
  assumes a: "tx_active s = Done False s" and l: "LogLock \<notin> held s" "BcacheLock \<notin> held s"
    and wf: "log_wf (klog s)" "lh_n (klog s) < int LOGBLOCKS" "1 \<le> lg_outstanding (klog s)"
    and blk_def: "blk = b_blockno (bufs s b)"
  shows "log_write b s = Done () (if blk \<in> set (log_blocks (klog s)) then s
           else (set_ref s b (b_refcnt (bufs s b) + 1))\<lparr>klog := log_append (klog s) blk\<rparr>)"
proof (cases "blk \<in> set (log_blocks (klog s))")
  case True
  note c = log_slot_cases(1) [OF wf(1) refl True]
  have "(lh_block (klog s))[log_slot (lh_block (klog s)) 0 (nat (lh_n (klog s))) blk := blk] = lh_block (klog s)"
    using c by (metis list_update_id)
  then have "lh_block_update (\<lambda>l. l[log_slot (lh_block (klog s)) 0 (nat (lh_n (klog s))) blk := blk]) (klog s) = klog s"
    by (intro klog.equality) simp_all
  moreover have "int (log_slot (lh_block (klog s)) 0 (nat (lh_n (klog s))) blk) \<noteq> lh_n (klog s)" using c by linarith
  ultimately show ?thesis
    using True a l wf
    by (simp add: log_write_def bnd_def sq_def getk_def get_buf_def upd_log_def modk_def whenk_def ret_def Let_def
        blk_def [symmetric])
next
  case False
  note c = log_slot_cases(2) [OF wf(1) refl False]
  have "int (nat (lh_n (klog s))) = lh_n (klog s)" using wf(1) by (simp add: log_wf_def)
  then show ?thesis
    using False a l wf c
    by (auto simp: log_write_def bnd_def sq_def getk_def get_buf_def upd_log_def modk_def whenk_def ret_def Let_def
        bpin_def upd_buf_def set_ref_def log_append_def blk_def [symmetric] intro!: kstate.equality)
qed

text \<open>C16. \<open>log_write\<close> outside a user transaction records a block in the log once: a block that is already
  there is absorbed and nothing changes; a new one is appended at the end and its buffer is pinned. The log
  stays well formed, without duplicates.\<close>

theorem log_write_absorbs:
  assumes "tx_active s = Done False s" and "LogLock \<notin> held s" "BcacheLock \<notin> held s"
    and "log_wf (klog s)" "lh_n (klog s) < int LOGBLOCKS" "1 \<le> lg_outstanding (klog s)"
  shows "\<exists>s'. log_write b s = Done () s' \<and> log_wf (klog s') \<and> b_blockno (bufs s b) \<in> set (log_blocks (klog s')) \<and>
    (if b_blockno (bufs s b) \<in> set (log_blocks (klog s)) then s' = s
     else log_blocks (klog s') = log_blocks (klog s) @ [b_blockno (bufs s b)] \<and>
          b_refcnt (bufs s' b) = b_refcnt (bufs s b) + 1)"
  using log_write_eq [OF assms refl, of b] log_append_ok [OF assms(4,5), of "b_blockno (bufs s b)"] assms(4) by auto

definition log_sample :: kstate where
  "log_sample = (bss_state sample_layout)\<lparr>cur := Some 0,
     klog := \<lparr>lg_start = 2, lg_outstanding = 1, lg_committing = False, lg_dev = ROOTDEV, lh_n = 1,
       lh_block = 45 # replicate 29 0\<rparr>,
     bufs := (bufs (bss_state sample_layout))(4 := zero_buf\<lparr>b_dev := 1, b_blockno := 46, b_refcnt := 1\<rparr>)\<rparr>"

theorem log_write_absorbs_witness:
  "\<exists>s'. log_write 4 log_sample = Done () s' \<and> log_blocks (klog s') = [45, 46]"
proof -
  have b: "b_blockno (bufs log_sample 4) = 46" "log_blocks (klog log_sample) = [45]"
    by (simp_all add: log_sample_def log_blocks_def)
  have "tx_active log_sample = Done False log_sample" "LogLock \<notin> held log_sample" "BcacheLock \<notin> held log_sample"
    "log_wf (klog log_sample)" "lh_n (klog log_sample) < int LOGBLOCKS" "1 \<le> lg_outstanding (klog log_sample)"
    by (simp_all add: kdefs log_sample_def bss_state_def zero_proc_def log_wf_def log_blocks_def)
  then show ?thesis using log_write_absorbs [of log_sample 4] b by auto
qed

end
