(* ===== verification/Logspace.thy ===== *)
theory Logspace
  imports Log
begin

text \<open>
  The reservation of log space by \<open>begin_op\<close>.

  \<open>op_step\<close> interleaves any number of file-system operations: each starts with \<open>begin_op\<close>, which returns at once
  or after any number of sleeps (\<open>begin_op_resume\<close>; a call that goes to sleep leaves the log alone), makes at most
  \<open>MAXOPBLOCKS\<close> calls of \<open>log_write\<close>, and ends with \<open>end_op\<close>, which commits when it is the last one.
  Between these calls anything may happen that leaves the in-memory log alone. The budget map says which
  operations are running and how many calls of \<open>log_write\<close> each has left.
\<close>

section \<open>What leaves the in-memory log alone\<close>

definition log_same :: "klog \<Rightarrow> kstate \<Rightarrow> bool" where
  "log_same k s \<longleftrightarrow> klog s = k"

lemma keeps_case_lock:
  "(\<And>b. keeps I (f b)) \<Longrightarrow> (\<And>i. keeps I (g i)) \<Longrightarrow> keeps I (case l of SLBuf b \<Rightarrow> f b | SLInode i \<Rightarrow> g i)"
  by (cases l) auto

lemma log_same_basic [intro!]:
  "keeps (log_same k) (upd_buf b f)" "keeps (log_same k) (upd_inode i g)" "keeps (log_same k) (upd_proc i h)"
  "keeps (log_same k) (acquire l)" "keeps (log_same k) (release l)" "keeps (log_same k) (holding l)"
  "keeps (log_same k) (get_bdata pa)" "keeps (log_same k) (put_obj pa ob)" "keeps (log_same k) (printk m as)"
  "keeps (log_same k) (nth_k xs j)" "keeps (log_same k) (get_buf b)" "keeps (log_same k) myproc"
  by (auto simp: keeps_def log_same_def kdefs split: option.splits kobj.splits)

lemma log_same_this_proc [intro!]: "keeps (log_same k) this_proc"
  unfolding this_proc_def by (auto intro!: keeps_option)

lemma log_same_sched [intro!]: "keeps (log_same k) sched"
  unfolding sched_def by (auto simp: keeps_def [of _ "\<lambda>s. Sleep s"])

lemma log_same_sleep [intro!]: "keeps (log_same k) (sleep c l)"
  unfolding sleep_def by auto

lemma log_same_wakeup [intro!]: "keeps (log_same k) (wakeup c)"
  unfolding wakeup_def wakeup_one_def by (auto intro!: keeps_for_each)

lemma log_same_sl [intro!]: "keeps (log_same k) (get_sl l)" "keeps (log_same k) (put_sl l v)"
  unfolding get_sl_def put_sl_def by (auto intro: keeps_case_lock)

lemma log_same_sleeplock [intro!]:
  "keeps (log_same k) (acquiresleep l)" "keeps (log_same k) (releasesleep l)" "keeps (log_same k) (holdingsleep l)"
  unfolding acquiresleep_def releasesleep_def holdingsleep_def by auto

lemma log_same_scan [intro!]:
  "keeps (log_same k) (bget_cached n b d j)" "keeps (log_same k) (bget_unused n b)"
  by (induction n arbitrary: b) auto

lemma log_same_disk_rw [intro!]: "keeps (log_same k) (disk_rw b w)"
  unfolding disk_rw_def by (auto intro!: keeps_modk simp: log_same_def)

lemma log_same_bio [intro!]:
  "keeps (log_same k) (bget d j)" "keeps (log_same k) (bwrite b)" "keeps (log_same k) (brelse_front b)"
  "keeps (log_same k) (bpin b)" "keeps (log_same k) (bunpin b)"
  unfolding bget_def bwrite_def brelse_front_def bpin_def bunpin_def by (auto intro!: keeps_option)

lemma log_same_bread [intro!]: "keeps (log_same k) (bread d j)" "keeps (log_same k) (brelse b)"
  unfolding bread_def brelse_def by auto

lemma log_same_data [intro!]: "keeps (log_same k) (get_data b)" "keeps (log_same k) (put_data b bs)"
  unfolding get_data_def put_data_def by auto

lemma log_same_log [intro!]:
  "keeps (log_same k) (write_log_one i)" "keeps (log_same k) (install_one r i)" "keeps (log_same k) write_head"
  unfolding write_log_one_def install_one_def write_head_def by (auto intro!: keeps_for_each)

lemma log_same_loops [intro!]: "keeps (log_same k) write_log" "keeps (log_same k) (install_trans r)"
  unfolding write_log_def install_trans_def by (auto intro!: keeps_for_each)

lemma log_sameD: "keeps (log_same (klog s)) m \<Longrightarrow> m s = Done a s' \<Longrightarrow> klog s' = klog s"
  using keeps_Done [of "log_same (klog s)" m s a s'] by (simp add: log_same_def)

lemma commit_klog:
  assumes "commit s = Done () s'"
  shows "klog s' = (if 0 < lh_n (klog s) then (klog s)\<lparr>lh_n := 0\<rparr> else klog s)"
proof (cases "0 < lh_n (klog s)")
  case False
  then show ?thesis using assms by (simp add: commit_def bnd_def getk_def whenk_def ret_def)
next
  case True
  then obtain s1 s2 s3 where s: "write_log s = Done () s1" "write_head s1 = Done () s2" "install_trans False s2 = Done () s3"
    "write_head (s3\<lparr>klog := (klog s3)\<lparr>lh_n := 0\<rparr>\<rparr>) = Done () s'"
    using assms by (auto simp: commit_def bnd_def sq_def getk_def whenk_def upd_log_def modk_def split: outcome.splits)
  have "klog s1 = klog s" "klog s2 = klog s1" "klog s3 = klog s2"
    using log_sameD [of s write_log "()" s1] log_sameD [of s1 write_head "()" s2]
      log_sameD [of s2 "install_trans False" "()" s3] s by auto
  moreover have "klog s' = (klog s3)\<lparr>lh_n := 0\<rparr>"
    using log_sameD [of "s3\<lparr>klog := (klog s3)\<lparr>lh_n := 0\<rparr>\<rparr>" write_head "()" s'] s(4) by auto
  ultimately show ?thesis using True by simp
qed

lemma begin_try_klog:
  assumes "begin_try s = Done () s'"
  shows "klog s' = (klog s)\<lparr>lg_outstanding := lg_outstanding (klog s) + 1\<rparr>"
    and "lh_n (klog s) + (lg_outstanding (klog s) + 1) * int MAXOPBLOCKS \<le> int LOGBLOCKS"
proof -
  have ns: "sleep c l t \<noteq> Done () u" for c l t u
    by (auto simp: sleep_def sched_def bnd_def sq_def panic_def split: outcome.splits if_splits)
  show "klog s' = (klog s)\<lparr>lg_outstanding := lg_outstanding (klog s) + 1\<rparr>"
    "lh_n (klog s) + (lg_outstanding (klog s) + 1) * int MAXOPBLOCKS \<le> int LOGBLOCKS"
    using ns assms by (auto simp: begin_try_def bnd_def sq_def getk_def upd_log_def modk_def release_def holding_def ret_def panic_def
      split: if_splits)
qed

text \<open>Both the first attempt and those after a sleep go through \<open>begin_try\<close> on an unchanged log.\<close>

lemma begin_op_try:
  assumes "begin_op s = Done () s' \<and> tx_active s = Done False s \<or> begin_op_resume s = Done () s'"
  obtains s1 where "begin_try s1 = Done () s'" "klog s1 = klog s"
proof -
  have "\<exists>s1. begin_try s1 = Done () s' \<and> klog s1 = klog s"
    using assms
  proof (elim disjE conjE)
    assume "begin_op s = Done () s'" "tx_active s = Done False s"
    then have "begin_try (s\<lparr>held := insert LogLock (held s)\<rparr>) = Done () s'"
      by (auto simp: begin_op_def bnd_def sq_def acquire_def holding_def getk_def modk_def ret_def panic_def
          split: outcome.splits if_splits)
    then show ?thesis by (intro exI [of _ "s\<lparr>held := insert LogLock (held s)\<rparr>"]) simp
  next
    assume "begin_op_resume s = Done () s'"
    then obtain s1 where "sleep_resume LogLock s = Done () s1" "begin_try s1 = Done () s'"
      by (auto simp: begin_op_resume_def sq_def bnd_def split: outcome.splits)
    moreover from this(1) have "klog s1 = klog s"
      by (auto simp: kdefs split: outcome.splits if_splits option.splits)
    ultimately show ?thesis by blast
  qed
  then show ?thesis using that by blast
qed

lemma log_write_klog:
  assumes "log_write b s = Done () s'" and "tx_active s = Done False s"
  shows "lg_outstanding (klog s') = lg_outstanding (klog s)"
    and "lh_n (klog s') = lh_n (klog s) \<or> lh_n (klog s') = lh_n (klog s) + 1"
  using assms
  by (auto simp: log_write_def bpin_def bnd_def sq_def getk_def get_buf_def upd_log_def upd_buf_def modk_def whenk_def
      ret_def Let_def acquire_def release_def holding_def panic_def split: if_splits outcome.splits)

lemma end_op_klog:
  assumes "end_op s = Done () s'" and "tx_active s = Done False s"
  shows "lg_outstanding (klog s') = lg_outstanding (klog s) - 1"
    and "lh_n (klog s') = lh_n (klog s) \<or> 0 < lh_n (klog s) \<and> lh_n (klog s') = 0"
proof -
  let ?s1 = "s\<lparr>held := insert LogLock (held s), klog := lg_outstanding_update (\<lambda>n. n - 1) (klog s)\<rparr>"
  have l: "LogLock \<notin> held s" and nc: "\<not> lg_committing (klog s)"
    using assms by (auto simp: end_op_def bnd_def sq_def acquire_def holding_def getk_def modk_def ret_def panic_def
        upd_log_def split: if_splits)
  have "lg_outstanding (klog s') = lg_outstanding (klog s) - 1 \<and>
    (lh_n (klog s') = lh_n (klog s) \<or> 0 < lh_n (klog s) \<and> lh_n (klog s') = 0)"
  proof (cases "lg_outstanding (klog s) = 1")
    case False
    then obtain s2 where s2: "wakeup ChLog ?s1 = Done () s2" "release LogLock s2 = Done () s'"
      using assms l nc by (auto simp: end_op_def bnd_def sq_def getk_def upd_log_def modk_def whenk_def ret_def
          split: outcome.splits)
    have "klog s2 = klog ?s1" "klog s' = klog s2"
      using log_sameD [of ?s1 "wakeup ChLog" "()" s2] log_sameD [of s2 "release LogLock" "()" s'] s2 by auto
    then show ?thesis by simp
  next
    case True
    let ?s2 = "s\<lparr>klog := (lg_outstanding_update (\<lambda>n. n - 1) (klog s))\<lparr>lg_committing := True\<rparr>\<rparr>"
    obtain s3 s4 s5 s6 where s: "commit ?s2 = Done () s3" "acquire LogLock s3 = Done () s4"
      "wakeup ChLog (s4\<lparr>klog := (klog s4)\<lparr>lg_committing := False\<rparr>\<rparr>) = Done () s5" "release LogLock s5 = Done () s'"
      using assms l nc True by (auto simp: end_op_def bnd_def sq_def getk_def upd_log_def modk_def whenk_def ret_def
          split: outcome.splits)
    have "klog s4 = klog s3" "klog s5 = (klog s4)\<lparr>lg_committing := False\<rparr>" "klog s' = klog s5"
      using log_sameD [of s3 "acquire LogLock" "()" s4] log_sameD [of s5 "release LogLock" "()" s']
        log_sameD [of "s4\<lparr>klog := (klog s4)\<lparr>lg_committing := False\<rparr>\<rparr>" "wakeup ChLog" "()" s5] s by auto
    then show ?thesis using commit_klog [OF s(1)] True by auto
  qed
  then show "lg_outstanding (klog s') = lg_outstanding (klog s) - 1"
    "lh_n (klog s') = lh_n (klog s) \<or> 0 < lh_n (klog s) \<and> lh_n (klog s') = 0" by simp_all
qed

section \<open>Interleaved operations\<close>

inductive op_step :: "kstate \<times> (nat \<Rightarrow> nat option) \<Rightarrow> kstate \<times> (nat \<Rightarrow> nat option) \<Rightarrow> bool" where
  op_begin: "B p = None \<Longrightarrow> cur s = Some p \<Longrightarrow> tx_active s = Done False s \<Longrightarrow> begin_op s = Done () s' \<Longrightarrow>
    op_step (s, B) (s', B(p \<mapsto> MAXOPBLOCKS))"
| op_resume: "B p = None \<Longrightarrow> cur s = Some p \<Longrightarrow> begin_op_resume s = Done () s' \<Longrightarrow> op_step (s, B) (s', B(p \<mapsto> MAXOPBLOCKS))"
| op_write: "B p = Some (Suc k) \<Longrightarrow> cur s = Some p \<Longrightarrow> tx_active s = Done False s \<Longrightarrow> log_write b s = Done () s' \<Longrightarrow>
    op_step (s, B) (s', B(p \<mapsto> k))"
| op_end: "B p = Some k \<Longrightarrow> cur s = Some p \<Longrightarrow> tx_active s = Done False s \<Longrightarrow> end_op s = Done () s' \<Longrightarrow>
    op_step (s, B) (s', B(p := None))"
| op_other: "klog s' = klog s \<Longrightarrow> op_step (s, B) (s', B)"

inductive op_reach :: "kstate \<times> (nat \<Rightarrow> nat option) \<Rightarrow> bool" where
  op_start: "lh_n (klog s) = 0 \<Longrightarrow> lg_outstanding (klog s) = 0 \<Longrightarrow> op_reach (s, \<lambda>_. None)"
| op_next: "op_reach x \<Longrightarrow> op_step x y \<Longrightarrow> op_reach y"

definition budget :: "(nat \<Rightarrow> nat option) \<Rightarrow> nat" where
  "budget B = (\<Sum>p \<in> dom B. the (B p))"

definition space_inv :: "kstate \<Rightarrow> (nat \<Rightarrow> nat option) \<Rightarrow> bool" where
  "space_inv s B \<longleftrightarrow> finite (dom B) \<and> lg_outstanding (klog s) = int (card (dom B)) \<and> 0 \<le> lh_n (klog s) \<and>
     (\<forall>p k. B p = Some k \<longrightarrow> k \<le> MAXOPBLOCKS) \<and> lh_n (klog s) + int (budget B) \<le> int LOGBLOCKS"

lemma budget_upd: "finite (dom B) \<Longrightarrow> budget (B(p \<mapsto> k)) = k + budget (B(p := None))"
proof -
  assume fin: "finite (dom B)"
  have d: "dom (B(p \<mapsto> k)) = insert p (dom B - {p})" "dom (B(p := None)) = dom B - {p}" by auto
  show ?thesis
    unfolding budget_def d using fin by (subst sum.insert) (auto intro: sum.cong)
qed

lemma budget_le: "finite (dom B) \<Longrightarrow> (\<forall>p k. B p = Some k \<longrightarrow> k \<le> m) \<Longrightarrow> budget B \<le> card (dom B) * m"
  unfolding budget_def by (rule order_trans [OF sum_bounded_above [of "dom B" "\<lambda>p. the (B p)" m]]) auto

lemma space_inv_begin:
  assumes inv: "space_inv s B" and p: "B p = None" and b: "begin_op s = Done () s' \<and> tx_active s = Done False s \<or> begin_op_resume s = Done () s'"
  shows "space_inv s' (B(p \<mapsto> MAXOPBLOCKS))"
proof -
  have I: "finite (dom B)" "lg_outstanding (klog s) = int (card (dom B))" "0 \<le> lh_n (klog s)"
    "\<forall>p k. B p = Some k \<longrightarrow> k \<le> MAXOPBLOCKS"
    using inv by (auto simp: space_inv_def)
  let ?B = "B(p \<mapsto> MAXOPBLOCKS)"
  obtain s1 where "begin_try s1 = Done () s'" "klog s1 = klog s" using begin_op_try [OF b] .
  note k = begin_try_klog [OF this(1), unfolded this(2)]
  have "card (dom ?B) = Suc (card (dom B))" using I(1) p by (simp add: domIff)
  moreover have "budget ?B = MAXOPBLOCKS + budget B"
    using budget_upd [OF I(1), of p MAXOPBLOCKS] p by (simp add: fun_upd_idem)
  moreover have "finite (dom ?B)" "\<forall>p k. ?B p = Some k \<longrightarrow> k \<le> MAXOPBLOCKS" using I(1,4) by auto
  ultimately show ?thesis
    using I k budget_le [OF I(1,4)] by (simp add: space_inv_def)
qed

lemma space_inv_step:
  assumes "op_step (s, B) (s', B')" and inv: "space_inv s B"
  shows "space_inv s' B'"
proof -
  have I: "finite (dom B)" "lg_outstanding (klog s) = int (card (dom B))" "0 \<le> lh_n (klog s)"
    "\<forall>p k. B p = Some k \<longrightarrow> k \<le> MAXOPBLOCKS" "lh_n (klog s) + int (budget B) \<le> int LOGBLOCKS"
    using inv by (auto simp: space_inv_def)
  show ?thesis
    using assms(1)
  proof (cases rule: op_step.cases)
    case (op_begin p)
    then show ?thesis using space_inv_begin [OF inv] by blast
  next
    case (op_resume p)
    then show ?thesis using space_inv_begin [OF inv] by blast
  next
    case (op_write p k b)
    then have h: "B' = B(p \<mapsto> k)" "B p = Some (Suc k)" "tx_active s = Done False s" "log_write b s = Done () s'"
      by auto
    have "budget B = Suc k + budget (B(p := None))" "budget B' = k + budget (B(p := None))"
      using budget_upd [OF I(1), of p] h(1,2) by (metis fun_upd_triv, simp)
    moreover have "Suc k \<le> MAXOPBLOCKS" using I(4) h(2) by blast
    then have "dom B' = dom B" "\<forall>p k. B' p = Some k \<longrightarrow> k \<le> MAXOPBLOCKS"
      using I(4) h(1,2) by (auto split: if_splits)
    ultimately show ?thesis
      using I log_write_klog [OF h(4,3)] by (auto simp: space_inv_def)
  next
    case (op_end p k)
    then have h: "B' = B(p := None)" "B p = Some k" "tx_active s = Done False s" "end_op s = Done () s'"
      by auto
    have "budget B = k + budget B'"
      using budget_upd [OF I(1), of p] h(1,2) by (metis fun_upd_triv)
    moreover have "card (dom B) = Suc (card (dom B'))"
      using I(1) h(1,2) card_Suc_Diff1 [OF I(1), of p] by (auto simp: domI)
    moreover have "finite (dom B')" "\<forall>p k. B' p = Some k \<longrightarrow> k \<le> MAXOPBLOCKS"
      using I(1,4) h(1) by (auto split: if_splits)
    ultimately show ?thesis
      using I end_op_klog [OF h(4,3)] by (auto simp: space_inv_def)
  next
    case op_other
    then show ?thesis using inv by (simp add: space_inv_def)
  qed
qed

lemma op_reach_inv: "op_reach x \<Longrightarrow> space_inv (fst x) (snd x)"
proof (induction rule: op_reach.induct)
  case (op_start s)
  then show ?case by (simp add: space_inv_def budget_def)
next
  case (op_next x y)
  then show ?case using space_inv_step by (metis prod.collapse)
qed

text \<open>C2. However many file-system operations run at once, as long as each makes at most \<open>MAXOPBLOCKS\<close> calls of
  \<open>log_write\<close> between its \<open>begin_op\<close>, which may have slept, and its \<open>end_op\<close>, the log never overflows: the space that \<open>begin_op\<close>
  reserved is there, and \<open>log_write\<close> raises neither of its panics.\<close>

theorem log_space_suffices:
  assumes "op_reach (s, B)" and "B p = Some (Suc k)"
  shows "lh_n (klog s) < int LOGBLOCKS \<and> 1 \<le> lg_outstanding (klog s) \<and>
    log_write b s \<noteq> Panic ''too big a transaction'' \<and> log_write b s \<noteq> Panic ''log_write outside of trans''"
proof -
  have I: "space_inv s B" using op_reach_inv [OF assms(1)] by simp
  then have fin: "finite (dom B)" by (simp add: space_inv_def)
  have "Suc k \<le> budget B" using budget_upd [OF fin, of p "Suc k"] assms(2) by (metis fun_upd_triv le_add1)
  moreover have "0 < card (dom B)" using fin assms(2) by (auto simp: card_gt_0_iff)
  ultimately have b: "lh_n (klog s) < int LOGBLOCKS" "1 \<le> lg_outstanding (klog s)" using I by (auto simp: space_inv_def)
  then show ?thesis
    by (auto simp: log_write_def tx_active_def this_proc_def myproc_def get_tx_def bpin_def bnd_def sq_def getk_def get_buf_def
        upd_log_def upd_buf_def modk_def whenk_def ret_def fault_def Let_def acquire_def release_def holding_def panic_def
        split: if_splits outcome.splits option.splits kobj.splits)
qed

theorem log_space_suffices_witness:
  "\<exists>s s'. op_reach (s, [0 \<mapsto> MAXOPBLOCKS]) \<and> lh_n (klog s) < int LOGBLOCKS \<and> lg_outstanding (klog s) = 1"
proof -
  let ?s = "(bss_state sample_layout)\<lparr>cur := Some 0\<rparr>"
  have "op_reach (?s, \<lambda>_. None)" by (rule op_start) (simp_all add: bss_state_def)
  moreover have "op_step (?s, \<lambda>_. None) (?s\<lparr>klog := (klog ?s)\<lparr>lg_outstanding := 1\<rparr>\<rparr>, [0 \<mapsto> MAXOPBLOCKS])"
    by (rule op_begin) (auto simp: kdefs begin_op_def bss_state_def zero_proc_def intro!: kstate.equality klog.equality)
  ultimately have r: "op_reach (?s\<lparr>klog := (klog ?s)\<lparr>lg_outstanding := 1\<rparr>\<rparr>, [0 \<mapsto> MAXOPBLOCKS])" by (rule op_next)
  show ?thesis using log_space_suffices [OF r, of 0 9] r by auto
qed

end
