(* ===== verification/Strings.thy ===== *)
theory Strings
  imports Prelude
begin

text \<open>
  The string and memory routines, \<open>string.c\<close> of the kernel and \<open>ulib.c\<close> of the user library.

  Memory is a function from addresses to bytes. The arguments of these routines lie inside objects, so that
  addresses are natural numbers and pointer arithmetic does not wrap. A loop bounded by a count is structural
  recursion on it; a loop that ends at a NUL byte is a partial function, and \<open>None\<close> means that it does not
  return. \<open>char\<close> is unsigned on this machine.
\<close>

type_synonym mem = "nat \<Rightarrow> u8"

section \<open>Memory\<close>

primrec memset :: "nat \<Rightarrow> u8 \<Rightarrow> nat \<Rightarrow> mem \<Rightarrow> mem" where
  "memset dst c 0 m = m"
| "memset dst c (Suc n) m = (memset dst c n m)(dst + n := c)"

primrec memcmp :: "nat \<Rightarrow> nat \<Rightarrow> nat \<Rightarrow> mem \<Rightarrow> int" where
  "memcmp v1 v2 0 m = 0"
| "memcmp v1 v2 (Suc n) m =
    (if m v1 \<noteq> m v2 then uint (m v1) - uint (m v2) else memcmp (v1 + 1) (v2 + 1) n m)"

primrec copy_up :: "nat \<Rightarrow> nat \<Rightarrow> nat \<Rightarrow> mem \<Rightarrow> mem" where
  "copy_up d s 0 m = m"
| "copy_up d s (Suc n) m = copy_up (d + 1) (s + 1) n (m(d := m s))"

text \<open>The loop \<open>*--d = *--s\<close>, from \<open>d + n\<close> and \<open>s + n\<close> downwards.\<close>

primrec copy_down :: "nat \<Rightarrow> nat \<Rightarrow> nat \<Rightarrow> mem \<Rightarrow> mem" where
  "copy_down d s 0 m = m"
| "copy_down d s (Suc n) m = copy_down d s n (m(d + n := m (s + n)))"

definition memmove :: "nat \<Rightarrow> nat \<Rightarrow> nat \<Rightarrow> mem \<Rightarrow> mem" where
  "memmove dst src n m =
    (if n = 0 then m
     else if src < dst \<and> src + n > dst then copy_down dst src n m
     else copy_up dst src n m)"

definition memcpy :: "nat \<Rightarrow> nat \<Rightarrow> nat \<Rightarrow> mem \<Rightarrow> mem" where
  "memcpy dst src n m = memmove dst src n m"

definition memmove_user :: "nat \<Rightarrow> nat \<Rightarrow> int \<Rightarrow> mem \<Rightarrow> mem" where
  "memmove_user vdst vsrc n m =
    (if vsrc > vdst then copy_up vdst vsrc (nat n) m else copy_down vdst vsrc (nat n) m)"

section \<open>Strings\<close>

primrec strncmp :: "nat \<Rightarrow> nat \<Rightarrow> nat \<Rightarrow> mem \<Rightarrow> int" where
  "strncmp p q 0 m = 0"
| "strncmp p q (Suc n) m =
    (if m p \<noteq> 0 \<and> m p = m q then strncmp (p + 1) (q + 1) n m else uint (m p) - uint (m q))"

primrec strncpy :: "nat \<Rightarrow> nat \<Rightarrow> nat \<Rightarrow> mem \<Rightarrow> mem" where
  "strncpy s t 0 m = m"
| "strncpy s t (Suc n) m =
    (let m' = m(s := m t) in
     if m t \<noteq> 0 then strncpy (s + 1) (t + 1) n m' else memset (s + 1) 0 n m')"

text \<open>The loop of \<open>safestrcpy\<close> with \<open>n\<close> bytes left; the last one is kept for the NUL.\<close>

primrec safestrcpy_loop :: "nat \<Rightarrow> nat \<Rightarrow> nat \<Rightarrow> mem \<Rightarrow> mem" where
  "safestrcpy_loop s t 0 m = m(s := 0)"
| "safestrcpy_loop s t (Suc n) m =
    (let m' = m(s := m t) in
     if m t \<noteq> 0 then safestrcpy_loop (s + 1) (t + 1) n m' else m'(s + 1 := 0))"

definition safestrcpy :: "nat \<Rightarrow> nat \<Rightarrow> int \<Rightarrow> mem \<Rightarrow> mem" where
  "safestrcpy s t n m = (if n \<le> 0 then m else safestrcpy_loop s t (nat n - 1) m)"

partial_function (option) strlen_loop :: "nat \<Rightarrow> nat \<Rightarrow> mem \<Rightarrow> nat option" where
  "strlen_loop s n m = (if m (s + n) = 0 then Some n else strlen_loop s (n + 1) m)"

definition strlen :: "nat \<Rightarrow> mem \<Rightarrow> nat option" where
  "strlen s m = strlen_loop s 0 m"

partial_function (option) strcpy :: "nat \<Rightarrow> nat \<Rightarrow> mem \<Rightarrow> mem option" where
  "strcpy s t m =
    (let m' = m(s := m t) in if m t \<noteq> 0 then strcpy (s + 1) (t + 1) m' else Some m')"

partial_function (option) strcmp :: "nat \<Rightarrow> nat \<Rightarrow> mem \<Rightarrow> int option" where
  "strcmp p q m =
    (if m p \<noteq> 0 \<and> m p = m q then strcmp (p + 1) (q + 1) m else Some (uint (m p) - uint (m q)))"

text \<open>The address of the byte found, or \<open>None\<close> inside for the null pointer.\<close>

partial_function (option) strchr :: "nat \<Rightarrow> u8 \<Rightarrow> mem \<Rightarrow> nat option option" where
  "strchr s c m =
    (if m s = 0 then Some None else if m s = c then Some (Some s) else strchr (s + 1) c m)"

partial_function (option) atoi_loop :: "nat \<Rightarrow> 32 word \<Rightarrow> mem \<Rightarrow> 32 word option" where
  "atoi_loop s n m =
    (if 48 \<le> m s \<and> m s \<le> 57 then atoi_loop (s + 1) (n * 10 + ucast (m s) - 48) m else Some n)"

definition atoi :: "nat \<Rightarrow> mem \<Rightarrow> int option" where
  "atoi s m = map_option sint (atoi_loop s 0 m)"

text \<open>\<open>gets\<close>: the results of \<open>read(0, &c, 1)\<close> are the bytes \<open>inp\<close>, and a read after the last one
  fails or meets the end of the file.\<close>

fun gets_loop :: "nat \<Rightarrow> nat \<Rightarrow> int \<Rightarrow> u8 list \<Rightarrow> mem \<Rightarrow> mem" where
  "gets_loop buf i mx inp m =
    (if int i + 1 < mx then
       (case inp of
          [] \<Rightarrow> m(buf + i := 0)
        | c # rest \<Rightarrow>
            let m' = m(buf + i := c) in
            if c = 10 \<or> c = 13 then m'(buf + i + 1 := 0) else gets_loop buf (i + 1) mx rest m')
     else m(buf + i := 0))"

definition gets :: "nat \<Rightarrow> int \<Rightarrow> u8 list \<Rightarrow> mem \<Rightarrow> mem" where
  "gets buf mx inp m = gets_loop buf 0 mx inp m"

section \<open>Moving memory\<close>

lemma copy_up_eq:
  "d \<le> s \<or> s + n \<le> d \<Longrightarrow> copy_up d s n m = (\<lambda>a. if d \<le> a \<and> a < d + n then m (s + (a - d)) else m a)"
proof (induction n arbitrary: d s m)
  case (Suc n)
  have "copy_up (d + 1) (s + 1) n (m(d := m s)) =
    (\<lambda>a. if d + 1 \<le> a \<and> a < d + 1 + n then (m(d := m s)) (s + 1 + (a - (d + 1))) else (m(d := m s)) a)"
    using Suc.prems by (intro Suc.IH) auto
  then show ?case using Suc.prems by (simp add: fun_eq_iff Suc_diff_Suc) (auto simp: Suc_diff_Suc)
qed (auto simp: fun_eq_iff)

lemma copy_down_eq:
  "s \<le> d \<or> d + n \<le> s \<Longrightarrow> copy_down d s n m = (\<lambda>a. if d \<le> a \<and> a < d + n then m (s + (a - d)) else m a)"
proof (induction n arbitrary: m)
  case (Suc n)
  have "copy_down d s n (m(d + n := m (s + n))) =
    (\<lambda>a. if d \<le> a \<and> a < d + n then (m(d + n := m (s + n))) (s + (a - d)) else (m(d + n := m (s + n))) a)"
    using Suc.prems by (intro Suc.IH) auto
  then show ?case using Suc.prems by (auto simp: fun_eq_iff less_Suc_eq)
qed (auto simp: fun_eq_iff)

text \<open>C18. \<open>memmove\<close> copies as if through a temporary buffer, whether the areas overlap or not: every byte of
  the destination is the byte the source had before, and nothing else changes. The kernel's and the user
  library's implementation, which choose the direction differently, agree.\<close>

theorem memmove_correct:
  "memmove dst src n m = (\<lambda>a. if dst \<le> a \<and> a < dst + n then m (src + (a - dst)) else m a) \<and>
   memmove_user dst src (int n) m = memmove dst src n m"
  by (auto simp: memmove_def memmove_user_def copy_up_eq copy_down_eq fun_eq_iff)

section \<open>What the string routines compute\<close>

text \<open>\<open>cstr m p xs\<close>: the bytes \<open>xs\<close> and a NUL are stored at \<open>p\<close>.\<close>

fun cstr :: "mem \<Rightarrow> nat \<Rightarrow> u8 list \<Rightarrow> bool" where
  "cstr m p [] \<longleftrightarrow> m p = 0"
| "cstr m p (x # xs) \<longleftrightarrow> m p = x \<and> x \<noteq> 0 \<and> cstr m (p + 1) xs"

lemma cstr_upd [simp]: "a < p \<or> p + length xs < a \<Longrightarrow> cstr (m(a := v)) p xs = cstr m p xs"
  by (induction xs arbitrary: p) auto

lemma cstr_unique: "cstr m p xs \<Longrightarrow> cstr m p ys \<Longrightarrow> xs = ys"
proof (induction xs arbitrary: p ys)
  case Nil
  then show ?case by (cases ys) auto
next
  case (Cons x xs)
  then show ?case by (cases ys) auto
qed

lemma strlen_loop_eq: "cstr m (s + n) xs \<Longrightarrow> strlen_loop s n m = Some (n + length xs)"
  by (induction xs arbitrary: n; subst strlen_loop.simps) (auto simp: add.assoc)

lemma strlen_eq: "cstr m s xs \<Longrightarrow> strlen s m = Some (length xs)"
  using strlen_loop_eq [of m s 0 xs] by (simp add: strlen_def)

lemma strcmp_zero_iff: "cstr m p xs \<Longrightarrow> cstr m q ys \<Longrightarrow> \<exists>r. strcmp p q m = Some r \<and> (r = 0 \<longleftrightarrow> xs = ys)"
proof (induction xs arbitrary: p q ys)
  case Nil
  then show ?case by (cases ys) (auto simp: strcmp.simps [of p] uint_0_iff)
next
  case (Cons x xs)
  then show ?case
    by (cases ys) (auto simp: strcmp.simps [of p] word_uint_eq_iff)
qed

lemma strncmp_zero_iff: "cstr m p xs \<Longrightarrow> cstr m q ys \<Longrightarrow> strncmp p q n m = 0 \<longleftrightarrow> take n xs = take n ys"
proof (induction n arbitrary: p q xs ys)
  case (Suc n)
  then show ?case by (cases xs; cases ys) (auto simp: word_uint_eq_iff)
qed simp

lemma memset_eq: "memset d c n m = (\<lambda>a. if d \<le> a \<and> a < d + n then c else m a)"
  by (induction n) (auto simp: fun_eq_iff)

lemma safestrcpy_loop_ok:
  "cstr m t xs \<Longrightarrow> s + n < t \<or> t + length xs < s \<Longrightarrow>
   cstr (safestrcpy_loop s t n m) s (take n xs) \<and>
   (\<forall>a. a < s \<or> s + n < a \<longrightarrow> safestrcpy_loop s t n m a = m a)"
proof (induction n arbitrary: s t xs m)
  case (Suc n)
  show ?case
  proof (cases xs)
    case Nil
    then show ?thesis using Suc.prems by (auto simp: Let_def)
  next
    case (Cons x ys)
    have c: "cstr (m(s := x)) (t + 1) ys" using Suc.prems Cons by auto
    have "cstr (safestrcpy_loop (s + 1) (t + 1) n (m(s := x))) (s + 1) (take n ys) \<and>
      (\<forall>a. a < s + 1 \<or> s + 1 + n < a \<longrightarrow> safestrcpy_loop (s + 1) (t + 1) n (m(s := x)) a = (m(s := x)) a)"
      using Suc.prems Cons by (intro Suc.IH c) auto
    then show ?thesis using Suc.prems Cons by (auto simp: Let_def)
  qed
qed auto

text \<open>C23. \<open>safestrcpy\<close> of a string into a disjoint buffer of \<open>n > 0\<close> bytes always leaves a terminated string
  there, the longest prefix that fits, and writes nothing outside the buffer.\<close>

theorem safestrcpy_terminates:
  assumes "cstr m t xs" and "0 < n" and "s + nat n \<le> t \<or> t + length xs < s"
  shows "cstr (safestrcpy s t n m) s (take (nat n - 1) xs) \<and>
    (\<forall>a. a < s \<or> s + nat n \<le> a \<longrightarrow> safestrcpy s t n m a = m a)"
  using safestrcpy_loop_ok [OF assms(1), of s "nat n - 1"] assms by (auto simp: safestrcpy_def)

definition hello_mem :: mem where
  "hello_mem = (\<lambda>a. if a < 5 then of_nat (104 + a) else 0)"

theorem safestrcpy_terminates_witness:
  "cstr hello_mem 0 [104, 105, 106, 107, 108] \<and>
   cstr (safestrcpy 100 0 4 hello_mem) 100 [104, 105, 106]"
proof -
  have c: "cstr hello_mem 0 [104, 105, 106, 107, 108]" by (simp add: hello_mem_def)
  show ?thesis using c safestrcpy_terminates [OF c, of 4 100] by simp
qed

text \<open>C24. On terminated strings \<open>strlen\<close>, \<open>strcmp\<close> and \<open>strncmp\<close> return; \<open>strlen\<close> gives the length, and the
  comparisons give 0 exactly on equal strings, respectively on strings with the same first \<open>n\<close> bytes.\<close>

theorem string_compare_correct:
  assumes "cstr m p xs" and "cstr m q ys"
  shows "strlen p m = Some (length xs) \<and> (\<exists>r. strcmp p q m = Some r \<and> (r = 0 \<longleftrightarrow> xs = ys)) \<and>
    (strncmp p q n m = 0 \<longleftrightarrow> take n xs = take n ys)"
  using strlen_eq strcmp_zero_iff strncmp_zero_iff assms by blast

theorem string_compare_correct_witness:
  "strlen 0 hello_mem = Some 5 \<and> (\<exists>r. strcmp 0 2 hello_mem = Some r \<and> r \<noteq> 0)"
proof -
  have "cstr hello_mem 0 [104, 105, 106, 107, 108]" "cstr hello_mem 2 [106, 107, 108]" by (simp_all add: hello_mem_def)
  from string_compare_correct [OF this, of 0] show ?thesis by simp
qed

end
