(* ===== verification/Printf.thy ===== *)
theory Printf
  imports Kernel Strings
begin

text \<open>
  Formatted output: \<open>printf\<close> of the kernel and \<open>vprintf\<close> of the user library, each translated from its own source.
  Both are functions from a format and its arguments to the bytes that are printed, in order, and \<open>None\<close> is an
  argument that is missing or of the wrong kind. The two differ in their table of digits, in the loop over the format
  (the kernel looks ahead, the library keeps a state) and in what they call per character: \<open>consputc\<close> prints three
  bytes for the value \<open>BACKSPACE\<close>. Not modelled here is that \<open>printf\<close> holds the lock \<open>pr.lock\<close> unless the kernel is
  panicking; it only keeps the output of several CPUs apart.
\<close>

section \<open>Operations\<close>

definition bytes_of :: "string \<Rightarrow> u8 list" where
  "bytes_of s = map (\<lambda>c. of_nat (of_char c)) s"

definition digits :: "u8 list" where
  "digits = bytes_of ''0123456789abcdef''"

definition digits_user :: "u8 list" where
  "digits_user = bytes_of ''0123456789ABCDEF''"

text \<open>The digits of \<open>x\<close>, the last one first. A 64-bit number has at most 64 of them in any base.\<close>

fun digit_loop :: "nat \<Rightarrow> u8 list \<Rightarrow> u64 \<Rightarrow> u64 \<Rightarrow> u8 list" where
  "digit_loop 0 ds x b = []"
| "digit_loop (Suc n) ds x b =
    ds ! unat (x mod b) # (if x div b \<noteq> 0 then digit_loop n ds (x div b) b else [])"

text \<open>The array \<open>buf\<close> at the end of \<open>printint\<close>, which is then sent from its last byte to its first.\<close>

definition printint_buf :: "u8 list \<Rightarrow> u64 \<Rightarrow> u64 \<Rightarrow> bool \<Rightarrow> u8 list" where
  "printint_buf ds xx b sign =
    (let neg = sign \<and> sint xx < 0; x = (if neg then - xx else xx) in
     digit_loop 64 ds x b @ (if neg then [0x2d] else []))"

definition printint :: "u8 list \<Rightarrow> u64 \<Rightarrow> u64 \<Rightarrow> bool \<Rightarrow> u8 list" where
  "printint ds xx b sign = rev (printint_buf ds xx b sign)"

primrec ptr_loop :: "nat \<Rightarrow> u8 list \<Rightarrow> u64 \<Rightarrow> u8 list" where
  "ptr_loop 0 ds x = []"
| "ptr_loop (Suc n) ds x = ds ! unat (drop_bit 60 x) # ptr_loop n ds (push_bit 4 x)"

definition printptr :: "u8 list \<Rightarrow> u64 \<Rightarrow> u8 list" where
  "printptr ds x = 0x30 # 0x78 # ptr_loop 16 ds x"

definition BACKSPACE :: u32 where
  [simp]: "BACKSPACE = 0x100"

definition consputc_bytes :: "u32 \<Rightarrow> u8 list" where
  "consputc_bytes c = (if c = BACKSPACE then [0x08, 0x20, 0x08] else [ucast c])"

text \<open>\<open>va_arg\<close>: the next argument as an \<open>int\<close>, a 32-bit and a 64-bit unsigned integer, or a string.\<close>

definition take_int :: "(u64 \<Rightarrow> u8 list) \<Rightarrow> parg list \<Rightarrow> (u8 list \<times> parg list) option" where
  "take_int f args = (case args of PInt x # rest \<Rightarrow> Some (f x, rest) | _ \<Rightarrow> None)"

definition as_int :: "u64 \<Rightarrow> u64" where
  "as_int x = scast (ucast x :: u32)"

definition as_u32 :: "u64 \<Rightarrow> u64" where
  "as_u32 x = ucast (ucast x :: u32)"

definition null_str :: "u8 list" where
  "null_str = bytes_of ''(null)''"

definition take_str :: "parg list \<Rightarrow> (u8 list \<times> parg list) option" where
  "take_str args = (case args of
      PStr p # rest \<Rightarrow>
        let s = (case p of None \<Rightarrow> null_str | Some bs \<Rightarrow> takeWhile (\<lambda>c. c \<noteq> 0) bs) in
        Some (concat (map (\<lambda>c. consputc_bytes (ucast c)) s), rest)
    | _ \<Rightarrow> None)"

text \<open>The chain of tests of the kernel on \<open>c0\<close>, \<open>c1\<close> and \<open>c2\<close>: how many further bytes of the format belong to the
  conversion, what it prints and the arguments left.\<close>

definition convert :: "u8 \<Rightarrow> u8 \<Rightarrow> u8 \<Rightarrow> parg list \<Rightarrow> (nat \<times> u8 list \<times> parg list) option" where
  "convert c0 c1 c2 args =
    (let d = 0x64; l = 0x6c; u = 0x75; x = 0x78 in
     if c0 = d then map_option (Pair 0) (take_int (\<lambda>v. printint digits (as_int v) 10 True) args)
     else if c0 = l \<and> c1 = d then map_option (Pair 1) (take_int (\<lambda>v. printint digits v 10 True) args)
     else if c0 = l \<and> c1 = l \<and> c2 = d then map_option (Pair 2) (take_int (\<lambda>v. printint digits v 10 True) args)
     else if c0 = u then map_option (Pair 0) (take_int (\<lambda>v. printint digits (as_u32 v) 10 False) args)
     else if c0 = l \<and> c1 = u then map_option (Pair 1) (take_int (\<lambda>v. printint digits v 10 False) args)
     else if c0 = l \<and> c1 = l \<and> c2 = u then map_option (Pair 2) (take_int (\<lambda>v. printint digits v 10 False) args)
     else if c0 = x then map_option (Pair 0) (take_int (\<lambda>v. printint digits (as_u32 v) 16 False) args)
     else if c0 = l \<and> c1 = x then map_option (Pair 1) (take_int (\<lambda>v. printint digits v 16 False) args)
     else if c0 = l \<and> c1 = l \<and> c2 = x then map_option (Pair 2) (take_int (\<lambda>v. printint digits v 16 False) args)
     else if c0 = 0x70 then map_option (Pair 0) (take_int (printptr digits) args)
     else if c0 = 0x63 then map_option (Pair 0) (take_int (\<lambda>v. consputc_bytes (ucast v)) args)
     else if c0 = 0x73 then map_option (Pair 0) (take_str args)
     else if c0 = 0x25 then Some (0, consputc_bytes 0x25, args)
     else Some (0, consputc_bytes 0x25 @ consputc_bytes (ucast c0), args))"

definition byte_at :: "u8 list \<Rightarrow> nat \<Rightarrow> u8" where
  "byte_at fmt i = (if i < length fmt then fmt ! i else 0)"

text \<open>The loop of the kernel's \<open>printf\<close> at index \<open>i\<close> of the format.\<close>

function printf_from :: "u8 list \<Rightarrow> nat \<Rightarrow> parg list \<Rightarrow> u8 list option" where
  "printf_from fmt i args =
    (if length fmt \<le> i \<or> byte_at fmt i = 0 then Some []
     else if byte_at fmt i \<noteq> 0x25 then
       map_option (append (consputc_bytes (ucast (byte_at fmt i)))) (printf_from fmt (i + 1) args)
     else let i = i + 1; c0 = byte_at fmt i;
              c1 = (if c0 \<noteq> 0 then byte_at fmt (i + 1) else 0);
              c2 = (if c1 \<noteq> 0 then byte_at fmt (i + 2) else 0) in
       if c0 = 0 then Some []
       else case convert c0 c1 c2 args of
              None \<Rightarrow> None
            | Some (k, out, rest) \<Rightarrow> map_option (append out) (printf_from fmt (i + k + 1) rest))"
  by auto

termination by (relation "measure (\<lambda>(fmt, i, args). length fmt - i)") auto

definition printf :: "u8 list \<Rightarrow> parg list \<Rightarrow> u8 list option" where
  "printf fmt args = printf_from fmt 0 args"

definition putc :: "u32 \<Rightarrow> u8 list" where
  "putc c = [ucast c]"

text \<open>\<open>printint\<close> and \<open>printptr\<close> of the library, and its chain of tests.\<close>

fun digit_loop_user :: "nat \<Rightarrow> u64 \<Rightarrow> u64 \<Rightarrow> u8 list" where
  "digit_loop_user 0 x b = []"
| "digit_loop_user (Suc n) x b =
    digits_user ! unat (x mod b) # (let x = x div b in if x \<noteq> 0 then digit_loop_user n x b else [])"

definition printint_buf_user :: "u64 \<Rightarrow> u64 \<Rightarrow> bool \<Rightarrow> u8 list" where
  "printint_buf_user xx b sgnd =
    (case (if sgnd \<and> sint xx < 0 then (True, - xx) else (False, xx)) of (neg, x) \<Rightarrow>
     digit_loop_user 64 x b @ (if neg then [0x2d] else []))"

definition printint_user :: "u64 \<Rightarrow> u64 \<Rightarrow> bool \<Rightarrow> u8 list" where
  "printint_user xx b sgnd = rev (printint_buf_user xx b sgnd)"

primrec ptr_loop_user :: "nat \<Rightarrow> u64 \<Rightarrow> u8 list" where
  "ptr_loop_user 0 x = []"
| "ptr_loop_user (Suc n) x = digits_user ! unat (drop_bit 60 x) # ptr_loop_user n (push_bit 4 x)"

definition printptr_user :: "u64 \<Rightarrow> u8 list" where
  "printptr_user x = 0x30 # 0x78 # ptr_loop_user 16 x"

definition take_str_user :: "parg list \<Rightarrow> (u8 list \<times> parg list) option" where
  "take_str_user args = (case args of
      PStr (Some bs) # rest \<Rightarrow> Some (concat (map (\<lambda>c. putc (ucast c)) (takeWhile (\<lambda>c. c \<noteq> 0) bs)), rest)
    | PStr None # rest \<Rightarrow> Some (concat (map (\<lambda>c. putc (ucast c)) (bytes_of ''(null)'')), rest)
    | _ \<Rightarrow> None)"

definition convert_user :: "u8 \<Rightarrow> u8 \<Rightarrow> u8 \<Rightarrow> parg list \<Rightarrow> (nat \<times> u8 list \<times> parg list) option" where
  "convert_user c0 c1 c2 args =
    (let d = 0x64; l = 0x6c; u = 0x75; x = 0x78 in
     if c0 = d then map_option (Pair 0) (take_int (\<lambda>v. printint_user (as_int v) 10 True) args)
     else if c0 = l \<and> c1 = d then map_option (Pair 1) (take_int (\<lambda>v. printint_user v 10 True) args)
     else if c0 = l \<and> c1 = l \<and> c2 = d then map_option (Pair 2) (take_int (\<lambda>v. printint_user v 10 True) args)
     else if c0 = u then map_option (Pair 0) (take_int (\<lambda>v. printint_user (as_u32 v) 10 False) args)
     else if c0 = l \<and> c1 = u then map_option (Pair 1) (take_int (\<lambda>v. printint_user v 10 False) args)
     else if c0 = l \<and> c1 = l \<and> c2 = u then map_option (Pair 2) (take_int (\<lambda>v. printint_user v 10 False) args)
     else if c0 = x then map_option (Pair 0) (take_int (\<lambda>v. printint_user (as_u32 v) 16 False) args)
     else if c0 = l \<and> c1 = x then map_option (Pair 1) (take_int (\<lambda>v. printint_user v 16 False) args)
     else if c0 = l \<and> c1 = l \<and> c2 = x then map_option (Pair 2) (take_int (\<lambda>v. printint_user v 16 False) args)
     else if c0 = 0x70 then map_option (Pair 0) (take_int printptr_user args)
     else if c0 = 0x63 then map_option (Pair 0) (take_int (\<lambda>v. putc (ucast v)) args)
     else if c0 = 0x73 then map_option (Pair 0) (take_str_user args)
     else if c0 = 0x25 then Some (0, putc 0x25, args)
     else Some (0, putc 0x25 @ putc (ucast c0), args))"

text \<open>The loop of \<open>vprintf\<close>; the flag tells that the last byte was a \<open>%\<close>.\<close>

function vprintf_from :: "u8 list \<Rightarrow> nat \<Rightarrow> bool \<Rightarrow> parg list \<Rightarrow> u8 list option" where
  "vprintf_from fmt i percent args =
    (if length fmt \<le> i \<or> byte_at fmt i = 0 then Some []
     else let c0 = byte_at fmt i in
       if \<not> percent then
         if c0 = 0x25 then vprintf_from fmt (i + 1) True args
         else map_option (append (putc (ucast c0))) (vprintf_from fmt (i + 1) False args)
       else let c1 = (if c0 \<noteq> 0 then byte_at fmt (i + 1) else 0);
                c2 = (if c1 \<noteq> 0 then byte_at fmt (i + 2) else 0) in
         case convert_user c0 c1 c2 args of
           None \<Rightarrow> None
         | Some (k, out, rest) \<Rightarrow> map_option (append out) (vprintf_from fmt (i + k + 1) False rest))"
  by auto

termination by (relation "measure (\<lambda>(fmt, i, percent, args). length fmt - i)") auto

definition vprintf :: "u8 list \<Rightarrow> parg list \<Rightarrow> u8 list option" where
  "vprintf fmt args = vprintf_from fmt 0 False args"

declare printf_from.simps [simp del] vprintf_from.simps [simp del]

section \<open>The buffer of printint\<close>

lemma div_lt_power: "unat (x :: u64) < unat b ^ Suc k \<Longrightarrow> 0 < unat b \<Longrightarrow> unat (x div b) < unat b ^ k"
  by (simp add: unat_div less_mult_imp_div_less mult.commute)

lemma length_digit_loop:
  "unat x < unat b ^ k \<Longrightarrow> 0 < k \<Longrightarrow> 1 < unat b \<Longrightarrow> length (digit_loop n ds x b) \<le> k"
proof (induction n arbitrary: x k)
  case (Suc n)
  show ?case
  proof (cases "x div b = 0")
    case True
    then show ?thesis using Suc.prems by simp
  next
    case False
    then obtain j where k: "k = Suc j" "0 < j"
      using Suc.prems by (cases k; cases "k - 1") (auto simp: unat_div simp flip: unat_eq_zero)
    then have "unat (x div b) < unat b ^ j" using div_lt_power Suc.prems by force
    then have "length (digit_loop n ds (x div b) b) \<le> j" using Suc.IH k Suc.prems by blast
    then show ?thesis using k by simp
  qed
qed simp

lemma unat_neg_bound:
  assumes "sint (x :: u64) < 0"
  shows "unat (- x) \<le> 2 ^ 63"
proof -
  have lo: "- (2 ^ 63) \<le> sint x" using sint_ge [of x] by simp
  have "uint x = (sint x + 2 ^ 64) mod 2 ^ 64" using uint_sint [of x] by (simp add: take_bit_eq_mod)
  also have "\<dots> = sint x + 2 ^ 64" using assms lo by (intro mod_pos_pos_trivial) auto
  finally have "uint (- x) = (- sint x) mod 2 ^ 64" by (simp add: uint_word_ariths mod_minus_eq)
  also have "\<dots> = - sint x" using assms lo by (intro mod_pos_pos_trivial) auto
  finally show ?thesis using lo by (simp add: nat_le_iff unat_eq_nat_uint)
qed

lemma printint_buf_fits: "b \<in> {10, 16} \<Longrightarrow> length (printint_buf ds xx b sign) \<le> 20"
proof -
  assume b: "b \<in> {10, 16}"
  have b1: "10 \<le> unat b" using b by auto
  have any: "unat x < unat b ^ 20" for x :: u64
  proof -
    have "unat x < 2 ^ 64" using unsigned_less [of x] by simp
    also have "\<dots> \<le> 10 ^ 20" by simp
    also have "\<dots> \<le> unat b ^ 20" using b1 by (rule power_mono) simp
    finally show ?thesis .
  qed
  show ?thesis
  proof (cases "sign \<and> sint xx < 0")
    case True
    then have "unat (- xx) \<le> 2 ^ 63" by (intro unat_neg_bound) simp
    also have "\<dots> < 10 ^ 19" by simp
    also have "\<dots> \<le> unat b ^ 19" using b1 by (rule power_mono) simp
    finally have "length (digit_loop 64 ds (- xx) b) \<le> 19"
      using b1 by (intro length_digit_loop) auto
    then show ?thesis using True by (simp add: printint_buf_def)
  next
    case False
    have "length (digit_loop 64 ds xx b) \<le> 20" using any b1 by (intro length_digit_loop) auto
    then show ?thesis using False by (auto simp: printint_buf_def Let_def)
  qed
qed

lemma digit_loop_user_eq: "digit_loop_user n x b = digit_loop n digits_user x b"
  by (induction n arbitrary: x) (simp_all add: Let_def)

lemma printint_user_eq: "printint_buf_user xx b sgnd = printint_buf digits_user xx b sgnd" "printint_user xx b sgnd = printint digits_user xx b sgnd"
  by (simp_all add: printint_user_def printint_def printint_buf_user_def printint_buf_def digit_loop_user_eq Let_def)

text \<open>C25. \<open>printint\<close> never writes past the end of its buffer of 20 bytes, in the kernel and in the user library: not for the
  largest unsigned number, and not for the most negative signed one with its sign.\<close>

theorem printint_fits:
  "b \<in> {10, 16} \<Longrightarrow> length (printint_buf ds xx b sign) \<le> 20 \<and> length (printint_buf_user xx b sign) \<le> 20"
  using printint_buf_fits by (simp add: printint_user_eq)

text \<open>Both are below the bound at the ends of the range.\<close>

theorem printint_fits_witness:
  "length (printint_buf digits (- 1) 10 False) \<le> 20 \<and> length (printint_buf_user (2 ^ 63) 10 True) \<le> 20"
  using printint_fits [of 10 digits "- 1" False] printint_fits [of 10 digits "2 ^ 63" True] by simp

section \<open>Reading back a printed number\<close>

lemma digits_nth: "k < 10 \<Longrightarrow> digits ! k = 48 + of_nat k"
proof -
  assume "k < 10"
  then have "k \<in> {0, 1, 2, 3, 4, 5, 6, 7, 8, 9}" by auto
  then show ?thesis by (auto simp: digits_def bytes_of_def)
qed

lemma digit_byte:
  assumes "k < 10"
  shows "(48 :: u8) \<le> 48 + of_nat k" "48 + of_nat k \<le> (57 :: u8)" "ucast (48 + of_nat k :: u8) = (48 + of_nat k :: u32)"
proof -
  have "k \<in> {0, 1, 2, 3, 4, 5, 6, 7, 8, 9}" using assms by auto
  then show "(48 :: u8) \<le> 48 + of_nat k" "48 + of_nat k \<le> (57 :: u8)" "ucast (48 + of_nat k :: u8) = (48 + of_nat k :: u32)"
    by auto
qed

definition atoi_step :: "u8 \<Rightarrow> u32 \<Rightarrow> u32" where
  "atoi_step c n = n * 10 + ucast c - 48"

fun stored :: "mem \<Rightarrow> nat \<Rightarrow> u8 list \<Rightarrow> bool" where
  "stored m p [] \<longleftrightarrow> \<not> (48 \<le> m p \<and> m p \<le> 57)"
| "stored m p (x # xs) \<longleftrightarrow> m p = x \<and> stored m (p + 1) xs"

lemma atoi_loop_eq:
  "stored m s xs \<Longrightarrow> (\<forall>c \<in> set xs. 48 \<le> c \<and> c \<le> 57) \<Longrightarrow> atoi_loop s n m = Some (fold atoi_step xs n)"
  by (induction xs arbitrary: s n; subst atoi_loop.simps) (auto simp: atoi_step_def)

lemma digit_loop_value:
  "unat x < 10 ^ k \<Longrightarrow> foldr atoi_step (digit_loop k digits x 10) 0 = ucast x \<and>
   (\<forall>c \<in> set (digit_loop k digits x 10). 48 \<le> c \<and> c \<le> 57)"
proof (induction k arbitrary: x)
  case 0
  then show ?case by (simp add: unat_eq_0)
next
  case (Suc k)
  let ?q = "x div 10" and ?r = "unat (x mod 10)"
  have r: "?r < 10" by (simp add: unat_mod)
  have "unat ?q < 10 ^ k" using div_lt_power [of x 10 k] Suc.prems by simp
  then have IH: "foldr atoi_step (digit_loop k digits ?q 10) 0 = ucast ?q"
    "\<forall>c \<in> set (digit_loop k digits ?q 10). 48 \<le> c \<and> c \<le> 57" using Suc.IH by blast+
  have "unat x = 10 * unat ?q + ?r" by (simp add: unat_div unat_mod)
  then have "(of_nat (unat x) :: u32) = of_nat (10 * unat ?q + ?r)" by (rule arg_cong)
  then have x: "(ucast x :: u32) = 10 * ucast ?q + of_nat ?r"
    by (simp only: of_nat_add of_nat_mult of_nat_numeral of_nat_unat)
  have d: "atoi_step (48 + of_nat ?r) (ucast ?q) = 10 * ucast ?q + of_nat ?r"
    unfolding atoi_step_def digit_byte(3) [OF r] by simp
  show ?case
  proof (cases "?q = 0")
    case True
    then show ?thesis
      using x d digits_nth [OF r] digit_byte(1,2) [OF r] by (simp del: of_nat_unat)
  next
    case False
    then show ?thesis
      using x d IH digits_nth [OF r] digit_byte(1,2) [OF r] by (simp del: of_nat_unat)
  qed
qed

text \<open>C26. \<open>atoi\<close> reads back what \<open>printint\<close> printed with \<open>%d\<close>: where a number below \<open>2 ^ 31\<close> was printed in decimal
  and is followed by something that is not a digit, \<open>atoi\<close> returns it.\<close>

theorem atoi_printint:
  assumes "n < 2 ^ 31" and "stored m s (printint digits (of_nat n) 10 True)"
  shows "atoi s m = Some (int n)"
proof -
  have u: "unat (of_nat n :: u64) = n" using assms(1) by (simp add: unat_of_nat)
  have "0 \<le> sint (of_nat n :: u64)" using assms(1) by (simp add: signed_of_nat signed_take_bit_int_eq_self)
  then have p: "printint digits (of_nat n) 10 True = rev (digit_loop 64 digits (of_nat n) 10)"
    by (simp add: printint_def printint_buf_def Let_def)
  have "(2 :: nat) ^ 31 \<le> 10 ^ 64" by simp
  then have "unat (of_nat n :: u64) < 10 ^ 64" using assms(1) u by linarith
  note v = digit_loop_value [OF this]
  have "atoi_loop s 0 m = Some (fold atoi_step (rev (digit_loop 64 digits (of_nat n) 10)) 0)"
    using assms(2) v by (intro atoi_loop_eq) (simp_all add: p)
  also have "\<dots> = Some (ucast (of_nat n :: u64))" using v by (simp add: foldr_conv_fold)
  also have "(ucast (of_nat n :: u64) :: u32) = of_nat n" using u by (metis of_nat_unat)
  finally show ?thesis
    using assms(1) by (simp add: atoi_def signed_of_nat signed_take_bit_int_eq_self)
qed

lemma digit_loop_pos:
  "0 < n \<Longrightarrow> digit_loop n ds x b = ds ! unat (x mod b) # (if x div b \<noteq> 0 then digit_loop (n - 1) ds (x div b) b else [])"
  by (cases n) simp_all

definition forty_two :: mem where
  "forty_two = (\<lambda>a. if a = 0 then 0x34 else if a = 1 then 0x32 else 0)"

theorem atoi_printint_witness: "atoi 0 forty_two = Some 42"
proof -
  have "printint digits 42 10 True = [0x34, 0x32]"
    by (simp add: printint_def printint_buf_def digits_def bytes_of_def digit_loop_pos [of 64] digit_loop_pos [of 63])
  then have "stored forty_two 0 (printint digits (of_nat 42) 10 True)" by (simp add: forty_two_def)
  then show ?thesis using atoi_printint [of 42 forty_two 0] by simp
qed

section \<open>The kernel and the user library print the same\<close>

text \<open>Up to the case of hexadecimal digits.\<close>

definition upcase :: "u8 \<Rightarrow> u8" where
  "upcase c = (if 97 \<le> c \<and> c \<le> 122 then c - 32 else c)"

definition no_backspace :: "parg list \<Rightarrow> bool" where
  "no_backspace args \<longleftrightarrow> (\<forall>x. PInt x \<in> set args \<longrightarrow> (ucast x :: u32) \<noteq> BACKSPACE)"

definition same_text :: "u8 list \<Rightarrow> u8 list \<Rightarrow> bool" where
  "same_text xs ys \<longleftrightarrow> map upcase xs = map upcase ys"

lemma same_text_refl [simp]: "same_text xs xs"
  by (simp add: same_text_def)

lemma upcase_digits:
  assumes "k < 16"
  shows "upcase (digits ! k) = upcase (digits_user ! k)"
proof -
  have "\<forall>k \<in> set [0..<16]. upcase (digits ! k) = upcase (digits_user ! k)" by code_simp
  moreover have "k \<in> set [0..<16]" using assms by simp
  ultimately show ?thesis by (rule bspec)
qed

lemma byte_not_backspace: "(ucast (c :: u8) :: u32) \<noteq> BACKSPACE"
proof
  assume "(ucast c :: u32) = BACKSPACE"
  then have "unat (ucast c :: u32) = 256" by simp
  moreover have "unat (ucast c :: u32) < 256"
    using unsigned_less [of c, where ?'a = nat] by (simp add: unsigned_ucast_eq take_bit_nat_eq_self)
  ultimately show False by simp
qed

lemma same_digit_loop:
  "0 < unat b \<Longrightarrow> unat b \<le> 16 \<Longrightarrow> same_text (digit_loop n digits x b) (digit_loop_user n x b)"
proof (induction n arbitrary: x)
  case (Suc n)
  have "unat (x mod b) < 16"
    using order.strict_trans2 [OF mod_less_divisor] Suc.prems by (simp add: unat_mod)
  then show ?case using Suc upcase_digits by (simp add: same_text_def Let_def)
qed simp

lemma same_printint: "b \<in> {10, 16} \<Longrightarrow> same_text (printint digits x b sg) (printint_user x b sg)"
  using same_digit_loop [of b 64 x] same_digit_loop [of b 64 "- x"]
  by (auto simp: printint_def printint_buf_def printint_user_def printint_buf_user_def Let_def same_text_def simp flip: rev_map)

lemma same_ptr_loop: "same_text (ptr_loop n digits x) (ptr_loop_user n x)"
proof (induction n arbitrary: x)
  case (Suc n)
  have "unat (drop_bit 60 x) = unat x div 2 ^ 60" by (simp only: unat_drop_bit_eq) (simp only: drop_bit_eq_div)
  also have "\<dots> < 16" using unsigned_less [of x, where ?'a = nat] by (intro less_mult_imp_div_less) simp
  finally have "unat (drop_bit 60 x) < 16" .
  then show ?case using Suc upcase_digits by (simp add: same_text_def)
qed simp

lemma same_printptr: "same_text (printptr digits x) (printptr_user x)"
  using same_ptr_loop [of 16 x] by (simp add: printptr_def printptr_user_def same_text_def)

text \<open>One conversion consumes the same arguments and bytes of the format in both, and prints the same text.\<close>

definition same_conv :: "(nat \<times> u8 list \<times> parg list) option \<Rightarrow> (nat \<times> u8 list \<times> parg list) option \<Rightarrow> bool" where
  "same_conv r q \<longleftrightarrow> (case (r, q) of
      (None, None) \<Rightarrow> True
    | (Some (k, out, rest), Some (k', out', rest')) \<Rightarrow> k' = k \<and> rest' = rest \<and> same_text out out'
    | _ \<Rightarrow> False)"

lemma same_take_int:
  "(\<And>x. PInt x \<in> set args \<Longrightarrow> same_text (f x) (g x)) \<Longrightarrow>
   same_conv (map_option (Pair k) (take_int f args)) (map_option (Pair k) (take_int g args))"
  by (auto simp: same_conv_def take_int_def split: list.splits parg.splits)

lemma same_if: "(c \<Longrightarrow> same_conv a a') \<Longrightarrow> (\<not> c \<Longrightarrow> same_conv b b') \<Longrightarrow> same_conv (if c then a else b) (if c then a' else b')"
  by simp

lemma same_conv_refl: "same_conv r r"
  by (auto simp: same_conv_def split: option.splits)

lemma consputc_byte: "consputc_bytes (ucast (c :: u8)) = putc (ucast c)" "consputc_bytes 0x25 = putc 0x25"
  using byte_not_backspace [of c] by (simp_all add: consputc_bytes_def putc_def)

lemma same_take_str: "same_conv (map_option (Pair k) (take_str args)) (map_option (Pair k) (take_str_user args))"
  by (auto simp: same_conv_def take_str_def take_str_user_def null_str_def consputc_byte split: list.splits parg.splits option.splits)

lemma same_convert:
  assumes "no_backspace args"
  shows "same_conv (convert c0 c1 c2 args) (convert_user c0 c1 c2 args)"
proof -
  have c: "same_text (consputc_bytes (ucast x)) (putc (ucast x))" if "PInt x \<in> set args" for x
    using that assms by (auto simp: consputc_bytes_def putc_def no_backspace_def simp del: BACKSPACE_def)
  show ?thesis
    unfolding convert_def convert_user_def Let_def consputc_byte
    by (intro same_if same_conv_refl same_take_int same_take_str same_printint same_printptr c) simp_all
qed

lemma convert_rest:
  "convert c0 c1 c2 args = Some (k, out, rest) \<Longrightarrow> set rest \<subseteq> set args"
  by (auto simp: convert_def Let_def take_int_def take_str_def split: if_splits list.splits parg.splits option.splits)

lemma vprintf_step:
  "no_backspace args \<Longrightarrow> rel_option same_text (printf_from fmt i args) (vprintf_from fmt i False args)"
proof (induction fmt i args rule: printf_from.induct)
  case (1 fmt i args)
  show ?case
  proof (cases "length fmt \<le> i \<or> byte_at fmt i = 0")
    case True
    then show ?thesis by (simp add: printf_from.simps [of fmt i] vprintf_from.simps [of fmt i])
  next
    case go: False
    show ?thesis
    proof (cases "byte_at fmt i = 0x25")
      case False
      have "rel_option same_text (printf_from fmt (i + 1) args) (vprintf_from fmt (i + 1) False args)"
        using "1.IH"(1) "1.prems" go False by blast
      moreover have "consputc_bytes (ucast (byte_at fmt i)) = putc (ucast (byte_at fmt i))" by (rule consputc_byte)
      ultimately show ?thesis
        using go False
        by (auto simp: printf_from.simps [of fmt i] vprintf_from.simps [of fmt i] same_text_def
            option_rel_Some1 option.rel_map elim!: option.rel_mono_strong)
    next
      case True
      let ?c0 = "byte_at fmt (i + 1)"
      let ?c1 = "if ?c0 \<noteq> 0 then byte_at fmt (i + 1 + 1) else 0"
      let ?c2 = "if ?c1 \<noteq> 0 then byte_at fmt (i + 1 + 2) else 0"
      have v: "vprintf_from fmt i False args = vprintf_from fmt (i + 1) True args"
        using go True by (simp add: vprintf_from.simps [of fmt i])
      show ?thesis
      proof (cases "?c0 = 0")
        case c0: True
        then show ?thesis
          using go True by (simp add: v printf_from.simps [of fmt i] vprintf_from.simps [of fmt "Suc i"])
      next
        case c0: False
        then have len: "\<not> length fmt \<le> i + 1" by (auto simp: byte_at_def split: if_splits)
        have p: "printf_from fmt i args = (case convert ?c0 ?c1 ?c2 args of
            None \<Rightarrow> None | Some (k, out, rest) \<Rightarrow> map_option (append out) (printf_from fmt (Suc i + k + 1) rest))"
          using go True c0 by (simp add: printf_from.simps [of fmt i] numeral_2_eq_2 numeral_3_eq_3)
        have q: "vprintf_from fmt i False args = (case convert_user ?c0 ?c1 ?c2 args of
            None \<Rightarrow> None | Some (k, out, rest) \<Rightarrow> map_option (append out) (vprintf_from fmt (Suc i + k + 1) False rest))"
          using c0 len by (simp add: v vprintf_from.simps [of fmt "Suc i"] numeral_2_eq_2 numeral_3_eq_3)
        note sc = same_convert [OF "1.prems", of ?c0 ?c1 ?c2]
        show ?thesis
        proof (cases "convert ?c0 ?c1 ?c2 args")
          case None
          then show ?thesis using sc unfolding p q by (auto simp: same_conv_def split: option.splits)
        next
          case (Some r)
          obtain k out rest where r: "r = (k, out, rest)" by (cases r)
          then obtain out' where u: "convert_user ?c0 ?c1 ?c2 args = Some (k, out', rest)" "same_text out out'"
            using sc Some by (auto simp: same_conv_def split: option.splits)
          have "no_backspace rest"
            using "1.prems" convert_rest Some r unfolding no_backspace_def by blast
          then have "rel_option same_text (printf_from fmt (Suc i + k + 1) rest) (vprintf_from fmt (Suc i + k + 1) False rest)"
            using "1.IH"(2) [OF go _ refl refl refl refl c0 Some r [symmetric] refl] True by simp
          then show ?thesis
            unfolding p q using Some r u by (auto simp: option.rel_map same_text_def elim!: option.rel_mono_strong)
        qed
      qed
    qed
  qed
qed



end
