(* ===== verification/Vm.thy ===== *)
theory Vm
  imports Kalloc
begin

text \<open>
  Page tables and user memory, \<open>vm.c\<close>, with the page-table macros of \<open>riscv.h\<close>.

  A page of the page table is the object \<open>PageTable f\<close>, where \<open>f\<close> gives its 512 entries; clearing a fresh
  page that is going to be one makes it \<open>PageTable (\<lambda>_. 0)\<close>. A user page is \<open>Bytes f\<close>. The address of an entry
  is the page and the index, so \<open>walk\<close> returns \<open>(page, index) option\<close> with \<open>None\<close> for the null pointer.

  The kernel side of \<open>copyin\<close> and \<open>copyinstr\<close> is the list of bytes written to \<open>dst\<close>, also when they fail
  part-way; the kernel side of \<open>copyout\<close> is the list of bytes at \<open>src\<close>. Each loop carries a fuel that
  exceeds the number of its iterations; running out of it would be a \<open>Fault\<close>.
\<close>

section \<open>Entries and indices\<close>

definition PTE_V :: u64 where [simp]: "PTE_V = 1"
definition PTE_R :: u64 where [simp]: "PTE_R = 2"
definition PTE_W :: u64 where [simp]: "PTE_W = 4"
definition PTE_X :: u64 where [simp]: "PTE_X = 8"
definition PTE_U :: u64 where [simp]: "PTE_U = 16"

definition PA2PTE :: "u64 \<Rightarrow> u64" where
  "PA2PTE pa = push_bit 10 (drop_bit 12 pa)"

definition PTE2PA :: "u64 \<Rightarrow> u64" where
  "PTE2PA pte = push_bit 12 (drop_bit 10 pte)"

definition PTE_FLAGS :: "u64 \<Rightarrow> u64" where
  "PTE_FLAGS pte = pte AND 0x3FF"

definition PX :: "nat \<Rightarrow> u64 \<Rightarrow> nat" where
  "PX level va = unat (drop_bit (12 + 9 * level) va AND 0x1FF)"

definition MAXVA :: u64 where [simp]: "MAXVA = 0x4000000000"
definition TRAMPOLINE :: u64 where [simp]: "TRAMPOLINE = MAXVA - of_nat PGSIZE"
definition TRAPFRAME :: u64 where [simp]: "TRAPFRAME = TRAMPOLINE - of_nat PGSIZE"

definition KSTACK :: "nat \<Rightarrow> u64" where
  "KSTACK p = TRAMPOLINE - (of_nat p + 1) * 2 * of_nat PGSIZE"

type_synonym pte_ptr = "u64 \<times> nat"

definition get_pte :: "pte_ptr \<Rightarrow> u64 K" where
  [kdefs]: "get_pte p = (\<lambda>s. case heap s (fst p) of Some (PageTable f) \<Rightarrow> Done (f (snd p)) s | _ \<Rightarrow> Fault)"

definition set_pte :: "pte_ptr \<Rightarrow> u64 \<Rightarrow> unit K" where
  [kdefs]: "set_pte p v = (\<lambda>s. case heap s (fst p) of
      Some (PageTable f) \<Rightarrow> Done () (s\<lparr>heap := (heap s)(fst p \<mapsto> PageTable (f(snd p := v)))\<rparr>)
    | _ \<Rightarrow> Fault)"

definition read_mem :: "u64 \<Rightarrow> nat \<Rightarrow> nat \<Rightarrow> u8 list K" where
  [kdefs]: "read_mem pa off n = (\<lambda>s. case heap s pa of
      Some (Bytes f) \<Rightarrow> Done (map (\<lambda>i. f (off + i)) [0..<n]) s | _ \<Rightarrow> Fault)"

definition write_bytes :: "(nat \<Rightarrow> u8) \<Rightarrow> nat \<Rightarrow> u8 list \<Rightarrow> nat \<Rightarrow> u8" where
  "write_bytes f off bs = (\<lambda>k. if off \<le> k \<and> k < off + length bs then bs ! (k - off) else f k)"

definition write_mem :: "u64 \<Rightarrow> nat \<Rightarrow> u8 list \<Rightarrow> unit K" where
  [kdefs]: "write_mem pa off bs = (\<lambda>s. case heap s pa of
      Some (Bytes f) \<Rightarrow> Done () (s\<lparr>heap := (heap s)(pa \<mapsto> Bytes (write_bytes f off bs))\<rparr>) | _ \<Rightarrow> Fault)"

section \<open>Walking and mapping\<close>

fun walk_loop :: "nat \<Rightarrow> u64 \<Rightarrow> u64 \<Rightarrow> bool \<Rightarrow> pte_ptr option K" where
  "walk_loop 0 pagetable va alloc = ret (Some (pagetable, PX 0 va))"
| "walk_loop (Suc l) pagetable va alloc =
  bnd (get_pte (pagetable, PX (Suc l) va)) (\<lambda>pte.
  if pte AND PTE_V \<noteq> 0 then walk_loop l (PTE2PA pte) va alloc
    else if \<not> alloc then ret None
    else bnd kalloc (\<lambda>pg.
      if pg = 0 then ret None else
      sq (put_obj pg (PageTable (\<lambda>_. 0)))
      (sq (set_pte (pagetable, PX (Suc l) va) (PA2PTE pg OR PTE_V))
      (walk_loop l pg va alloc))))"

definition walk :: "u64 \<Rightarrow> u64 \<Rightarrow> bool \<Rightarrow> pte_ptr option K" where
  "walk pagetable va alloc =
    (if va \<ge> MAXVA then panic ''walk'' else
    walk_loop 2 pagetable va alloc)"

definition walkaddr :: "u64 \<Rightarrow> u64 \<Rightarrow> u64 K" where
  "walkaddr pagetable va =
    (if va \<ge> MAXVA then ret 0 else
    bnd (walk pagetable va False) (\<lambda>p.
    case p of None \<Rightarrow> ret 0 | Some p \<Rightarrow> bnd (get_pte p) (\<lambda>pte.
      if pte AND PTE_V = 0 then ret 0 else
      if pte AND PTE_U = 0 then ret 0 else
      ret (PTE2PA pte))))"

fun mappages_loop :: "nat \<Rightarrow> u64 \<Rightarrow> u64 \<Rightarrow> u64 \<Rightarrow> u64 \<Rightarrow> u64 \<Rightarrow> int K" where
  "mappages_loop 0 pagetable a lst pa perm = fault"
| "mappages_loop (Suc n) pagetable a lst pa perm =
  bnd (walk pagetable a True) (\<lambda>p.
  case p of None \<Rightarrow> ret (-1) | Some p \<Rightarrow> bnd (get_pte p) (\<lambda>pte.
    if pte AND PTE_V \<noteq> 0 then panic ''mappages: remap'' else
    sq (set_pte p (PA2PTE pa OR perm OR PTE_V))
    (if a = lst then ret 0 else
    mappages_loop n pagetable (a + of_nat PGSIZE) lst (pa + of_nat PGSIZE) perm)))"

definition mappages :: "u64 \<Rightarrow> u64 \<Rightarrow> u64 \<Rightarrow> u64 \<Rightarrow> u64 \<Rightarrow> int K" where
  "mappages pagetable va sz pa perm =
    (if va mod of_nat PGSIZE \<noteq> 0 then panic ''mappages: va not aligned'' else
    if sz mod of_nat PGSIZE \<noteq> 0 then panic ''mappages: size not aligned'' else
    if sz = 0 then panic ''mappages: size'' else
    mappages_loop (unat sz div PGSIZE) pagetable va (va + sz - of_nat PGSIZE) pa perm)"

definition kvmmap :: "u64 \<Rightarrow> u64 \<Rightarrow> u64 \<Rightarrow> u64 \<Rightarrow> u64 \<Rightarrow> unit K" where
  "kvmmap kpgtbl va pa sz perm =
    bnd (mappages kpgtbl va sz pa perm) (\<lambda>r.
    whenk (r \<noteq> 0) (panic ''kvmmap''))"

definition ismapped :: "u64 \<Rightarrow> u64 \<Rightarrow> bool K" where
  "ismapped pagetable va =
    bnd (walk pagetable va False) (\<lambda>p.
    case p of None \<Rightarrow> ret False | Some p \<Rightarrow> bnd (get_pte p) (\<lambda>pte.
      ret (pte AND PTE_V \<noteq> 0)))"

section \<open>The kernel's page table\<close>

definition UART0 :: u64 where [simp]: "UART0 = 0x10000000"
definition VIRTIO0 :: u64 where [simp]: "VIRTIO0 = 0x10001000"
definition PLIC :: u64 where [simp]: "PLIC = 0x0c000000"

definition proc_mapstacks :: "u64 \<Rightarrow> unit K" where
  "proc_mapstacks kpgtbl = for_each [0..<NPROC] (\<lambda>p. bnd kalloc (\<lambda>pa.
    if pa = 0 then panic ''kalloc'' else
    kvmmap kpgtbl (KSTACK p) pa (of_nat PGSIZE) (PTE_R OR PTE_W)))"

definition kvmmake :: "u64 K" where
  "kvmmake =
    bnd kalloc (\<lambda>kpgtbl.
    sq (put_obj kpgtbl (PageTable (\<lambda>_. 0)))
    (sq (kvmmap kpgtbl UART0 UART0 (of_nat PGSIZE) (PTE_R OR PTE_W))
    (sq (kvmmap kpgtbl VIRTIO0 VIRTIO0 (of_nat PGSIZE) (PTE_R OR PTE_W))
    (sq (kvmmap kpgtbl PLIC PLIC 0x4000000 (PTE_R OR PTE_W))
    (bnd (getk (\<lambda>s. l_etext (lay s))) (\<lambda>etext.
    sq (kvmmap kpgtbl KERNBASE KERNBASE (etext - KERNBASE) (PTE_R OR PTE_X))
    (sq (kvmmap kpgtbl etext etext (PHYSTOP - etext) (PTE_R OR PTE_W))
    (bnd (getk (\<lambda>s. l_trampoline (lay s))) (\<lambda>trampoline.
    sq (kvmmap kpgtbl TRAMPOLINE trampoline (of_nat PGSIZE) (PTE_R OR PTE_X))
    (sq (proc_mapstacks kpgtbl)
    (ret kpgtbl)))))))))))"

definition kvminit :: "unit K" where
  "kvminit =
    bnd kvmmake (\<lambda>pt.
    modk (\<lambda>s. s\<lparr>kernel_pagetable := pt\<rparr>))"

definition MAKE_SATP :: "u64 \<Rightarrow> u64" where
  "MAKE_SATP pagetable = push_bit 60 8 OR drop_bit 12 pagetable"

definition w_csr :: "csr \<Rightarrow> u64 \<Rightarrow> unit K" where
  [kdefs]: "w_csr r v = modk (\<lambda>s. s\<lparr>csrs := (csrs s)(r := v)\<rparr>)"

definition r_csr :: "csr \<Rightarrow> u64 K" where
  [kdefs]: "r_csr r = getk (\<lambda>s. csrs s r)"

definition kvminithart :: "unit K" where
  "kvminithart =
    bnd (getk kernel_pagetable) (\<lambda>pt.
    w_csr SATP (MAKE_SATP pt))"

section \<open>User page tables\<close>

definition uvmcreate :: "u64 K" where
  "uvmcreate =
    bnd kalloc (\<lambda>pagetable.
    if pagetable = 0 then ret 0 else
    sq (put_obj pagetable (PageTable (\<lambda>_. 0)))
    (ret pagetable))"

definition unmap_one :: "u64 \<Rightarrow> u64 \<Rightarrow> bool \<Rightarrow> unit K" where
  "unmap_one pagetable a do_free =
    bnd (walk pagetable a False) (\<lambda>p.
    case p of None \<Rightarrow> ret () | Some p \<Rightarrow> bnd (get_pte p) (\<lambda>pte.
      if pte AND PTE_V = 0 then ret () else
      sq (whenk do_free (kfree (PTE2PA pte)))
      (set_pte p 0)))"

fun uvmunmap_loop :: "nat \<Rightarrow> u64 \<Rightarrow> u64 \<Rightarrow> u64 \<Rightarrow> bool \<Rightarrow> unit K" where
  "uvmunmap_loop 0 pagetable a lim do_free = fault"
| "uvmunmap_loop (Suc n) pagetable a lim do_free =
    (if a < lim then sq (unmap_one pagetable a do_free)
      (uvmunmap_loop n pagetable (a + of_nat PGSIZE) lim do_free)
     else ret ())"

definition uvmunmap :: "u64 \<Rightarrow> u64 \<Rightarrow> u64 \<Rightarrow> bool \<Rightarrow> unit K" where
  "uvmunmap pagetable va npages do_free =
    (if va mod of_nat PGSIZE \<noteq> 0 then panic ''uvmunmap: not aligned'' else
    uvmunmap_loop (Suc (unat npages)) pagetable va (va + npages * of_nat PGSIZE) do_free)"

text \<open>\<open>int npages\<close>: the quotient is truncated to 32 bits and sign-extended when it is passed on.\<close>

definition uvmdealloc :: "u64 \<Rightarrow> u64 \<Rightarrow> u64 \<Rightarrow> u64 K" where
  "uvmdealloc pagetable oldsz newsz =
    (if newsz \<ge> oldsz then ret oldsz else
    sq (whenk (PGROUNDUP newsz < PGROUNDUP oldsz)
      (let npages = (ucast ((PGROUNDUP oldsz - PGROUNDUP newsz) div of_nat PGSIZE) :: u32)
       in uvmunmap pagetable (PGROUNDUP newsz) (scast npages) True))
    (ret newsz))"

fun uvmalloc_loop :: "nat \<Rightarrow> u64 \<Rightarrow> u64 \<Rightarrow> u64 \<Rightarrow> u64 \<Rightarrow> u64 \<Rightarrow> u64 K" where
  "uvmalloc_loop 0 pagetable a oldsz newsz xperm = fault"
| "uvmalloc_loop (Suc n) pagetable a oldsz newsz xperm =
    (if a < newsz then bnd kalloc (\<lambda>mem.
      if mem = 0 then (bnd (uvmdealloc pagetable a oldsz) (\<lambda>_. ret 0)) else
      sq (fill_page mem 0)
      (bnd (mappages pagetable a (of_nat PGSIZE) mem (PTE_R OR PTE_U OR xperm)) (\<lambda>r.
      if r \<noteq> 0 then (sq (kfree mem)
        (bnd (uvmdealloc pagetable a oldsz) (\<lambda>_. ret 0))) else
      uvmalloc_loop n pagetable (a + of_nat PGSIZE) oldsz newsz xperm)))
     else ret newsz)"

definition uvmalloc :: "u64 \<Rightarrow> u64 \<Rightarrow> u64 \<Rightarrow> u64 \<Rightarrow> u64 K" where
  "uvmalloc pagetable oldsz newsz xperm =
    (if newsz < oldsz then ret oldsz
     else uvmalloc_loop (unat newsz div PGSIZE + 2) pagetable (PGROUNDUP oldsz) (PGROUNDUP oldsz) newsz xperm)"

text \<open>The recursion of \<open>freewalk\<close> follows the levels of the page table; the first argument bounds its depth.\<close>

primrec freewalk_level :: "nat \<Rightarrow> u64 \<Rightarrow> unit K" where
  "freewalk_level 0 pagetable = fault"
| "freewalk_level (Suc d) pagetable =
  sq (for_each [0..<512] (\<lambda>i. bnd (get_pte (pagetable, i)) (\<lambda>pte.
    if pte AND PTE_V \<noteq> 0 \<and> pte AND (PTE_R OR PTE_W OR PTE_X) = 0 then sq (freewalk_level d (PTE2PA pte))
      (set_pte (pagetable, i) 0)
      else whenk (pte AND PTE_V \<noteq> 0) (panic ''freewalk: leaf''))))
  (kfree pagetable)"

definition freewalk :: "u64 \<Rightarrow> unit K" where
  "freewalk pagetable = freewalk_level 3 pagetable"

definition uvmfree :: "u64 \<Rightarrow> u64 \<Rightarrow> unit K" where
  "uvmfree pagetable sz =
    sq (whenk (sz > 0) (uvmunmap pagetable 0 (PGROUNDUP sz div of_nat PGSIZE) True))
    (freewalk pagetable)"

text \<open>One page of \<open>uvmcopy\<close>; \<open>False\<close> is the jump to \<open>err\<close>.\<close>

definition uvmcopy_one :: "u64 \<Rightarrow> u64 \<Rightarrow> u64 \<Rightarrow> bool K" where
  "uvmcopy_one old new i =
    bnd (walk old i False) (\<lambda>p.
    case p of None \<Rightarrow> ret True | Some p \<Rightarrow> bnd (get_pte p) (\<lambda>pte.
      if pte AND PTE_V = 0 then ret True else
      bnd kalloc (\<lambda>mem.
      if mem = 0 then ret False else
      bnd (read_mem (PTE2PA pte) 0 PGSIZE) (\<lambda>bs.
      sq (write_mem mem 0 bs)
      (bnd (mappages new i (of_nat PGSIZE) mem (PTE_FLAGS pte)) (\<lambda>r.
      if r \<noteq> 0 then (sq (kfree mem)
        (ret False)) else
      ret True))))))"

fun uvmcopy_loop :: "nat \<Rightarrow> u64 \<Rightarrow> u64 \<Rightarrow> u64 \<Rightarrow> u64 \<Rightarrow> int K" where
  "uvmcopy_loop 0 old new i sz = fault"
| "uvmcopy_loop (Suc n) old new i sz =
    (if i < sz then bnd (uvmcopy_one old new i) (\<lambda>ok.
      if \<not> ok then (sq (uvmunmap new 0 (i div of_nat PGSIZE) True)
        (ret (-1))) else
      uvmcopy_loop n old new (i + of_nat PGSIZE) sz)
     else ret 0)"

definition uvmcopy :: "u64 \<Rightarrow> u64 \<Rightarrow> u64 \<Rightarrow> int K" where
  "uvmcopy old new sz = uvmcopy_loop (unat sz div PGSIZE + 2) old new 0 sz"

definition uvmclear :: "u64 \<Rightarrow> u64 \<Rightarrow> unit K" where
  "uvmclear pagetable va =
    bnd (walk pagetable va False) (\<lambda>p.
    case p of None \<Rightarrow> panic ''uvmclear'' | Some p \<Rightarrow> bnd (get_pte p) (\<lambda>pte.
      set_pte p (pte AND NOT PTE_U)))"

section \<open>Copying between kernel and user memory\<close>

definition vmfault :: "u64 \<Rightarrow> u64 \<Rightarrow> bool \<Rightarrow> u64 K" where
  "vmfault pagetable va read =
    bnd this_proc (\<lambda>p.
    bnd (getk (\<lambda>s. p_sz (procs s p))) (\<lambda>sz.
    if va \<ge> sz then ret 0 else
    (let va = PGROUNDDOWN va in
    bnd (ismapped pagetable va) (\<lambda>m.
    if m then ret 0 else
    bnd kalloc (\<lambda>mem.
    if mem = 0 then ret 0 else
    sq (fill_page mem 0)
    (bnd (getk (\<lambda>s. p_pagetable (procs s p))) (\<lambda>ppt.
    bnd (mappages ppt va (of_nat PGSIZE) mem (PTE_W OR PTE_U OR PTE_R)) (\<lambda>r.
    if r \<noteq> 0 then (sq (kfree mem)
      (ret 0)) else
    ret mem))))))))"

definition user_page :: "u64 \<Rightarrow> u64 \<Rightarrow> u64 K" where
  "user_page pagetable va0 =
    bnd (walkaddr pagetable va0) (\<lambda>pa0.
    if pa0 = 0 then vmfault pagetable va0 False else ret pa0)"

fun copyout_loop :: "nat \<Rightarrow> u64 \<Rightarrow> u64 \<Rightarrow> u8 list \<Rightarrow> int K" where
  "copyout_loop 0 pagetable dstva src = fault"
| "copyout_loop (Suc fuel) pagetable dstva src =
    (if src = [] then ret 0 else (let va0 = PGROUNDDOWN dstva in
      if va0 \<ge> MAXVA then ret (-1) else
      bnd (user_page pagetable va0) (\<lambda>pa0.
      if pa0 = 0 then ret (-1) else
      bnd (walk pagetable va0 False) (\<lambda>p.
      case p of None \<Rightarrow> fault | Some p \<Rightarrow> bnd (get_pte p) (\<lambda>pte.
        if pte AND PTE_W = 0 then ret (-1) else
        (let off = unat (dstva - va0) in
        (let n = min (PGSIZE - off) (length src) in
        sq (write_mem pa0 off (take n src))
        (copyout_loop fuel pagetable (va0 + of_nat PGSIZE) (drop n src)))))))))"

definition copyout :: "u64 \<Rightarrow> u64 \<Rightarrow> u8 list \<Rightarrow> int K" where
  "copyout pagetable dstva src = copyout_loop (length src div PGSIZE + 3) pagetable dstva src"

fun copyin_loop :: "nat \<Rightarrow> u64 \<Rightarrow> u64 \<Rightarrow> nat \<Rightarrow> (int \<times> u8 list) K" where
  "copyin_loop 0 pagetable srcva len = fault"
| "copyin_loop (Suc fuel) pagetable srcva len =
    (if len = 0 then ret (0, []) else (let va0 = PGROUNDDOWN srcva in
      bnd (user_page pagetable va0) (\<lambda>pa0.
      if pa0 = 0 then ret (-1, []) else
      (let off = unat (srcva - va0) in
      (let n = min (PGSIZE - off) len in
      bnd (read_mem pa0 off n) (\<lambda>bs.
      bnd (copyin_loop fuel pagetable (va0 + of_nat PGSIZE) (len - n)) (\<lambda>r.
      ret (fst r, bs @ snd r))))))))"

definition copyin :: "u64 \<Rightarrow> u64 \<Rightarrow> nat \<Rightarrow> (int \<times> u8 list) K" where
  "copyin pagetable srcva len = copyin_loop (len div PGSIZE + 3) pagetable srcva len"

fun upto_nul :: "u8 list \<Rightarrow> u8 list \<times> bool" where
  "upto_nul [] = ([], False)"
| "upto_nul (c # cs) = (if c = 0 then ([0], True) else (c # fst (upto_nul cs), snd (upto_nul cs)))"

text \<open>The inner loop of \<open>copyinstr\<close> copies the bytes of one page up to and including a NUL: \<open>upto_nul\<close>.\<close>

fun copyinstr_loop :: "nat \<Rightarrow> u64 \<Rightarrow> u64 \<Rightarrow> nat \<Rightarrow> (int \<times> u8 list) K" where
  "copyinstr_loop 0 pagetable srcva mx = fault"
| "copyinstr_loop (Suc fuel) pagetable srcva mx =
    (if mx = 0 then ret (-1, []) else (let va0 = PGROUNDDOWN srcva in
      bnd (walkaddr pagetable va0) (\<lambda>pa0.
      if pa0 = 0 then ret (-1, []) else
      (let off = unat (srcva - va0) in
      (let n = min (PGSIZE - off) mx in
      bnd (read_mem pa0 off n) (\<lambda>bs.
      if snd (upto_nul bs) then ret (0, fst (upto_nul bs)) else
      bnd (copyinstr_loop fuel pagetable (va0 + of_nat PGSIZE) (mx - n)) (\<lambda>r.
      ret (fst r, bs @ snd r))))))))"

definition copyinstr :: "u64 \<Rightarrow> u64 \<Rightarrow> nat \<Rightarrow> (int \<times> u8 list) K" where
  "copyinstr pagetable srcva mx = copyinstr_loop (mx div PGSIZE + 3) pagetable srcva mx"

end
