(* ===== verification/Pagetable.thy ===== *)
theory Pagetable
  imports Vm
begin

text \<open>
  What the page-table code of \<open>vm.c\<close> does to the address space: the three-level tree behind a root page as a
  partial map from virtual page numbers to leaf entries (\<open>pte\<close>), the invariant that the tree's pages are table
  pages without sharing (\<open>pt_wf\<close>), and user memory as the bytes a user program sees (\<open>umem\<close>). \<open>walk\<close>,
  \<open>mappages\<close>, \<open>walkaddr\<close>, \<open>copyout\<close> and \<open>copyin\<close> are specified over these abstractions. The fuel of the loops
  is shown to be enough on the way.
\<close>

section \<open>The tree of page-table pages\<close>

text \<open>
  \<open>entry h x i\<close> is entry \<open>i\<close> of the page-table page \<open>x\<close>; \<open>node\<close> follows valid entries from a page along a
  list of indices. The page tables below \<open>r\<close> are well-formed when every page reached in at most two steps is
  one and is reached in one way only. \<open>pte h r n\<close> is the leaf entry of the virtual page number \<open>n\<close>, 0 if there
  is no leaf page for it. An index above 511 is never used; such an entry stays 0.
\<close>

type_synonym pheap = "u64 \<Rightarrow> kobj option"

definition entry :: "pheap \<Rightarrow> u64 \<Rightarrow> nat \<Rightarrow> u64" where
  "entry h x i = (case h x of Some (PageTable f) \<Rightarrow> f i | _ \<Rightarrow> 0)"

fun node :: "(u64 \<Rightarrow> nat \<Rightarrow> u64) \<Rightarrow> u64 \<Rightarrow> nat list \<Rightarrow> u64 option" where
  "node E r [] = Some r"
| "node E r (i # is) = (if E r i AND PTE_V \<noteq> 0 then node E (PTE2PA (E r i)) is else None)"

definition pt_wf :: "pheap \<Rightarrow> u64 \<Rightarrow> bool" where
  "pt_wf h r \<longleftrightarrow> (\<forall>p x. length p \<le> 2 \<and> node (entry h) r p = Some x \<longrightarrow>
     (\<exists>f. h x = Some (PageTable f)) \<and> (\<forall>q. length q \<le> 2 \<and> node (entry h) r q = Some x \<longrightarrow> q = p))"

definition vpath :: "nat \<Rightarrow> nat list" where
  "vpath n = [n div 512 ^ 2 mod 512, n div 512 mod 512]"

lemma length_vpath [simp]: "length (vpath n) = 2"
  by (simp add: vpath_def)

lemma length_take_vpath: "length (take k (vpath n)) \<le> 2"
  by simp

definition pte :: "pheap \<Rightarrow> u64 \<Rightarrow> nat \<Rightarrow> u64" where
  "pte h r n = (case node (entry h) r (vpath n) of None \<Rightarrow> 0 | Some x \<Rightarrow> entry h x (n mod 512))"

definition vpn :: "u64 \<Rightarrow> nat" where
  "vpn va = unat va div 4096"

lemma unat_of_nat64: "n < 2 ^ 64 \<Longrightarrow> unat (of_nat n :: u64) = n"
  by (simp only: unsigned_of_nat) (simp add: take_bit_nat_eq_self)

lemma or_and_nz: "(p :: u64) AND u \<noteq> 0 \<Longrightarrow> (x OR p OR y) AND u \<noteq> 0"
  by (auto simp: bit_eq_iff bit_and_iff bit_or_iff)

lemma page_add_mod:
  assumes "(pa :: u64) mod 4096 = 0"
  shows "(pa + of_nat (4096 * j)) mod 4096 = 0"
proof -
  have "unat (of_nat (4096 * j) :: u64) = 4096 * j mod 2 ^ 64"
    by (simp only: unsigned_of_nat) (simp add: take_bit_eq_mod)
  then have "unat (pa + of_nat (4096 * j)) = (unat pa + 4096 * j mod 2 ^ 64) mod 2 ^ 64"
    by (simp only: unat_word_ariths) simp
  then have "unat (pa + of_nat (4096 * j)) = (unat pa + 4096 * j) mod 2 ^ 64" by (simp only: mod_add_right_eq)
  moreover have "x mod 2 ^ 64 mod 4096 = x mod 4096" for x :: nat by (rule mod_mod_cancel) simp
  ultimately show ?thesis using assms by (simp only: mod_page_iff) simp
qed

lemma unat_drop: "unat (drop_bit k (a :: u64)) = unat a div 2 ^ k"
  by (simp only: unat_drop_bit_eq) (simp only: drop_bit_eq_div)

lemma PX_vpn: "PX l va = vpn va div 512 ^ l mod 512"
proof -
  have "drop_bit (12 + 9 * l) va AND 0x1FF = take_bit 9 (drop_bit (12 + 9 * l) va)"
    by (simp add: take_bit_eq_mask mask_eq_exp_minus_1)
  then have "PX l va = unat va div 2 ^ (12 + 9 * l) mod 512"
    by (simp only: PX_def unsigned_take_bit_eq unat_drop) (simp add: take_bit_eq_mod)
  also have "(2 :: nat) ^ (12 + 9 * l) = 4096 * 512 ^ l"
    by (simp add: power_add power_mult)
  finally show ?thesis by (simp add: vpn_def div_mult2_eq)
qed

lemma vpath_inj:
  assumes "vpath m = vpath n" "m mod 512 = n mod 512" "m < 2 ^ 27" "n < 2 ^ 27"
  shows "m = n"
proof -
  have d: "k div 512 ^ 2 mod 512 = k div 512 div 512" if "k < 2 ^ 27" for k :: nat
    using that by (simp add: div_mult2_eq [symmetric] less_mult_imp_div_less)
  have "m div 512 div 512 = n div 512 div 512" "m div 512 mod 512 = n div 512 mod 512"
    using assms(1,3,4) by (simp_all add: vpath_def flip: d)
  then have "m div 512 = n div 512" by (metis div_mult_mod_eq)
  then show ?thesis using assms(2) by (metis div_mult_mod_eq)
qed

lemma PA2PTE_bits: "bit (PA2PTE pa) k \<longleftrightarrow> 10 \<le> k \<and> k < 62 \<and> bit pa (k + 2)"
proof (cases "10 \<le> k")
  case True
  then have "12 + (k - 10) = k + 2" by simp
  then show ?thesis
    using True unfolding PA2PTE_def bit_push_bit_iff bit_drop_bit_eq comp_def
    by (auto dest: bit_imp_le_length)
qed (simp add: PA2PTE_def bit_push_bit_iff)

text \<open>An entry made from a page and permission bits is valid and leads back to the page.\<close>

lemma PTE_of_page:
  assumes "pa mod 4096 = 0" "perm < 1024"
  shows "PTE2PA (PA2PTE pa OR perm OR PTE_V) = pa" "(PA2PTE pa OR perm OR PTE_V) AND PTE_V \<noteq> 0"
    "PTE_FLAGS (PA2PTE pa OR perm OR PTE_V) = perm OR PTE_V"
proof -
  have lo: "12 \<le> k" if "bit pa k" for k
  proof (rule ccontr)
    assume "\<not> 12 \<le> k"
    moreover
    have "take_bit 12 pa = 0" using assms(1) by (simp add: take_bit_eq_mod)
    ultimately show False using that by (metis bit_0_eq bit_take_bit_iff bot_apply bot_bool_def not_le)
  qed
  have hi: "\<not> bit perm k" if "10 \<le> k" for k
  proof -
    have "unat (perm mod 1024) = unat perm" using assms(2) by (simp add: unat_mod word_less_nat_alt)
    then have "take_bit 10 perm = perm" by (simp add: take_bit_eq_mod word_unat_eq_iff)
    then show ?thesis using that by (metis bit_take_bit_iff not_less)
  qed
  show "PTE2PA (PA2PTE pa OR perm OR PTE_V) = pa"
    by (rule bit_word_eqI)
      (use hi in \<open>auto simp: PTE2PA_def PA2PTE_bits bit_simps not_le dest: lo intro: subst [OF le_add_diff_inverse [symmetric], of 12 _ "bit pa"]\<close>)
  show "(PA2PTE pa OR perm OR PTE_V) AND PTE_V \<noteq> 0"
    by (simp add: and_one_eq even_or_iff flip: odd_iff_mod_2_eq_one)
  have m: "(0x3FF :: u64) = mask 10" by (simp add: mask_eq_exp_minus_1)
  show "PTE_FLAGS (PA2PTE pa OR perm OR PTE_V) = perm OR PTE_V"
    unfolding PTE_FLAGS_def m
    by (rule bit_word_eqI) (use hi in \<open>auto simp: PA2PTE_bits bit_simps simp flip: not_le\<close>)
qed

section \<open>How updates change the tree\<close>

lemma entry_upd:
  "h x = Some (PageTable f) \<Longrightarrow> entry (h(x \<mapsto> PageTable (f(i := v)))) = (entry h)(x := (entry h x)(i := v))"
  by (auto simp: entry_def fun_eq_iff)

lemma entry_blank:
  "(\<And>f. h x \<noteq> Some (PageTable f)) \<Longrightarrow> (\<And>f. ob = PageTable f \<Longrightarrow> f = (\<lambda>_. 0)) \<Longrightarrow> entry (h(x \<mapsto> ob)) = entry h"
  by (auto simp: entry_def fun_eq_iff split: option.splits kobj.splits)

lemma node_append: "node E r (p @ q) = (case node E r p of None \<Rightarrow> None | Some x \<Rightarrow> node E x q)"
  by (induction p arbitrary: r) simp_all

lemma node_upd:
  "(\<And>k. k < length q \<Longrightarrow> node E r (take k q) = Some x \<Longrightarrow> q ! k \<noteq> i) \<Longrightarrow>
   node (E(x := (E x)(i := v))) r q = node E r q"
proof (induction q arbitrary: r)
  case (Cons j q)
  have e: "(E(x := (E x)(i := v))) r j = E r j" using Cons.prems [of 0] by auto
  show ?case
  proof (cases "E r j AND PTE_V = 0")
    case False
    have "node (E(x := (E x)(i := v))) (PTE2PA (E r j)) q = node E (PTE2PA (E r j)) q"
    proof (rule Cons.IH)
      show "q ! k \<noteq> i" if "k < length q" "node E (PTE2PA (E r j)) (take k q) = Some x" for k
        using Cons.prems [of "Suc k"] that False by simp
    qed
    then show ?thesis by (simp only: node.simps e)
  next
    case True
    then show ?thesis by (simp only: node.simps e) simp
  qed
qed simp

lemma pt_wfD:
  "pt_wf h r \<Longrightarrow> length p \<le> 2 \<Longrightarrow> node (entry h) r p = Some x \<Longrightarrow> \<exists>f. h x = Some (PageTable f)"
  "pt_wf h r \<Longrightarrow> length p \<le> 2 \<Longrightarrow> node (entry h) r p = Some x \<Longrightarrow>
    length q \<le> 2 \<Longrightarrow> node (entry h) r q = Some x \<Longrightarrow> q = p"
  unfolding pt_wf_def by blast+

lemma node_grow:
  assumes wf: "pt_wf h r" "length p \<le> 1" "node (entry h) r p = Some x" "entry h x i AND PTE_V = 0"
    and v: "v AND PTE_V \<noteq> 0" "PTE2PA v = pg" "entry h pg = (\<lambda>_. 0)" "pg \<noteq> x"
    and q: "length q \<le> 2"
  shows "node ((entry h)(x := (entry h x)(i := v))) r q = (if q = p @ [i] then Some pg else node (entry h) r q)"
proof -
  let ?E = "(entry h)(x := (entry h x)(i := v))"
  have only: "take k q' = p" if "length q' \<le> 2" "node (entry h) r (take k q') = Some x" for k q'
    using pt_wfD(2) [OF wf(1) _ wf(3), of "take k q'"] that wf(2) by auto
  have p: "node ?E r p = Some x"
    using wf(3) only [of p] wf(2) by (subst node_upd) fastforce+
  show ?thesis
  proof (cases "\<exists>t. q = p @ i # t")
    case True
    then obtain t where t: "q = p @ i # t" by blast
    have "node ?E r q = node ?E pg t" using p v t by (simp add: node_append)
    moreover have "node ?E pg t = (if t = [] then Some pg else None)"
      using v by (cases t) simp_all
    moreover have "node (entry h) r q = None" using t wf(3,4) by (simp add: node_append)
    ultimately show ?thesis using t by simp
  next
    case False
    have "node ?E r q = node (entry h) r q"
    proof (rule node_upd)
      fix k assume k: "k < length q" "node (entry h) r (take k q) = Some x"
      then have "take k q = p" using only q by blast
      then show "q ! k \<noteq> i" using False k(1) id_take_nth_drop [OF k(1)] by auto
    qed
    then show ?thesis using False by auto
  qed
qed

text \<open>Hanging a fresh table page below an invalid entry.\<close>

lemma grow:
  assumes wf: "pt_wf h r" "length p \<le> 1" "node (entry h) r p = Some x" "entry h x i AND PTE_V = 0"
    and v: "v AND PTE_V \<noteq> 0" "PTE2PA v = pg" "\<And>f. h pg \<noteq> Some (PageTable f)"
    and h': "entry h' = (entry h)(x := (entry h x)(i := v))" "\<And>y. y \<noteq> x \<Longrightarrow> y \<noteq> pg \<Longrightarrow> h' y = h y"
      "h' pg = Some (PageTable (\<lambda>_. 0))" "\<exists>f. h' x = Some (PageTable f)"
  shows "pt_wf h' r" "pte h' r n = pte h r n" "node (entry h') r (p @ [i]) = Some pg"
proof -
  have z: "entry h pg = (\<lambda>_. 0)" using v(3) by (auto simp: entry_def fun_eq_iff split: option.splits kobj.splits)
  have px: "pg \<noteq> x" using pt_wfD(1) [OF wf(1) _ wf(3)] wf(2) v(3) by auto
  have nd: "node (entry h') r q = (if q = p @ [i] then Some pg else node (entry h) r q)" if "length q \<le> 2" for q
    unfolding h'(1) using node_grow [OF wf v(1,2) z px that] .
  have old: "y \<noteq> pg" if "length q \<le> 2" "node (entry h) r q = Some y" for q y
    using pt_wfD(1) [OF wf(1) that] v(3) by auto
  show "pt_wf h' r"
    unfolding pt_wf_def
  proof (intro allI impI conjI; elim conjE)
    fix q y assume q: "length q \<le> 2" "node (entry h') r q = Some y"
    show "\<exists>f. h' y = Some (PageTable f)"
      using q nd [OF q(1)] h'(2-4) pt_wfD(1) [OF wf(1) q(1)] by (metis option.inject)
    fix q' assume q': "length q' \<le> 2" "node (entry h') r q' = Some y"
    show "q' = q"
      using q q' nd [OF q(1)] nd [OF q'(1)] old [OF q(1)] old [OF q'(1)] pt_wfD(2) [OF wf(1) q(1) _ q'(1)]
      by (auto split: if_splits)
  qed
  show "node (entry h') r (p @ [i]) = Some pg" using nd [of "p @ [i]"] wf(2) by simp
  have "entry h' y (n mod 512) = entry h y (n mod 512)" if "node (entry h) r (vpath n) = Some y" for y
  proof -
    have "y \<noteq> x" using pt_wfD(2) [OF wf(1) _ wf(3), of "vpath n"] that wf(2) by auto
    then show ?thesis by (simp add: h'(1))
  qed
  moreover have "node (entry h) r (p @ [i]) = None" using wf(3,4) by (simp add: node_append)
  moreover have "entry h' pg (n mod 512) = 0" by (simp add: h'(1) z px)
  ultimately show "pte h' r n = pte h r n"
    using nd [of "vpath n"] wf(2) unfolding pte_def by (cases "vpath n = p @ [i]") (simp_all split: option.splits)
qed

text \<open>Writing a leaf entry.\<close>

lemma set_leaf:
  assumes wf: "pt_wf h r" "node (entry h) r (vpath n) = Some x" "n < 2 ^ 27" "h x = Some (PageTable f)"
    and h': "h' = h(x \<mapsto> PageTable (f(n mod 512 := v)))"
  shows "pt_wf h' r" "m < 2 ^ 27 \<Longrightarrow> pte h' r m = (if m = n then v else pte h r m)"
proof -
  have e: "entry h' = (entry h)(x := (entry h x)(n mod 512 := v))" using wf(4) by (simp add: h' entry_upd)
  have nd: "node (entry h') r q = node (entry h) r q" if "length q \<le> 2" for q
    unfolding e
  proof (rule node_upd)
    fix k assume k: "k < length q" "node (entry h) r (take k q) = Some x"
    then have "take k q = vpath n" using pt_wfD(2) [OF wf(1) _ wf(2), of "take k q"] that by auto
    then have "min k (length q) = 2" by (metis length_take length_vpath min.commute)
    then show "q ! k \<noteq> n mod 512" using k(1) that by simp
  qed
  have tab: "(\<exists>f. h' y = Some (PageTable f)) = (\<exists>f. h y = Some (PageTable f))" for y
    using wf(4) by (auto simp: h')
  show "pt_wf h' r" using wf(1) unfolding pt_wf_def tab by (metis nd)
  assume m: "m < 2 ^ 27"
  have "m = n" if "node (entry h) r (vpath m) = Some x" "m mod 512 = n mod 512"
    using pt_wfD(2) [OF wf(1) _ wf(2) _ that(1)] vpath_inj [OF _ that(2) m wf(3)] by simp
  then show "pte h' r m = (if m = n then v else pte h r m)"
    using nd [of "vpath m"] nd [of "vpath n"] wf(2) by (auto simp: pte_def e split: option.splits)
qed

section \<open>Walking\<close>

text \<open>\<open>grows s xs s' ys\<close>: from \<open>s\<close> to \<open>s'\<close> the tables below \<open>r\<close> got new pages, taken from the front of the free list
  \<open>xs\<close>, without a change to any leaf entry; nothing but page-table pages changed.\<close>

definition grows :: "u64 \<Rightarrow> kstate \<Rightarrow> u64 list \<Rightarrow> kstate \<Rightarrow> u64 list \<Rightarrow> bool" where
  "grows r s xs s' ys \<longleftrightarrow> pt_wf (heap s') r \<and> kmem_wf s' ys \<and> (\<exists>zs. xs = zs @ ys) \<and>
     (\<forall>n. pte (heap s') r n = pte (heap s) r n) \<and> (\<exists>fl h. s' = s\<lparr>freelist := fl, heap := h\<rparr>) \<and>
     (\<forall>x. x \<notin> set xs \<longrightarrow> (\<forall>f. heap s x \<noteq> Some (PageTable f)) \<longrightarrow> heap s' x = heap s x)"

lemma grows_refl: "pt_wf (heap s) r \<Longrightarrow> kmem_wf s xs \<Longrightarrow> grows r s xs s xs"
  by (auto simp: grows_def intro!: exI [of _ "freelist s"] exI [of _ "heap s"])

lemma grows_trans:
  assumes "grows r s xs s' ys" "grows r s' ys s'' zs"
  shows "grows r s xs s'' zs"
proof -
  obtain fl h us where 1: "s' = s\<lparr>freelist := fl, heap := h\<rparr>" "xs = us @ ys"
      "\<forall>x. x \<notin> set xs \<longrightarrow> (\<forall>f. heap s x \<noteq> Some (PageTable f)) \<longrightarrow> heap s' x = heap s x"
      "\<forall>n. pte (heap s') r n = pte (heap s) r n"
    using assms(1) unfolding grows_def by blast
  obtain fl' h' vs where 2: "pt_wf (heap s'') r" "kmem_wf s'' zs" "s'' = s'\<lparr>freelist := fl', heap := h'\<rparr>" "ys = vs @ zs"
      "\<forall>x. x \<notin> set ys \<longrightarrow> (\<forall>f. heap s' x \<noteq> Some (PageTable f)) \<longrightarrow> heap s'' x = heap s' x"
      "\<forall>n. pte (heap s'') r n = pte (heap s') r n"
    using assms(2) unfolding grows_def by blast
  have "s'' = s\<lparr>freelist := fl', heap := h'\<rparr>" "xs = (us @ vs) @ zs" using 1 2 by simp_all
  then show ?thesis using 1(2-4) 2(1,2,4-6) unfolding grows_def by (metis Un_iff set_append)
qed

lemma walk_loop_look:
  assumes "pt_wf (heap s) r" "l \<le> 2" "node (entry (heap s)) r (take (2 - l) (vpath (vpn va))) = Some pt"
  shows "walk_loop l pt va False s =
    Done (map_option (\<lambda>x. (x, PX 0 va)) (node (entry (heap s)) r (vpath (vpn va)))) s"
  using assms(2,3)
proof (induction l arbitrary: pt)
  case (Suc l)
  let ?p = "take (2 - Suc l) (vpath (vpn va))"
  have t: "take (2 - l) (vpath (vpn va)) = ?p @ [PX (Suc l) va]"
    using Suc.prems(1) by (cases l) (auto simp: PX_vpn vpath_def numeral_2_eq_2)
  obtain f where f: "heap s pt = Some (PageTable f)"
    using pt_wfD(1) [OF assms(1) length_take_vpath Suc.prems(2)] by auto
  then have e: "entry (heap s) pt (PX (Suc l) va) = f (PX (Suc l) va)" by (simp add: entry_def)
  have nd: "node (entry (heap s)) r (take (2 - l) (vpath (vpn va))) =
      (if f (PX (Suc l) va) AND PTE_V \<noteq> 0 then Some (PTE2PA (f (PX (Suc l) va))) else None)"
    using Suc.prems(2) by (simp add: t node_append e)
  have none: "node (entry (heap s)) r (vpath (vpn va)) = None" if "f (PX (Suc l) va) AND PTE_V = 0"
    using nd that node_append [of "entry (heap s)" r "take (2 - l) (vpath (vpn va))" "drop (2 - l) (vpath (vpn va))"]
    by simp
  show ?case
  proof (cases "f (PX (Suc l) va) AND PTE_V = 0")
    case True
    then show ?thesis using f none by (simp add: get_pte_def ret_def)
  next
    case False
    then show ?thesis using f nd Suc.IH Suc.prems by (simp add: get_pte_def)
  qed
qed (simp add: ret_def)

lemma walk_look:
  assumes "pt_wf (heap s) r" "va < MAXVA"
  shows "walk r va False s = Done (map_option (\<lambda>x. (x, PX 0 va)) (node (entry (heap s)) r (vpath (vpn va)))) s"
  using walk_loop_look [OF assms(1), of 2 va r] assms(2) by (auto simp: walk_def)

lemma walk_alloc_step:
  assumes wf: "pt_wf (heap s) r" "length p \<le> 1" "node (entry (heap s)) r p = Some pt" "heap s pt = Some (PageTable f)"
    and f: "f i AND PTE_V = 0" and km: "kmem_wf s (pg # xs)" "held s = {}"
  shows "\<exists>fl. let s' = s\<lparr>freelist := fl, heap := (heap s)(pg \<mapsto> PageTable (\<lambda>_. 0), pt \<mapsto> PageTable (f(i := PA2PTE pg OR PTE_V)))\<rparr> in
    bnd kalloc (\<lambda>x. if x = 0 then ret None else sq (put_obj x (PageTable (\<lambda>_. 0)))
      (sq (set_pte (pt, i) (PA2PTE x OR PTE_V)) (k x))) s = k pg s' \<and>
    grows r s (pg # xs) s' xs \<and> node (entry (heap s')) r (p @ [i]) = Some pg"
proof -
  let ?v = "PA2PTE pg OR PTE_V"
  obtain fl where k: "kalloc s = Done pg (after_kalloc s pg fl)" "kmem_wf (after_kalloc s pg fl) xs"
    using kalloc_some [OF km(1)] km(2) by auto
  have pg: "pg \<noteq> 0" "pg mod 4096 = 0" "pg \<notin> set xs" using km(1) by (auto simp: kmem_wf_def valid_page_def)
  have run: "\<exists>n. heap s pg = Some (Run n)" using km(1) by (auto simp: kmem_wf_def)
  have px: "pg \<noteq> pt" using run wf(4) by auto
  have pt: "pt \<notin> set xs" using kmem_wf_used [OF km(1) wf(4)] by simp
  let ?h = "(heap s)(pg \<mapsto> PageTable (\<lambda>_. 0), pt \<mapsto> PageTable (f(i := ?v)))"
  let ?s = "s\<lparr>freelist := fl, heap := ?h\<rparr>"
  have e: "entry ?h = (entry (heap s))(pt := (entry (heap s) pt)(i := ?v))"
    using px wf(4) run entry_blank [of "heap s" pg "PageTable (\<lambda>_. 0)"] by (subst entry_upd) auto
  have v: "?v AND PTE_V \<noteq> 0" "PTE2PA ?v = pg" using PTE_of_page [OF pg(2), of 0] by simp_all
  have i0: "entry (heap s) pt i AND PTE_V = 0" using wf(4) f by (simp add: entry_def)
  have nr: "heap s pg \<noteq> Some (PageTable g)" for g using run by auto
  have g: "pt_wf ?h r" "pte ?h r n = pte (heap s) r n" "node (entry ?h) r (p @ [i]) = Some pg" for n
    by (rule grow [OF wf(1-3) i0 v nr e]; use px in simp)+
  have "kmem_wf ?s xs" using pg(3) pt by (intro kmem_wf_cong [OF k(2)]) (auto simp: after_kalloc_def)
  moreover have "\<forall>x. x \<notin> set (pg # xs) \<longrightarrow> (\<forall>f. heap s x \<noteq> Some (PageTable f)) \<longrightarrow> ?h x = heap s x"
    using wf(4) by auto
  ultimately have "grows r s (pg # xs) ?s xs \<and> node (entry (heap ?s)) r (p @ [i]) = Some pg"
    unfolding grows_def using g by (auto intro: exI [of _ "[pg]"])
  moreover have "put_obj pg (PageTable (\<lambda>_. 0)) (after_kalloc s pg fl) =
      Done () (s\<lparr>freelist := fl, heap := (heap s)(pg \<mapsto> PageTable (\<lambda>_. 0))\<rparr>)"
    by (simp add: put_obj_def after_kalloc_def)
  ultimately show ?thesis
    using k(1) pg(1) px wf(4) by (intro exI [of _ fl]) (simp add: Let_def set_pte_def)
qed

lemma walk_loop_alloc:
  assumes "pt_wf (heap s) r" "l \<le> 2" "node (entry (heap s)) r (take (2 - l) (vpath (vpn va))) = Some pt"
    and "kmem_wf s xs" "held s = {}"
  shows "\<exists>q s' ys. walk_loop l pt va True s = Done q s' \<and> grows r s xs s' ys \<and>
    (case q of None \<Rightarrow> ys = [] | Some (x, i) \<Rightarrow> i = PX 0 va \<and> node (entry (heap s')) r (vpath (vpn va)) = Some x)"
  using assms
proof (induction l arbitrary: pt s xs)
  case 0
  then show ?case by (auto simp: ret_def intro: grows_refl)
next
  case (Suc l)
  let ?p = "take (2 - Suc l) (vpath (vpn va))" and ?i = "PX (Suc l) va"
  have t: "take (2 - l) (vpath (vpn va)) = ?p @ [?i]" and lp: "length ?p \<le> 1"
    using Suc.prems(2) by (cases l; auto simp: PX_vpn vpath_def numeral_2_eq_2)+
  obtain f where f: "heap s pt = Some (PageTable f)"
    using pt_wfD(1) [OF Suc.prems(1) length_take_vpath Suc.prems(3)] by auto
  have g: "get_pte (pt, ?i) s = Done (f ?i) s" using f by (simp add: get_pte_def)
  have l: "l \<le> 2" using Suc.prems(2) by simp
  consider (valid) "f ?i AND PTE_V \<noteq> 0" | (full) "f ?i AND PTE_V = 0" "xs = []"
    | (new) pg xs' where "f ?i AND PTE_V = 0" "xs = pg # xs'"
    by (cases xs) auto
  then show ?case
  proof cases
    case valid
    have "entry (heap s) pt ?i = f ?i" using f by (simp add: entry_def)
    then have "node (entry (heap s)) r (take (2 - l) (vpath (vpn va))) = Some (PTE2PA (f ?i))"
      using Suc.prems(3) valid by (simp add: t node_append)
    from Suc.IH [OF Suc.prems(1) l this Suc.prems(4,5)] show ?thesis using g valid by simp
  next
    case full
    then have "walk_loop (Suc l) pt va True s = Done None s"
      using g kalloc_none [of s] Suc.prems(4,5) by (simp add: ret_def)
    moreover have "grows r s xs s xs" using Suc.prems(1,4) by (rule grows_refl)
    ultimately show ?thesis using full by (intro exI [of _ None] exI [of _ s] exI [of _ xs]) simp
  next
    case new
    obtain s1 where 1: "walk_loop (Suc l) pt va True s = walk_loop l pg va True s1" "grows r s xs s1 xs'"
        "node (entry (heap s1)) r (take (2 - l) (vpath (vpn va))) = Some pg" "held s1 = {}"
      using walk_alloc_step [OF Suc.prems(1) lp Suc.prems(3) f new(1), of pg xs' "\<lambda>x. walk_loop l x va True"]
        g new Suc.prems(4,5) unfolding t by (auto simp: Let_def)
    have "pt_wf (heap s1) r" "kmem_wf s1 xs'" using 1(2) by (simp_all add: grows_def)
    from Suc.IH [OF this(1) l 1(3) this(2) 1(4)] show ?thesis
      unfolding 1(1) using grows_trans [OF 1(2)] by blast
  qed
qed

lemma walk_alloc:
  assumes "pt_wf (heap s) r" "va < MAXVA" "kmem_wf s xs" "held s = {}"
  shows "\<exists>q s' ys. walk r va True s = Done q s' \<and> grows r s xs s' ys \<and>
    (case q of None \<Rightarrow> ys = [] | Some (x, i) \<Rightarrow> i = PX 0 va \<and> node (entry (heap s')) r (vpath (vpn va)) = Some x)"
proof -
  have "walk r va True = walk_loop 2 r va True" using assms(2) by (auto simp: walk_def)
  then show ?thesis using walk_loop_alloc [OF assms(1), of 2 va r xs] assms(3,4) by simp
qed

section \<open>Mapping\<close>

text \<open>\<open>maps r s xs s' ys n m pa perm\<close>: from \<open>s\<close> to \<open>s'\<close> the \<open>m\<close> pages from page number \<open>n\<close> on were mapped to the
  physical pages from \<open>pa\<close> on, and no other leaf entry changed. The free list went from \<open>xs\<close> to \<open>ys\<close>.\<close>

definition maps :: "u64 \<Rightarrow> kstate \<Rightarrow> u64 list \<Rightarrow> kstate \<Rightarrow> u64 list \<Rightarrow> nat \<Rightarrow> nat \<Rightarrow> u64 \<Rightarrow> u64 \<Rightarrow> bool" where
  "maps r s xs s' ys n m pa perm \<longleftrightarrow> pt_wf (heap s') r \<and> kmem_wf s' ys \<and> (\<exists>zs. xs = zs @ ys) \<and>
     (\<forall>k < 2 ^ 27. pte (heap s') r k =
       (if n \<le> k \<and> k < n + m then PA2PTE (pa + of_nat (4096 * (k - n))) OR perm OR PTE_V else pte (heap s) r k)) \<and>
     (\<exists>fl h. s' = s\<lparr>freelist := fl, heap := h\<rparr>) \<and>
     (\<forall>x. x \<notin> set xs \<longrightarrow> (\<forall>f. heap s x \<noteq> Some (PageTable f)) \<longrightarrow> heap s' x = heap s x)"

lemma maps_0: "grows r s xs s' ys \<Longrightarrow> maps r s xs s' ys n 0 pa perm"
  by (auto simp: maps_def grows_def)

lemma maps_Suc:
  assumes "maps r s xs s' ys n 1 pa perm" "maps r s' ys s'' zs (Suc n) m (pa + 4096) perm"
  shows "maps r s xs s'' zs n (Suc m) pa perm"
proof -
  obtain fl h us where 1: "s' = s\<lparr>freelist := fl, heap := h\<rparr>" "xs = us @ ys"
      "\<forall>x. x \<notin> set xs \<longrightarrow> (\<forall>f. heap s x \<noteq> Some (PageTable f)) \<longrightarrow> heap s' x = heap s x"
      "\<forall>k < 2 ^ 27. pte (heap s') r k = (if n \<le> k \<and> k < n + 1 then PA2PTE (pa + of_nat (4096 * (k - n))) OR perm OR PTE_V else pte (heap s) r k)"
    using assms(1) unfolding maps_def by blast
  obtain fl' h' vs where 2: "pt_wf (heap s'') r" "kmem_wf s'' zs" "s'' = s'\<lparr>freelist := fl', heap := h'\<rparr>" "ys = vs @ zs"
      "\<forall>x. x \<notin> set ys \<longrightarrow> (\<forall>f. heap s' x \<noteq> Some (PageTable f)) \<longrightarrow> heap s'' x = heap s' x"
      "\<forall>k < 2 ^ 27. pte (heap s'') r k = (if Suc n \<le> k \<and> k < Suc n + m then PA2PTE (pa + 4096 + of_nat (4096 * (k - Suc n))) OR perm OR PTE_V else pte (heap s') r k)"
    using assms(2) unfolding maps_def by blast
  have eq: "s'' = s\<lparr>freelist := fl', heap := h'\<rparr>" "xs = (us @ vs) @ zs" using 1 2 by simp_all
  have "pa + 4096 + of_nat (4096 * (k - Suc n)) = pa + of_nat (4096 * (k - n))" if "Suc n \<le> k" for k
  proof -
    have "k - n = Suc (k - Suc n)" using that by simp
    then show ?thesis by (simp only:) (simp add: algebra_simps)
  qed
  then have "\<forall>k < 2 ^ 27. pte (heap s'') r k =
      (if n \<le> k \<and> k < n + Suc m then PA2PTE (pa + of_nat (4096 * (k - n))) OR perm OR PTE_V else pte (heap s) r k)"
    using 1(4) 2(6) by (auto simp: not_less_eq_eq)
  then show ?thesis using eq 1(2,3) 2(1,2,4,5) unfolding maps_def by (metis Un_iff set_append)
qed

lemma vpn_less: "va < MAXVA \<Longrightarrow> vpn va < 2 ^ 26"
  by (simp add: vpn_def word_less_nat_alt less_mult_imp_div_less)

text \<open>One iteration of the loop of \<open>mappages\<close>.\<close>

lemma map_one:
  assumes "pt_wf (heap s) r" "a < MAXVA" "kmem_wf s xs" "held s = {}" "pte (heap s) r (vpn a) AND PTE_V = 0"
  shows "(\<exists>s'. walk r a True s = Done None s' \<and> maps r s xs s' [] (vpn a) 0 pa perm) \<or>
    (\<exists>p v s1 s' ys. walk r a True s = Done (Some p) s1 \<and> get_pte p s1 = Done v s1 \<and> v AND PTE_V = 0 \<and>
       set_pte p (PA2PTE pa OR perm OR PTE_V) s1 = Done () s' \<and> maps r s xs s' ys (vpn a) 1 pa perm \<and> held s' = {})"
proof -
  obtain q s1 ys where w: "walk r a True s = Done q s1" "grows r s xs s1 ys"
      "case q of None \<Rightarrow> ys = [] | Some (x, i) \<Rightarrow> i = PX 0 a \<and> node (entry (heap s1)) r (vpath (vpn a)) = Some x"
    using walk_alloc [OF assms(1-4)] by blast
  show ?thesis
  proof (cases q)
    case None
    then show ?thesis using w maps_0 by auto
  next
    case (Some p)
    then obtain x where p: "p = (x, vpn a mod 512)" "node (entry (heap s1)) r (vpath (vpn a)) = Some x"
      using w(3) by (auto simp: PX_vpn split: prod.splits)
    have wf: "pt_wf (heap s1) r" and km: "kmem_wf s1 ys" using w(2) by (simp_all add: grows_def)
    obtain f where f: "heap s1 x = Some (PageTable f)" using pt_wfD(1) [OF wf _ p(2)] by auto
    let ?v = "PA2PTE pa OR perm OR PTE_V"
    let ?h = "(heap s1)(x \<mapsto> PageTable (f(vpn a mod 512 := ?v)))"
    have "entry (heap s1) x (vpn a mod 512) = f (vpn a mod 512)" using f by (simp add: entry_def)
    then have "pte (heap s1) r (vpn a) = f (vpn a mod 512)" using p(2) by (simp add: pte_def)
    then have old: "f (vpn a mod 512) AND PTE_V = 0" using assms(5) w(2) by (simp add: grows_def)
    have vn: "vpn a < 2 ^ 27" using vpn_less [OF assms(2)] by simp
    note sl = set_leaf [OF wf p(2) vn f refl, where v = ?v]
    have xn: "x \<notin> set ys" using kmem_wf_used [OF km f] by simp
    have "maps r s xs (s1\<lparr>heap := ?h\<rparr>) ys (vpn a) 1 pa perm"
      unfolding maps_def
    proof (intro conjI)
      show "pt_wf (heap (s1\<lparr>heap := ?h\<rparr>)) r" using sl(1) by simp
      show "kmem_wf (s1\<lparr>heap := ?h\<rparr>) ys" using xn by (intro kmem_wf_cong [OF km]) auto
      show "\<exists>zs. xs = zs @ ys" using w(2) by (simp add: grows_def)
      show "\<forall>k < 2 ^ 27. pte (heap (s1\<lparr>heap := ?h\<rparr>)) r k = (if vpn a \<le> k \<and> k < vpn a + 1
          then PA2PTE (pa + of_nat (4096 * (k - vpn a))) OR perm OR PTE_V else pte (heap s) r k)"
        using sl(2) w(2) by (auto simp: grows_def)
      show "\<exists>fl h. s1\<lparr>heap := ?h\<rparr> = s\<lparr>freelist := fl, heap := h\<rparr>"
        using w(2) unfolding grows_def by fastforce
      show "\<forall>y. y \<notin> set xs \<longrightarrow> (\<forall>f. heap s y \<noteq> Some (PageTable f)) \<longrightarrow> heap (s1\<lparr>heap := ?h\<rparr>) y = heap s y"
        using w(2) f unfolding grows_def by auto
    qed
    moreover have "held (s1\<lparr>heap := ?h\<rparr>) = {}" using w(2) assms(4) by (auto simp: grows_def)
    ultimately show ?thesis
      using w(1) Some p(1) f old by (auto simp: get_pte_def set_pte_def)
  qed
qed

lemma vpn_next:
  assumes "a mod 4096 = 0" "Suc (vpn a) < 2 ^ 26"
  shows "vpn (a + 4096) = Suc (vpn a)" "(a + 4096) mod 4096 = 0" "a + 4096 < MAXVA" "a < MAXVA"
proof -
  have u: "unat a = 4096 * vpn a" using assms(1) unfolding mod_page_iff vpn_def by auto
  then have v: "unat (a + 4096) = 4096 * Suc (vpn a)" using assms(2) by (simp add: unat_word_ariths)
  show "vpn (a + 4096) = Suc (vpn a)" by (simp add: vpn_def v)
  show "(a + 4096) mod 4096 = 0" by (simp add: mod_page_iff v)
  show "a + 4096 < MAXVA" "a < MAXVA" using assms(2) by (simp_all add: word_less_nat_alt u v)
qed

lemma mappages_loop_ok:
  "pt_wf (heap s) r \<Longrightarrow> kmem_wf s xs \<Longrightarrow> held s = {} \<Longrightarrow> a mod 4096 = 0 \<Longrightarrow> a < MAXVA \<Longrightarrow> vpn a + k < 2 ^ 26 \<Longrightarrow>
   (\<forall>n. vpn a \<le> n \<and> n < vpn a + Suc k \<longrightarrow> pte (heap s) r n AND PTE_V = 0) \<Longrightarrow>
   \<exists>q s' ys m. mappages_loop (Suc k) r a (a + of_nat (4096 * k)) pa perm s = Done q s' \<and>
     maps r s xs s' ys (vpn a) m pa perm \<and> (q = 0 \<and> m = Suc k \<or> q = -1 \<and> m < Suc k \<and> ys = [])"
proof (induction k arbitrary: s xs a pa)
  case 0
  have "pte (heap s) r (vpn a) AND PTE_V = 0" using "0.prems"(7) by simp
  from map_one [OF "0.prems"(1,5,2,3) this, of pa perm] show ?case
    by (elim disjE exE conjE) (force simp: ret_def)+
next
  case (Suc k)
  have ne: "a \<noteq> a + of_nat (4096 * Suc k)"
  proof -
    have "unat (of_nat (4096 * Suc k) :: u64) = 4096 * Suc k"
      using Suc.prems(6) by (intro unat_of_nat64) simp
    then show ?thesis by (metis add_cancel_right_right mult_eq_0_iff nat.distinct(1) unsigned_0 zero_neq_numeral)
  qed
  have inv: "pte (heap s) r (vpn a) AND PTE_V = 0" using Suc.prems(7) by simp
  from map_one [OF Suc.prems(1,5,2,3) inv, of pa perm] show ?case
  proof (elim disjE exE conjE)
    fix s' assume "walk r a True s = Done None s'" "maps r s xs s' [] (vpn a) 0 pa perm"
    then show ?thesis
      by (intro exI [of _ "-1 :: int"] exI [of _ s'] exI [of _ "[] :: u64 list"] exI [of _ "0 :: nat"]) (simp add: ret_def)
  next
    fix p v s1 s' ys
    assume w: "walk r a True s = Done (Some p) s1" "get_pte p s1 = Done v s1" "v AND PTE_V = 0"
        "set_pte p (PA2PTE pa OR perm OR PTE_V) s1 = Done () s'" "held s' = {}"
      and m: "maps r s xs s' ys (vpn a) 1 pa perm"
    have nx: "vpn (a + 4096) = Suc (vpn a)" "(a + 4096) mod 4096 = 0" "a + 4096 < MAXVA"
      using vpn_next [of a] Suc.prems(4,6) by auto
    have "\<exists>q s'' zs m. mappages_loop (Suc k) r (a + 4096) (a + 4096 + of_nat (4096 * k)) (pa + 4096) perm s' = Done q s'' \<and>
       maps r s' ys s'' zs (vpn (a + 4096)) m (pa + 4096) perm \<and> (q = 0 \<and> m = Suc k \<or> q = -1 \<and> m < Suc k \<and> zs = [])"
    proof (rule Suc.IH)
      show "\<forall>n. vpn (a + 4096) \<le> n \<and> n < vpn (a + 4096) + Suc k \<longrightarrow> pte (heap s') r n AND PTE_V = 0"
        using m Suc.prems(6,7) by (auto simp: maps_def nx(1))
    qed (use m w(5) nx Suc.prems(6) in \<open>auto simp: maps_def\<close>)
    then obtain q s'' zs m' where r: "mappages_loop (Suc k) r (a + 4096) (a + 4096 + of_nat (4096 * k)) (pa + 4096) perm s' = Done q s''"
        "maps r s' ys s'' zs (Suc (vpn a)) m' (pa + 4096) perm" "q = 0 \<and> m' = Suc k \<or> q = -1 \<and> m' < Suc k \<and> zs = []"
      unfolding nx(1) by blast
    have l: "a + 4096 + of_nat (4096 * k) = a + of_nat (4096 * Suc k)" by (simp add: algebra_simps)
    have "mappages_loop (Suc (Suc k)) r a (a + of_nat (4096 * Suc k)) pa perm s = Done q s''"
      using w ne r(1) unfolding l by (subst mappages_loop.simps) simp
    then show ?thesis using maps_Suc [OF m r(2)] r(3) by (metis Suc_less_eq)
  qed
qed

lemma walkaddr_eq:
  assumes "pt_wf (heap s) r"
  shows "walkaddr r va s = Done (if va < MAXVA \<and> pte (heap s) r (vpn va) AND PTE_V \<noteq> 0 \<and> pte (heap s) r (vpn va) AND PTE_U \<noteq> 0
    then PTE2PA (pte (heap s) r (vpn va)) else 0) s"
proof (cases "va < MAXVA \<and> node (entry (heap s)) r (vpath (vpn va)) \<noteq> None")
  case True
  then obtain x where x: "node (entry (heap s)) r (vpath (vpn va)) = Some x" by auto
  then obtain f where f: "heap s x = Some (PageTable f)" using pt_wfD(1) [OF assms length_vpath [THEN eq_imp_le]] by blast
  then have "entry (heap s) x (vpn va mod 512) = f (vpn va mod 512)" by (simp add: entry_def)
  then have "pte (heap s) r (vpn va) = f (vpn va mod 512)" using x by (simp add: pte_def)
  moreover have "\<not> va \<ge> MAXVA" using True by auto
  moreover have "walk r va False s = Done (Some (x, vpn va mod 512)) s"
    using walk_look [OF assms] True x by (simp add: PX_vpn)
  moreover have "get_pte (x, vpn va mod 512) s = Done (f (vpn va mod 512)) s" using f by (simp add: get_pte_def)
  ultimately show ?thesis using True by (simp add: walkaddr_def ret_def)
next
  case False
  then show ?thesis using walk_look [OF assms, of va] by (auto simp: walkaddr_def pte_def ret_def)
qed

text \<open>C4. \<open>mappages\<close> of an aligned, unmapped range inside the address space either maps exactly the range: every
  leaf entry of the range points to its physical page with the permissions given, every other one is as before,
  and for user pages \<open>walkaddr\<close> then translates each address of the range to its physical page. Or it returns \<open>-1\<close>
  because the free list ran empty, with only a proper prefix of the range mapped. It changes nothing but page-table
  pages.\<close>

theorem mappages_correct:
  assumes wf: "pt_wf (heap s) r" "kmem_wf s xs" "held s = {}"
    and va: "va mod 4096 = 0" "sz mod 4096 = 0" "sz \<noteq> 0" "unat va + unat sz \<le> unat MAXVA"
    and pa: "pa mod 4096 = 0" "perm < 1024"
    and free: "\<forall>n. vpn va \<le> n \<and> n < vpn va + unat sz div 4096 \<longrightarrow> pte (heap s) r n AND PTE_V = 0"
  shows "\<exists>q s' ys m. mappages r va sz pa perm s = Done q s' \<and> maps r s xs s' ys (vpn va) m pa perm \<and>
    (q = 0 \<and> m = unat sz div 4096 \<and>
       (perm AND PTE_U \<noteq> 0 \<longrightarrow> (\<forall>k < m. walkaddr r (va + of_nat (4096 * k)) s' = Done (pa + of_nat (4096 * k)) s'))
     \<or> q = -1 \<and> m < unat sz div 4096 \<and> ys = [])"
proof -
  define k where "k = unat sz div 4096 - 1"
  have s0: "0 < unat sz" using va(3) by (simp add: unat_gt_0)
  have sz: "unat sz = 4096 * Suc k" "unat sz div 4096 = Suc k"
    using va(2) s0 unfolding mod_page_iff k_def by auto
  have a: "unat va = 4096 * vpn va" using va(1) unfolding mod_page_iff vpn_def by auto
  have lim: "vpn va + k < 2 ^ 26" "va < MAXVA" using va(4) a sz by (simp_all add: word_less_nat_alt)
  have "sz = of_nat (4096 * Suc k)" using sz(1) by (metis of_nat_unat ucast_id)
  then have l: "va + sz - 4096 = va + of_nat (4096 * k)" by (simp add: algebra_simps)
  obtain q s' ys m where q: "mappages_loop (Suc k) r va (va + of_nat (4096 * k)) pa perm s = Done q s'"
      "maps r s xs s' ys (vpn va) m pa perm" "q = 0 \<and> m = Suc k \<or> q = -1 \<and> m < Suc k \<and> ys = []"
    using mappages_loop_ok [OF wf va(1) lim(2,1), of pa perm] free unfolding sz(2) by blast
  have tr: "walkaddr r (va + of_nat (4096 * j)) s' = Done (pa + of_nat (4096 * j)) s'" if u: "perm AND PTE_U \<noteq> 0" and j: "j < m" for j
  proof -
    have "unat (va + of_nat (4096 * j)) = 4096 * (vpn va + j)"
      using lim(1) j q(3) a by (auto simp: unat_word_ariths unat_of_nat)
    then have v: "vpn (va + of_nat (4096 * j)) = vpn va + j" "va + of_nat (4096 * j) < MAXVA"
      using lim(1) j q(3) by (auto simp: vpn_def word_less_nat_alt)
    have pj: "(pa + of_nat (4096 * j)) mod 4096 = 0" by (rule page_add_mod [OF pa(1)])
    have e: "pte (heap s') r (vpn va + j) = PA2PTE (pa + of_nat (4096 * j)) OR perm OR PTE_V"
      using q(2,3) j lim(1) by (auto simp: maps_def)
    have "(PA2PTE (pa + of_nat (4096 * j)) OR perm OR PTE_V) AND PTE_U \<noteq> 0" by (rule or_and_nz [OF u])
    then show ?thesis
      using walkaddr_eq [of s' r "va + of_nat (4096 * j)"] q(2) v e PTE_of_page(1,2) [OF pj pa(2)]
      by (simp add: maps_def)
  qed
  have "mappages r va sz pa perm s = Done q s'"
    using q(1) va(1-3) by (simp add: mappages_def l sz)
  then show ?thesis using q(2,3) tr sz(2) by metis
qed

section \<open>User memory\<close>

text \<open>\<open>umem s r b\<close> is the byte that a user program sees at address \<open>b\<close>, \<open>None\<close> where it has no access.\<close>

definition upage :: "kstate \<Rightarrow> u64 \<Rightarrow> nat \<Rightarrow> u64 \<Rightarrow> (nat \<Rightarrow> u8) \<Rightarrow> bool" where
  "upage s r n pa f \<longleftrightarrow> n < 2 ^ 26 \<and> pte (heap s) r n AND PTE_V \<noteq> 0 \<and> pte (heap s) r n AND PTE_U \<noteq> 0 \<and>
     pa = PTE2PA (pte (heap s) r n) \<and> pa \<noteq> 0 \<and> heap s pa = Some (Bytes f)"

definition umem :: "kstate \<Rightarrow> u64 \<Rightarrow> nat \<Rightarrow> u8 option" where
  "umem s r b = (let e = pte (heap s) r (b div 4096) in
     if b div 4096 < 2 ^ 26 \<and> e AND PTE_V \<noteq> 0 \<and> e AND PTE_U \<noteq> 0 \<and> PTE2PA e \<noteq> 0
     then (case heap s (PTE2PA e) of Some (Bytes f) \<Rightarrow> Some (f (b mod 4096)) | _ \<Rightarrow> None) else None)"

definition umapped :: "kstate \<Rightarrow> u64 \<Rightarrow> nat \<Rightarrow> nat \<Rightarrow> bool" where
  "umapped s r b len \<longleftrightarrow> (\<forall>i < len. umem s r (b + i) \<noteq> None)"

definition ubytes :: "kstate \<Rightarrow> u64 \<Rightarrow> nat \<Rightarrow> nat \<Rightarrow> u8 list" where
  "ubytes s r b len = map (\<lambda>i. the (umem s r (b + i))) [0..<len]"

lemma umem_upage: "umem s r b = Some c \<longleftrightarrow> (\<exists>pa f. upage s r (b div 4096) pa f \<and> c = f (b mod 4096))"
  by (auto simp: umem_def upage_def Let_def split: option.splits kobj.splits)

lemma upageD: "upage s r n pa f \<Longrightarrow> pa \<noteq> 0" "upage s r n pa f \<Longrightarrow> heap s pa = Some (Bytes f)"
  by (auto simp: upage_def)

lemma umapped_page:
  assumes "umapped s r (unat a) len" "0 < len"
  obtains pa f where "upage s r (vpn a) pa f"
proof -
  have "umem s r (unat a) \<noteq> None" using assms by (auto simp: umapped_def)
  then show thesis using that umem_upage [of s r "unat a"] by (auto simp: vpn_def)
qed

lemma page_end: "x + (4096 - x mod 4096) = 4096 * Suc (x div 4096)" for x :: nat
proof -
  have "4096 * q + m + (4096 - m) = 4096 * Suc q" if "m < 4096" for q m :: nat using that by simp
  from this [of "x mod 4096" "x div 4096"] show ?thesis by simp
qed

lemma div_off:
  assumes "y mod 4096 + i < 4096"
  shows "(y + i) div 4096 = (y :: nat) div 4096" "(y + i) mod 4096 = y mod 4096 + i"
proof -
  have e: "y + i = 4096 * (y div 4096) + (y mod 4096 + i)" by simp
  have d: "(4096 * q + m) div 4096 = q" "(4096 * q + m) mod 4096 = m" if "m < 4096" for q m :: nat
    using that by simp_all
  show "(y + i) div 4096 = y div 4096" by (rule trans [OF arg_cong [OF e, of "\<lambda>x. x div 4096"] d(1) [OF assms]])
  show "(y + i) mod 4096 = y mod 4096 + i" by (rule trans [OF arg_cong [OF e, of "\<lambda>x. x mod 4096"] d(2) [OF assms]])
qed

lemma umem_page:
  "upage s r (vpn a) pa f \<Longrightarrow> unat a mod 4096 + i < 4096 \<Longrightarrow> umem s r (unat a + i) = Some (f (unat a mod 4096 + i))"
  using div_off [of "unat a" i] by (auto simp: umem_upage vpn_def)

lemma round_down:
  "vpn (PGROUNDDOWN a) = vpn a" "unat (a - PGROUNDDOWN a) = unat a mod 4096" "PGROUNDDOWN a \<le> a"
proof -
  show "vpn (PGROUNDDOWN a) = vpn a" by (simp add: vpn_def unat_PGROUNDDOWN)
  show le: "PGROUNDDOWN a \<le> a" using PGROUNDDOWN_greatest by simp
  have "unat (a - PGROUNDDOWN a) = unat a - unat (PGROUNDDOWN a)" using le by (rule unat_sub)
  then show "unat (a - PGROUNDDOWN a) = unat a mod 4096" by (simp add: unat_PGROUNDDOWN minus_mult_div_eq_mod)
qed

lemma vpn_MAXVA: "va < MAXVA \<longleftrightarrow> vpn va < 2 ^ 26"
  by (auto simp: vpn_def word_less_nat_alt div_less_iff_less_mult)

lemma user_page_mapped:
  assumes "pt_wf (heap s) r" "upage s r (vpn a) pa f"
  shows "walkaddr r (PGROUNDDOWN a) s = Done pa s" "user_page r (PGROUNDDOWN a) s = Done pa s"
proof -
  show w: "walkaddr r (PGROUNDDOWN a) s = Done pa s"
    using walkaddr_eq [OF assms(1), of "PGROUNDDOWN a"] assms(2)
    unfolding vpn_MAXVA round_down(1) by (simp add: upage_def)
  show "user_page r (PGROUNDDOWN a) s = Done pa s"
    using w upageD(1) [OF assms(2)] by (simp add: user_page_def ret_def)
qed

text \<open>Splitting off the part of a range that lies in its first page.\<close>

lemma first_page:
  assumes "upage s r (vpn a) pa f" "n \<le> 4096 - unat a mod 4096"
  shows "ubytes s r (unat a) n = map (\<lambda>i. f (unat a mod 4096 + i)) [0..<n]"
  unfolding ubytes_def using assms(2)
  by (intro map_cong) (auto simp: umem_page [OF assms(1)])

lemma next_page:
  assumes "n = 4096 - unat a mod 4096" "unat a + n < 2 ^ 64"
  shows "unat (PGROUNDDOWN a + 4096) = unat a + n"
proof -
  have "unat (PGROUNDDOWN a) + 4096 = unat a + n"
    unfolding unat_PGROUNDDOWN assms(1) page_end by simp
  then show ?thesis using assms(2) by (simp add: unat_word_ariths)
qed

lemma ubytes_split: "n \<le> len \<Longrightarrow> ubytes s r b len = ubytes s r b n @ ubytes s r (b + n) (len - n)"
proof -
  assume n: "n \<le> len"
  have "map (\<lambda>i. the (umem s r (b + i))) [0..<len] = map (\<lambda>i. the (umem s r (b + i))) ([0..<n] @ [n..<len])"
    using n upt_add_eq_append [of 0 n "len - n"] by simp
  also have "[n..<len] = map (\<lambda>i. i + n) [0..<len - n]" using n by (simp add: map_add_upt)
  finally show ?thesis by (simp add: ubytes_def comp_def add.assoc add.commute add.left_commute)
qed

lemma umapped_split: "umapped s r b len \<Longrightarrow> n \<le> len \<Longrightarrow> umapped s r (b + n) (len - n)"
  unfolding umapped_def by (simp add: add.assoc)

lemma umapped_bound: "umapped s r b len \<Longrightarrow> 0 < len \<Longrightarrow> b + len \<le> 2 ^ 38"
proof -
  assume "umapped s r b len" "0 < len"
  then have "umem s r (b + (len - 1)) \<noteq> None" unfolding umapped_def by (metis diff_less zero_less_one)
  then have "(b + (len - 1)) div 4096 < 2 ^ 26" by (auto simp: umem_def Let_def split: if_splits)
  then show ?thesis by (simp add: div_less_iff_less_mult)
qed

lemma copyin_loop_ok:
  "pt_wf (heap s) r \<Longrightarrow> umapped s r (unat a) len \<Longrightarrow> (unat a mod 4096 + len + 4095) div 4096 < fuel \<Longrightarrow>
   copyin_loop fuel r a len s = Done (0, ubytes s r (unat a) len) s"
proof (induction fuel arbitrary: a len)
  case (Suc fuel)
  show ?case
  proof (cases "len = 0")
    case False
    obtain pa f where pg: "upage s r (vpn a) pa f" using umapped_page [OF Suc.prems(2)] False by blast
    let ?off = "unat a mod 4096"
    define n where "n = min (4096 - ?off) len"
    have r: "read_mem pa ?off n s = Done (ubytes s r (unat a) n) s"
      using upageD(2) [OF pg] first_page [OF pg, of n] by (simp add: read_mem_def n_def)
    have "copyin_loop fuel r (PGROUNDDOWN a + 4096) (len - n) s =
        Done (0, ubytes s r (unat a + n) (len - n)) s"
    proof (cases "len - n = 0")
      case True
      then show ?thesis using Suc.prems(3) False by (cases fuel) (auto simp: ret_def ubytes_def)
    next
      case lt: False
      then have n: "n = 4096 - ?off" "n < len" unfolding n_def by auto
      have u: "unat (PGROUNDDOWN a + 4096) = unat a + n"
        using next_page [OF n(1)] umapped_bound [OF Suc.prems(2)] n(2) by simp
      have m: "(unat a + n) mod 4096 = 0" unfolding n(1) page_end by simp
      have "?off + len + 4095 = 4096 + ((len - n) + 4095)" using n by simp
      then have "(len - n + 4095) div 4096 < fuel" using Suc.prems(3) by simp
      then show ?thesis
        using Suc.IH [of "PGROUNDDOWN a + 4096" "len - n"] Suc.prems(1) umapped_split [OF Suc.prems(2), of n] n(2)
        by (simp add: u m)
    qed
    moreover note upageD(1) [OF pg]
    moreover have "ubytes s r (unat a) len = ubytes s r (unat a) n @ ubytes s r (unat a + n) (len - n)"
      by (rule ubytes_split) (simp add: n_def)
    ultimately show ?thesis
      using False user_page_mapped(2) [OF Suc.prems(1) pg] r
      by (simp add: Let_def round_down(2) ret_def flip: n_def)
  qed (simp add: ret_def ubytes_def)
qed simp

lemma pages_bound: "(unat (a :: u64) mod 4096 + len + 4095) div 4096 < len div 4096 + 3"
proof -
  have "unat a mod 4096 < 4096" by simp
  then have "unat a mod 4096 + len + 4095 < len + 8192" by linarith
  then have "(unat a mod 4096 + len + 4095) div 4096 \<le> (len + 8192) div 4096" by (intro div_le_mono) simp
  then show ?thesis by simp
qed

lemma copyin_ok:
  "pt_wf (heap s) r \<Longrightarrow> umapped s r (unat a) len \<Longrightarrow> copyin r a len s = Done (0, ubytes s r (unat a) len) s"
  using copyin_loop_ok [of s r a len] pages_bound by (simp add: copyin_def)

text \<open>No two user pages share a physical page; \<open>uwritable\<close> also asks for the write permission.\<close>

definition uframes_distinct :: "kstate \<Rightarrow> u64 \<Rightarrow> bool" where
  "uframes_distinct s r \<longleftrightarrow> (\<forall>n m pa f g. upage s r n pa f \<and> upage s r m pa g \<longrightarrow> n = m)"

definition uwritable :: "kstate \<Rightarrow> u64 \<Rightarrow> nat \<Rightarrow> nat \<Rightarrow> bool" where
  "uwritable s r b len \<longleftrightarrow> (\<forall>i < len. umem s r (b + i) \<noteq> None \<and> pte (heap s) r ((b + i) div 4096) AND PTE_W \<noteq> 0)"

definition uwrote :: "u64 \<Rightarrow> kstate \<Rightarrow> kstate \<Rightarrow> nat \<Rightarrow> u8 list \<Rightarrow> bool" where
  "uwrote r s s' b bs \<longleftrightarrow> pt_wf (heap s') r \<and> uframes_distinct s' r \<and> (\<forall>n. pte (heap s') r n = pte (heap s) r n) \<and>
     (\<forall>c. umem s' r c = (if b \<le> c \<and> c < b + length bs then Some (bs ! (c - b)) else umem s r c)) \<and>
     (\<exists>h. s' = s\<lparr>heap := h\<rparr>) \<and> (\<forall>x. (\<forall>f. heap s x \<noteq> Some (Bytes f)) \<longrightarrow> heap s' x = heap s x)"

lemma write_page:
  assumes "pt_wf (heap s) r" "uframes_distinct s r" "upage s r n pa f" and s': "s' = s\<lparr>heap := (heap s)(pa \<mapsto> Bytes g)\<rparr>"
  shows "pt_wf (heap s') r" "pte (heap s') r m = pte (heap s) r m" "uframes_distinct s' r"
    "umem s' r c = (if c div 4096 = n then Some (g (c mod 4096)) else umem s r c)"
proof -
  have pa: "heap s pa = Some (Bytes f)" using assms(3) by (rule upageD)
  have e: "entry (heap s') = entry (heap s)" using pa by (auto simp: s' intro!: entry_blank)
  have tab: "(\<exists>f. heap s' y = Some (PageTable f)) = (\<exists>f. heap s y = Some (PageTable f))" for y
    using pa by (auto simp: s')
  show "pt_wf (heap s') r" using assms(1) unfolding pt_wf_def e tab .
  show p: "pte (heap s') r m = pte (heap s) r m" for m by (simp only: pte_def e)
  have hs: "heap s' y = (if y = pa then Some (Bytes g) else heap s y)" for y by (simp add: s')
  have only: "m = n" if "upage s r m pa g'" for m g' using assms(2,3) that unfolding uframes_distinct_def by blast
  have up: "upage s' r m pa' g' \<longleftrightarrow> (if m = n then pa' = pa \<and> g' = g else upage s r m pa' g')" for m pa' g'
  proof (cases "pa' = pa")
    case True
    have "upage s' r m pa g' \<longleftrightarrow> g' = g \<and> upage s r m pa f" using pa by (auto simp: upage_def p hs)
    moreover have "\<not> upage s r m pa f \<and> \<not> upage s r m pa g'" if "m \<noteq> n" using only that by blast
    ultimately show ?thesis using True assms(3) by (cases "m = n") simp_all
  next
    case False
    then show ?thesis using assms(3) by (auto simp: upage_def p hs)
  qed
  show "uframes_distinct s' r"
    using assms(2) unfolding uframes_distinct_def up by (auto split: if_splits dest: only)
  show "umem s' r c = (if c div 4096 = n then Some (g (c mod 4096)) else umem s r c)"
  proof -
    have *: "umem s' r c = Some x \<longleftrightarrow> (if c div 4096 = n then x = g (c mod 4096) else umem s r c = Some x)" for x
      unfolding umem_upage up by auto
    have eq: "a = b" if "\<And>x. a = Some x \<longleftrightarrow> b = Some x" for a b :: "u8 option"
      using that [of "the a"] that [of "the b"] by (cases a; cases b) simp_all
    show ?thesis by (rule eq) (auto simp: *)
  qed
qed

lemma write_range:
  fixes c y :: nat
  assumes "y mod 4096 + length bs \<le> 4096"
  shows "(if c div 4096 = y div 4096 then Some (write_bytes f (y mod 4096) bs (c mod 4096)) else d) =
    (if y \<le> c \<and> c < y + length bs then Some (bs ! (c - y))
     else if c div 4096 = y div 4096 then Some (f (c mod 4096)) else d)"
proof (cases "y \<le> c \<and> c < y + length bs")
  case True
  then obtain i where "c = y + i" "i < length bs" "y mod 4096 + i < 4096" using assms by (auto simp: le_iff_add)
  then show ?thesis using div_off [of y i] by (simp add: write_bytes_def)
next
  case False
  have "\<not> (y mod 4096 \<le> c mod 4096 \<and> c mod 4096 < y mod 4096 + length bs)" if "c div 4096 = y div 4096"
    using False that mult_div_mod_eq [of 4096 c] mult_div_mod_eq [of 4096 y] by linarith
  then show ?thesis using False by (auto simp: write_bytes_def)
qed

lemma uwrote_trans:
  assumes "uwrote r s s1 b (take n bs)" "uwrote r s1 s2 (b + n) (drop n bs)" "n \<le> length bs"
  shows "uwrote r s s2 b bs"
proof -
  have "umem s2 r c = (if b \<le> c \<and> c < b + length bs then Some (bs ! (c - b)) else umem s r c)" for c
  proof -
    have 1: "umem s1 r c = (if b \<le> c \<and> c < b + n then Some (take n bs ! (c - b)) else umem s r c)"
      using assms(1,3) by (simp add: uwrote_def)
    have 2: "umem s2 r c = (if b + n \<le> c \<and> c < b + length bs then Some (drop n bs ! (c - (b + n))) else umem s1 r c)"
      using assms(2,3) by (simp add: uwrote_def)
    show ?thesis using assms(3) by (auto simp: 1 2)
  qed
  moreover have "\<exists>h. s2 = s\<lparr>heap := h\<rparr>" using assms(1,2) unfolding uwrote_def by fastforce
  ultimately show ?thesis using assms(1,2) by (simp add: uwrote_def)
qed

lemma walk_mapped:
  assumes "pt_wf (heap s) r" "upage s r (vpn a) pa f"
  shows "\<exists>p. walk r (PGROUNDDOWN a) False s = Done (Some p) s \<and> get_pte p s = Done (pte (heap s) r (vpn a)) s"
    "\<not> MAXVA \<le> PGROUNDDOWN a"
proof -
  have lt: "PGROUNDDOWN a < MAXVA" using assms(2) by (simp only: vpn_MAXVA round_down(1)) (simp add: upage_def)
  then show "\<not> MAXVA \<le> PGROUNDDOWN a" by auto
  have "node (entry (heap s)) r (vpath (vpn a)) \<noteq> None" using assms(2) by (auto simp: upage_def pte_def split: option.splits)
  then obtain x where x: "node (entry (heap s)) r (vpath (vpn a)) = Some x" by auto
  obtain g where g: "heap s x = Some (PageTable g)"
    using pt_wfD(1) [OF assms(1) length_vpath [THEN eq_imp_le] x] by blast
  have "entry (heap s) x (vpn a mod 512) = g (vpn a mod 512)" using g by (simp add: entry_def)
  then have "pte (heap s) r (vpn a) = g (vpn a mod 512)" using x by (simp add: pte_def)
  moreover have "walk r (PGROUNDDOWN a) False s = Done (Some (x, vpn a mod 512)) s"
    using walk_look [OF assms(1) lt] x by (simp add: round_down(1) PX_vpn)
  ultimately show "\<exists>p. walk r (PGROUNDDOWN a) False s = Done (Some p) s \<and> get_pte p s = Done (pte (heap s) r (vpn a)) s"
    using g by (simp add: get_pte_def)
qed

text \<open>One iteration of the loop of \<open>copyout\<close>.\<close>

lemma copyout_step:
  assumes wf: "pt_wf (heap s) r" "uframes_distinct s r" "uwritable s r (unat a) (length src)" "src \<noteq> []"
    and n: "n = min (4096 - unat a mod 4096) (length src)"
  shows "\<exists>s'. copyout_loop (Suc fuel) r a src s = copyout_loop fuel r (PGROUNDDOWN a + 4096) (drop n src) s' \<and>
    uwrote r s s' (unat a) (take n src)"
proof -
  have um: "umapped s r (unat a) (length src)" using wf(3) by (simp add: uwritable_def umapped_def)
  obtain pa f where pg: "upage s r (vpn a) pa f" using umapped_page [OF um] wf(4) by blast
  obtain p where p: "walk r (PGROUNDDOWN a) False s = Done (Some p) s" "get_pte p s = Done (pte (heap s) r (vpn a)) s"
    using walk_mapped(1) [OF wf(1) pg] by blast
  have w: "pte (heap s) r (vpn a) AND PTE_W \<noteq> 0"
    using wf(3) wf(4) unfolding uwritable_def vpn_def by (metis add_0_right length_greater_0_conv)
  let ?g = "write_bytes f (unat a mod 4096) (take n src)" 
  let ?s' = "s\<lparr>heap := (heap s)(pa \<mapsto> Bytes ?g)\<rparr>"
  note wp' = write_page [OF wf(1,2) pg, of ?s' ?g]
  have "umem s r c = Some (f (c mod 4096))" if "c div 4096 = unat a div 4096" for c
    using pg that umem_upage [of s r c] by (auto simp: vpn_def)
  then have "umem ?s' r c = (if unat a \<le> c \<and> c < unat a + length (take n src) then Some (take n src ! (c - unat a)) else umem s r c)" for c
    using wp'(4) [of c] write_range [of "unat a" "take n src" c f "umem s r c"] n
    unfolding vpn_def by (auto split: if_splits)
  then have "uwrote r s ?s' (unat a) (take n src)"
    unfolding uwrote_def using wp'(1-3) upageD(2) [OF pg] by auto
  moreover have "write_mem pa (unat a mod 4096) (take n src) s = Done () ?s'"
    using upageD(2) [OF pg] by (simp add: write_mem_def)
  then have "copyout_loop (Suc fuel) r a src s = copyout_loop fuel r (PGROUNDDOWN a + 4096) (drop n src) ?s'"
    using wf(4) walk_mapped(2) [OF wf(1) pg] user_page_mapped(2) [OF wf(1) pg] upageD(1) [OF pg] p w
    by (simp add: Let_def round_down(2) flip: n)
  ultimately show ?thesis by blast
qed

lemma uwritable_rest:
  "uwritable s r b len \<Longrightarrow> uwrote r s s' b' bs \<Longrightarrow> n \<le> len \<Longrightarrow> uwritable s' r (b + n) (len - n)"
  unfolding uwritable_def uwrote_def by (auto simp: add.assoc)

lemma copyout_loop_ok:
  "pt_wf (heap s) r \<Longrightarrow> uframes_distinct s r \<Longrightarrow> uwritable s r (unat a) (length src) \<Longrightarrow>
   (unat a mod 4096 + length src + 4095) div 4096 < fuel \<Longrightarrow>
   \<exists>s'. copyout_loop fuel r a src s = Done 0 s' \<and> uwrote r s s' (unat a) src"
proof (induction fuel arbitrary: a src s)
  case (Suc fuel)
  show ?case
  proof (cases "src = []")
    case True
    have "uwrote r s s (unat a) []" using Suc.prems(1,2) by (auto simp: uwrote_def intro: exI [of _ "heap s"])
    then show ?thesis using True by (simp add: ret_def)
  next
    case False
    let ?off = "unat a mod 4096"
    define n where "n = min (4096 - ?off) (length src)"
    obtain s1 where s1: "copyout_loop (Suc fuel) r a src s = copyout_loop fuel r (PGROUNDDOWN a + 4096) (drop n src) s1"
        "uwrote r s s1 (unat a) (take n src)"
      using copyout_step [OF Suc.prems(1-3) False n_def] by blast
    have wf1: "pt_wf (heap s1) r" "uframes_distinct s1 r" using s1(2) by (simp_all add: uwrote_def)
    have "\<exists>s'. copyout_loop fuel r (PGROUNDDOWN a + 4096) (drop n src) s1 = Done 0 s' \<and> uwrote r s1 s' (unat a + n) (drop n src)"
    proof (cases "length src \<le> n")
      case True
      have "uwrote r s1 s1 (unat a + n) []" using wf1 by (auto simp: uwrote_def intro: exI [of _ "heap s1"])
      moreover have "4096 \<le> ?off + length src + 4095" using False by (cases src) auto
      then have "fuel \<noteq> 0" using Suc.prems(4) by (auto simp: div_eq_0_iff)
      ultimately show ?thesis using True by (cases fuel) (auto simp: ret_def)
    next
      case lt: False
      then have n: "n = 4096 - ?off" "n < length src" unfolding n_def by auto
      have um: "umapped s r (unat a) (length src)" using Suc.prems(3) by (simp add: uwritable_def umapped_def)
      have u: "unat (PGROUNDDOWN a + 4096) = unat a + n"
        using next_page [OF n(1)] umapped_bound [OF um] n(2) False by simp
      have m: "(unat a + n) mod 4096 = 0" unfolding n(1) page_end by simp
      have "?off + length src + 4095 = 4096 + ((length src - n) + 4095)" using n by simp
      then have "(length src - n + 4095) div 4096 < fuel" using Suc.prems(4) by simp
      then show ?thesis
        using Suc.IH [of s1 "PGROUNDDOWN a + 4096" "drop n src"] wf1 uwritable_rest [OF Suc.prems(3) s1(2), of n] n(2)
        by (simp add: u m)
    qed
    then show ?thesis using s1 uwrote_trans [OF s1(2)] by (auto simp: n_def)
  qed
qed simp

text \<open>C5. What \<open>copyout\<close> writes to a mapped, writable range of user memory, the user program sees there, and sees
  no other change; \<open>copyin\<close> of the range reads it back.\<close>

theorem copyout_copyin:
  assumes "pt_wf (heap s) r" "uframes_distinct s r" "uwritable s r (unat dstva) (length src)"
  shows "\<exists>s'. copyout r dstva src s = Done 0 s' \<and> copyin r dstva (length src) s' = Done (0, src) s' \<and>
    (\<forall>c. umem s' r c = (if unat dstva \<le> c \<and> c < unat dstva + length src then Some (src ! (c - unat dstva)) else umem s r c))"
proof -
  obtain s' where s': "copyout r dstva src s = Done 0 s'" "uwrote r s s' (unat dstva) src"
    using copyout_loop_ok [OF assms pages_bound] by (auto simp: copyout_def)
  have "umapped s' r (unat dstva) (length src)" "ubytes s' r (unat dstva) (length src) = src"
    using s'(2) by (auto simp: uwrote_def umapped_def ubytes_def intro: nth_equalityI)
  then have "copyin r dstva (length src) s' = Done (0, src) s'"
    using copyin_ok [of s' r dstva "length src"] s'(2) by (simp add: uwrote_def)
  then show ?thesis using s' by (auto simp: uwrote_def)
qed

section \<open>A small address space\<close>

text \<open>One user page at address 0: three table pages, the page itself, two free pages.\<close>

definition pg_root :: u64 where "pg_root = PHYSTOP - 12288"
definition pg_mid :: u64 where "pg_mid = PHYSTOP - 16384"
definition pg_leaf :: u64 where "pg_leaf = PHYSTOP - 20480"
definition pg_data :: u64 where "pg_data = PHYSTOP - 24576"

lemmas pg_defs = pg_root_def pg_mid_def pg_leaf_def pg_data_def

definition user_state :: kstate where
  "user_state = two_free_pages\<lparr>heap := (heap two_free_pages)
     (pg_root \<mapsto> PageTable ((\<lambda>_. 0)(0 := PA2PTE pg_mid OR 0 OR PTE_V)),
      pg_mid \<mapsto> PageTable ((\<lambda>_. 0)(0 := PA2PTE pg_leaf OR 0 OR PTE_V)),
      pg_leaf \<mapsto> PageTable ((\<lambda>_. 0)(0 := PA2PTE pg_data OR 22 OR PTE_V)),
      pg_data \<mapsto> Bytes (\<lambda>_. 0))\<rparr>"

lemma pg_facts [simp]:
  "pg_root \<noteq> pg_mid" "pg_root \<noteq> pg_leaf" "pg_root \<noteq> pg_data" "pg_mid \<noteq> pg_root" "pg_mid \<noteq> pg_leaf" "pg_mid \<noteq> pg_data"
  "pg_leaf \<noteq> pg_root" "pg_leaf \<noteq> pg_mid" "pg_leaf \<noteq> pg_data" "pg_data \<noteq> 0"
  "pg_mid mod 4096 = 0" "pg_leaf mod 4096 = 0" "pg_data mod 4096 = 0"
  by (simp_all add: pg_defs)

lemma user_state_pages:
  "heap user_state pg_root = Some (PageTable ((\<lambda>_. 0)(0 := PA2PTE pg_mid OR 0 OR PTE_V)))"
  "heap user_state pg_mid = Some (PageTable ((\<lambda>_. 0)(0 := PA2PTE pg_leaf OR 0 OR PTE_V)))"
  "heap user_state pg_leaf = Some (PageTable ((\<lambda>_. 0)(0 := PA2PTE pg_data OR 22 OR PTE_V)))"
  "heap user_state pg_data = Some (Bytes (\<lambda>_. 0))"
  by (simp_all add: user_state_def)

lemma user_state_kmem: "kmem_wf user_state [PHYSTOP - 8192, PHYSTOP - 4096]" "held user_state = {}"
proof -
  show "kmem_wf user_state [PHYSTOP - 8192, PHYSTOP - 4096]"
    by (rule kmem_wf_cong [OF two_free_pages_wf(1)]) (auto simp: user_state_def pg_defs)
  show "held user_state = {}" using two_free_pages_wf(2) by (simp add: user_state_def)
qed

lemma user_state_entry:
  "entry (heap user_state) pg_root = (\<lambda>_. 0)(0 := PA2PTE pg_mid OR 0 OR PTE_V)"
  "entry (heap user_state) pg_mid = (\<lambda>_. 0)(0 := PA2PTE pg_leaf OR 0 OR PTE_V)"
  "entry (heap user_state) pg_leaf = (\<lambda>_. 0)(0 := PA2PTE pg_data OR 22 OR PTE_V)"
  by (simp_all only: entry_def user_state_pages option.case kobj.case fun_eq_iff simp_thms)

lemma user_state_step:
  "node (entry (heap user_state)) pg_root (i # p) = (if i = 0 then node (entry (heap user_state)) pg_mid p else None)"
  "node (entry (heap user_state)) pg_mid (i # p) = (if i = 0 then node (entry (heap user_state)) pg_leaf p else None)"
  using PTE_of_page [of pg_mid 0] PTE_of_page [of pg_leaf 0]
  by (simp_all only: node.simps user_state_entry fun_upd_apply) (simp_all del: PTE_V_def)

lemma user_state_node:
  assumes "length p \<le> 2"
  shows "node (entry (heap user_state)) pg_root p =
    (if p = [] then Some pg_root else if p = [0] then Some pg_mid else if p = [0, 0] then Some pg_leaf else None)"
proof -
  consider "p = []" | i where "p = [i]" | i j where "p = [i, j]"
    using assms by (cases p rule: remdups_adj.cases) auto
  then show ?thesis by cases (simp_all only: user_state_step, simp_all)
qed

lemma user_state_wf: "pt_wf (heap user_state) pg_root"
proof -
  have "\<exists>f. heap user_state x = Some (PageTable f)"
    if "length p \<le> 2" "node (entry (heap user_state)) pg_root p = Some x" for p x
    using that user_state_pages by (auto simp: user_state_node split: if_splits)
  moreover have "q = p" if "length p \<le> 2" "node (entry (heap user_state)) pg_root p = Some x"
      "length q \<le> 2" "node (entry (heap user_state)) pg_root q = Some x" for p q x
    using that by (auto simp: user_state_node split: if_splits)
  ultimately show ?thesis unfolding pt_wf_def by blast
qed

lemma user_state_pte:
  "pte (heap user_state) pg_root n =
    (if vpath n = [0, 0] \<and> n mod 512 = 0 then PA2PTE pg_data OR 22 OR PTE_V else 0)"
  unfolding pte_def user_state_node [OF length_vpath [THEN eq_imp_le]]
  by (auto simp: vpath_def user_state_entry)

lemma user_state_upage: "upage user_state pg_root n pa f \<longleftrightarrow> n = 0 \<and> pa = pg_data \<and> f = (\<lambda>_. 0)"
proof -
  let ?e = "PA2PTE pg_data OR 22 OR PTE_V"
  have e: "PTE2PA ?e = pg_data" "?e AND PTE_V \<noteq> 0" using PTE_of_page [of pg_data 22] by simp_all
  have u: "?e AND PTE_U \<noteq> 0" using or_and_nz [of 22 PTE_U "PA2PTE pg_data" PTE_V] by simp
  have n: "n = 0" if "vpath n = [0, 0]" "n mod 512 = 0" "n < 2 ^ 26"
    using vpath_inj [of n 0] that by (simp add: vpath_def)
  show ?thesis
  proof
    assume "upage user_state pg_root n pa f"
    then have "n < 2 ^ 26" "pte (heap user_state) pg_root n AND PTE_V \<noteq> 0"
        "pa = PTE2PA (pte (heap user_state) pg_root n)" "heap user_state pa = Some (Bytes f)"
      by (auto simp: upage_def)
    then show "n = 0 \<and> pa = pg_data \<and> f = (\<lambda>_. 0)"
      using n e(1) user_state_pages(4) unfolding user_state_pte by (auto split: if_splits)
  next
    assume "n = 0 \<and> pa = pg_data \<and> f = (\<lambda>_. 0)"
    then show "upage user_state pg_root n pa f"
      using e u user_state_pages(4) by (simp add: upage_def user_state_pte vpath_def del: PTE_V_def PTE_U_def)
  qed
qed

lemma user_state_writable: "uwritable user_state pg_root 100 3" "uframes_distinct user_state pg_root"
proof -
  have w: "(PA2PTE pg_data OR 22 OR PTE_V) AND PTE_W \<noteq> 0" using or_and_nz [of 22 PTE_W "PA2PTE pg_data" PTE_V] by simp
  have "umem user_state pg_root (100 + i) = Some 0" if "i < 3" for i
    using that unfolding umem_upage user_state_upage by auto
  then show "uwritable user_state pg_root 100 3"
    using w by (auto simp: uwritable_def user_state_pte vpath_def)
  show "uframes_distinct user_state pg_root" unfolding uframes_distinct_def user_state_upage by blast
qed

theorem mappages_correct_witness:
  "\<exists>q s' ys m. mappages pg_root 4096 4096 (PHYSTOP - 28672) 22 user_state = Done q s' \<and>
    maps pg_root user_state [PHYSTOP - 8192, PHYSTOP - 4096] s' ys 1 m (PHYSTOP - 28672) 22 \<and>
    (q = 0 \<and> walkaddr pg_root 4096 s' = Done (PHYSTOP - 28672) s' \<or> q = -1 \<and> m = 0)"
proof -
  have v: "vpn 4096 = 1" by (simp add: vpn_def)
  have "\<forall>n. vpn 4096 \<le> n \<and> n < vpn 4096 + unat (4096 :: u64) div 4096 \<longrightarrow> pte (heap user_state) pg_root n AND PTE_V = 0"
    unfolding v by (auto simp: user_state_pte)
  from mappages_correct [OF user_state_wf user_state_kmem _ _ _ _ _ _ this, of "PHYSTOP - 28672" 22]
  show ?thesis unfolding v by fastforce
qed

theorem copyout_copyin_witness:
  "\<exists>s'. copyout pg_root 100 [1, 2, 3] user_state = Done 0 s' \<and> copyin pg_root 100 3 s' = Done (0, [1, 2, 3]) s' \<and>
    umem s' pg_root 101 = Some 2 \<and> umem s' pg_root 99 = Some 0"
proof -
  have "umem user_state pg_root 99 = Some 0" unfolding umem_upage user_state_upage by auto
  moreover obtain s' where "copyout pg_root 100 [1, 2, 3] user_state = Done 0 s'" "copyin pg_root 100 3 s' = Done (0, [1, 2, 3]) s'"
      "\<And>c. umem s' pg_root c = (if 100 \<le> c \<and> c < 103 then Some ([1, 2, 3] ! (c - 100)) else umem user_state pg_root c)"
    using copyout_copyin [OF user_state_wf user_state_writable(2), of 100 "[1, 2, 3]"] user_state_writable(1) by (auto simp: numeral_3_eq_3)
  ultimately show ?thesis by (intro exI [of _ s']) simp
qed

end
