(* ===== verification/Pipe.thy ===== *)
theory Pipe
  imports Pagetable
begin

text \<open>
  Pipes, \<open>pipe.c\<close>, apart from \<open>pipealloc\<close>, which allocates files and is in theory \<open>File\<close>.

  A pipe is the object \<open>Pipe\<close> in its page. \<open>nread\<close> and \<open>nwrite\<close> count bytes modulo \<open>2 ^ 32\<close> and the bytes in
  between are in the ring \<open>data\<close>. A writer that finds the pipe full and a reader that finds it empty sleep;
  \<open>pipewrite_resume\<close> and \<open>piperead_resume\<close> are the code from the return of \<open>sleep\<close> on.
\<close>

section \<open>Operations\<close>

definition PIPESIZE :: nat where
  [simp]: "PIPESIZE = 512"

definition upd_pipe :: "u64 \<Rightarrow> (pipe \<Rightarrow> pipe) \<Rightarrow> unit K" where
  [kdefs]: "upd_pipe pi f =
    bnd (get_pipe pi) (\<lambda>p.
    put_obj pi (Pipe (f p)))"

definition pipeclose :: "u64 \<Rightarrow> bool \<Rightarrow> unit K" where
  "pipeclose pi writable =
    sq (acquire (PipeLock pi))
    (sq (if writable then sq (upd_pipe pi (pi_writeopen_update (\<lambda>_. False)))
      (wakeup (ChPipeRead pi))
      else sq (upd_pipe pi (pi_readopen_update (\<lambda>_. False)))
        (wakeup (ChPipeWrite pi)))
    (bnd (get_pipe pi) (\<lambda>p.
    if \<not> pi_readopen p \<and> \<not> pi_writeopen p then sq (release (PipeLock pi))
      (kfree pi)
      else release (PipeLock pi))))"

definition pipewrite_done :: "u64 \<Rightarrow> nat \<Rightarrow> int K" where
  [kdefs]: "pipewrite_done pi i =
    sq (wakeup (ChPipeRead pi))
    (sq (release (PipeLock pi))
    (ret (int i)))"

text \<open>The loop of \<open>pipewrite\<close> after \<open>i\<close> bytes, with \<open>k\<close> to go.\<close>

primrec pipewrite_loop :: "nat \<Rightarrow> u64 \<Rightarrow> u64 \<Rightarrow> nat \<Rightarrow> int K" where
  "pipewrite_loop 0 pi addr i = pipewrite_done pi i"
| "pipewrite_loop (Suc k) pi addr i =
  bnd this_proc (\<lambda>pr.
  bnd (get_pipe pi) (\<lambda>p.
  bnd (if \<not> pi_readopen p then ret True else killed pr) (\<lambda>kl.
  if kl then (sq (release (PipeLock pi))
    (ret (-1))) else
  if pi_nwrite p = pi_nread p + of_nat PIPESIZE then sq (wakeup (ChPipeRead pi))
    (sq (sleep (ChPipeWrite pi) (PipeLock pi))
    (ret 0))
    else bnd (getk (\<lambda>s. p_pagetable (procs s pr))) (\<lambda>pt.
      bnd (copyin pt (addr + of_nat i) 1) (\<lambda>r.
      if fst r = -1 then pipewrite_done pi i else
      sq (upd_pipe pi (\<lambda>p. p\<lparr>pi_data := (pi_data p)[unat (pi_nwrite p) mod PIPESIZE := hd (snd r)],
        pi_nwrite := pi_nwrite p + 1\<rparr>))
      (pipewrite_loop k pi addr (Suc i)))))))"

definition pipewrite :: "u64 \<Rightarrow> u64 \<Rightarrow> int \<Rightarrow> int K" where
  "pipewrite pi addr n =
    sq (acquire (PipeLock pi))
    (pipewrite_loop (nat n) pi addr 0)"

definition pipewrite_resume :: "nat \<Rightarrow> u64 \<Rightarrow> u64 \<Rightarrow> nat \<Rightarrow> int K" where
  "pipewrite_resume k pi addr i =
    sq (sleep_resume (PipeLock pi))
    (pipewrite_loop k pi addr i)"

text \<open>The copy loop of \<open>piperead\<close> after \<open>i\<close> bytes, with \<open>k\<close> to go.\<close>

primrec piperead_copy :: "nat \<Rightarrow> u64 \<Rightarrow> u64 \<Rightarrow> nat \<Rightarrow> int K" where
  "piperead_copy 0 pi addr i = ret (int i)"
| "piperead_copy (Suc k) pi addr i =
  bnd (get_pipe pi) (\<lambda>p.
  if pi_nread p = pi_nwrite p then ret (int i) else
  (let ch = pi_data p ! (unat (pi_nread p) mod PIPESIZE) in
  bnd this_proc (\<lambda>pr.
  bnd (getk (\<lambda>s. p_pagetable (procs s pr))) (\<lambda>pt.
  bnd (copyout pt (addr + of_nat i) [ch]) (\<lambda>r.
  if r = -1 then ret (if i = 0 then -1 else int i) else
  sq (upd_pipe pi (pi_nread_update (\<lambda>r. r + 1)))
  (piperead_copy k pi addr (Suc i)))))))"

definition piperead_body :: "u64 \<Rightarrow> u64 \<Rightarrow> int \<Rightarrow> int K" where
  "piperead_body pi addr n =
    bnd (get_pipe pi) (\<lambda>p.
    if pi_nread p = pi_nwrite p \<and> pi_writeopen p then bnd this_proc (\<lambda>pr.
      bnd (killed pr) (\<lambda>kl.
      if kl then (sq (release (PipeLock pi))
        (ret (-1))) else
      sq (sleep (ChPipeRead pi) (PipeLock pi))
      (ret 0)))
      else bnd (piperead_copy (nat n) pi addr 0) (\<lambda>i.
        sq (wakeup (ChPipeWrite pi))
        (sq (release (PipeLock pi))
        (ret i))))"

definition piperead :: "u64 \<Rightarrow> u64 \<Rightarrow> int \<Rightarrow> int K" where
  "piperead pi addr n =
    sq (acquire (PipeLock pi))
    (piperead_body pi addr n)"

definition piperead_resume :: "u64 \<Rightarrow> u64 \<Rightarrow> int \<Rightarrow> int K" where
  "piperead_resume pi addr n =
    sq (sleep_resume (PipeLock pi))
    (piperead_body pi addr n)"

section \<open>Bounded queues\<close>

text \<open>
  What the users of a ring buffer rely on: \<open>content q\<close> is the queue as a list, \<open>put\<close> appends to it unless it is
  full, \<open>get\<close> takes off the front unless it is empty.
\<close>

locale fifo =
  fixes content :: "'q \<Rightarrow> 'a list" and ok :: "'q \<Rightarrow> bool" and cap :: nat
    and put :: "'a \<Rightarrow> 'q \<Rightarrow> 'q" and front :: "'q \<Rightarrow> 'a" and pop :: "'q \<Rightarrow> 'q"
  assumes content_cap: "ok q \<Longrightarrow> length (content q) \<le> cap"
    and put_ok: "ok q \<Longrightarrow> length (content q) < cap \<Longrightarrow> ok (put x q)"
    and put_content: "ok q \<Longrightarrow> length (content q) < cap \<Longrightarrow> content (put x q) = content q @ [x]"
    and front_content: "ok q \<Longrightarrow> content q \<noteq> [] \<Longrightarrow> front q = hd (content q)"
    and pop_ok: "ok q \<Longrightarrow> content q \<noteq> [] \<Longrightarrow> ok (pop q)"
    and pop_content: "ok q \<Longrightarrow> content q \<noteq> [] \<Longrightarrow> content (pop q) = tl (content q)"
begin

lemma put_all:
  "ok q \<Longrightarrow> length (content q) + length xs \<le> cap \<Longrightarrow>
   ok (fold put xs q) \<and> content (fold put xs q) = content q @ xs"
  by (induction xs arbitrary: q) (simp_all add: put_ok put_content)

lemma pop_all:
  "ok q \<Longrightarrow> n \<le> length (content q) \<Longrightarrow> ok ((pop ^^ n) q) \<and> content ((pop ^^ n) q) = drop n (content q)"
proof (induction n)
  case (Suc n)
  then have "ok ((pop ^^ n) q)" "content ((pop ^^ n) q) = drop n (content q)" "drop n (content q) \<noteq> []" by auto
  then show ?case using pop_ok pop_content by (simp add: drop_Suc tl_drop)
qed simp

lemma nth_front:
  "ok q \<Longrightarrow> n < length (content q) \<Longrightarrow> front ((pop ^^ n) q) = content q ! n"
  using pop_all [of q n] front_content [of "(pop ^^ n) q"] by (simp add: hd_drop_conv_nth)

text \<open>First in, first out: what was put into an empty queue comes out in the same order.\<close>

lemma in_order:
  assumes "ok q" "content q = []" "length xs \<le> cap"
  shows "map (\<lambda>n. front ((pop ^^ n) (fold put xs q))) [0..<length xs] = xs"
  using put_all [of q xs] nth_front [of "fold put xs q"] assms by (intro nth_equalityI) simp_all

end

section \<open>The ring of a pipe\<close>

definition pipe_put :: "u8 \<Rightarrow> pipe \<Rightarrow> pipe" where
  "pipe_put c p = p\<lparr>pi_data := (pi_data p)[unat (pi_nwrite p) mod PIPESIZE := c], pi_nwrite := pi_nwrite p + 1\<rparr>"

definition pipe_front :: "pipe \<Rightarrow> u8" where
  "pipe_front p = pi_data p ! (unat (pi_nread p) mod PIPESIZE)"

definition pipe_pop :: "pipe \<Rightarrow> pipe" where
  "pipe_pop p = p\<lparr>pi_nread := pi_nread p + 1\<rparr>"

definition pqueue :: "pipe \<Rightarrow> u8 list" where
  "pqueue p = map (\<lambda>i. pi_data p ! ((unat (pi_nread p) + i) mod PIPESIZE)) [0..<unat (pi_nwrite p - pi_nread p)]"

definition pipe_ok :: "pipe \<Rightarrow> bool" where
  "pipe_ok p \<longleftrightarrow> length (pi_data p) = PIPESIZE \<and> unat (pi_nwrite p - pi_nread p) \<le> PIPESIZE"

lemma length_pqueue [simp]: "length (pqueue p) = unat (pi_nwrite p - pi_nread p)"
  by (simp add: pqueue_def)

lemma unat_add_mod: "unat (a + b :: u32) mod 512 = (unat a + unat b) mod 512"
proof -
  have "unat (a + b) = (unat a + unat b) mod 2 ^ 32" by (simp add: unat_word_ariths)
  moreover have "x mod 2 ^ 32 mod 512 = x mod 512" for x :: nat by (rule mod_mod_cancel) simp
  ultimately show ?thesis by simp
qed

lemma unat_less_Suc: "unat (a - b :: u32) < 512 \<Longrightarrow> unat (a + 1 - b) = Suc (unat (a - b))"
proof -
  assume "unat (a - b) < 512"
  moreover have "a + 1 - b = (a - b) + 1" by simp
  ultimately show ?thesis by (simp only: unat_word_ariths) simp
qed

lemma unat_pred: "a \<noteq> b \<Longrightarrow> unat (a - (b + 1) :: u32) = unat (a - b) - 1"
proof -
  assume "a \<noteq> b"
  then have "a - b \<noteq> 0" by simp
  moreover have "a - (b + 1) = (a - b) - 1" by simp
  ultimately show ?thesis by (metis unat_minus_one)
qed

lemma pipe_empty: "pqueue p = [] \<longleftrightarrow> pi_nread p = pi_nwrite p"
proof -
  have "pqueue p = [] \<longleftrightarrow> unat (pi_nwrite p - pi_nread p) = 0" by (simp add: pqueue_def)
  also have "\<dots> \<longleftrightarrow> pi_nwrite p - pi_nread p = 0" by (simp only: unat_eq_zero)
  finally show ?thesis by auto
qed

lemma pipe_full: "pipe_ok p \<Longrightarrow> pi_nwrite p = pi_nread p + of_nat PIPESIZE \<longleftrightarrow> length (pqueue p) = PIPESIZE"
proof -
  have "pi_nwrite p = pi_nread p + of_nat PIPESIZE \<longleftrightarrow> pi_nwrite p - pi_nread p = 512"
    by (simp add: algebra_simps)
  also have "\<dots> \<longleftrightarrow> unat (pi_nwrite p - pi_nread p) = unat (512 :: u32)" by (simp only: word_unat_eq_iff)
  finally show ?thesis by simp
qed

lemma pipe_put_content:
  assumes "pipe_ok p" "length (pqueue p) < PIPESIZE"
  shows "pqueue (pipe_put c p) = pqueue p @ [c]" "pipe_ok (pipe_put c p)"
proof -
  let ?n = "unat (pi_nwrite p - pi_nread p)"
  have n: "?n < 512" using assms(2) by simp
  have l: "unat (pi_nwrite p + 1 - pi_nread p) = Suc ?n" using n by (rule unat_less_Suc)
  have w: "unat (pi_nwrite p) mod 512 = (unat (pi_nread p) + ?n) mod 512"
    using unat_add_mod [of "pi_nread p" "pi_nwrite p - pi_nread p"] by simp
  have ne: "(unat (pi_nread p) + i) mod 512 \<noteq> unat (pi_nwrite p) mod 512" if "i < ?n" for i
  proof
    assume "(unat (pi_nread p) + i) mod 512 = unat (pi_nwrite p) mod 512"
    then have "(unat (pi_nread p) + ?n) mod 512 = (unat (pi_nread p) + i) mod 512" by (simp add: w)
    then have "512 dvd (?n - i)" using that
      by (metis add_diff_cancel_left mod_eq_dvd_iff_nat nat_add_left_cancel_le less_imp_le_nat)
    then show False using that n by (auto dest: dvd_imp_le)
  qed
  show "pipe_ok (pipe_put c p)" using assms l by (simp add: pipe_ok_def pipe_put_def)
  show "pqueue (pipe_put c p) = pqueue p @ [c]"
  proof (rule nth_equalityI)
    show "length (pqueue (pipe_put c p)) = length (pqueue p @ [c])" using l by (simp add: pipe_put_def)
    fix i assume "i < length (pqueue (pipe_put c p))"
    then have i: "i < Suc ?n" using l by (simp add: pipe_put_def)
    then show "pqueue (pipe_put c p) ! i = (pqueue p @ [c]) ! i"
      using assms(1) ne [THEN not_sym] l w by (cases "i = ?n") (simp_all add: pqueue_def pipe_put_def pipe_ok_def nth_append less_Suc_eq)
  qed
qed

lemma pipe_pop_content:
  assumes "pipe_ok p" "pqueue p \<noteq> []"
  shows "pqueue (pipe_pop p) = tl (pqueue p)" "pipe_ok (pipe_pop p)" "pipe_front p = hd (pqueue p)"
proof -
  let ?n = "unat (pi_nwrite p - pi_nread p)"
  have ne: "pi_nwrite p \<noteq> pi_nread p" using assms(2) pipe_empty by metis
  have l: "unat (pi_nwrite p - (pi_nread p + 1)) = ?n - 1" using ne by (rule unat_pred)
  have r: "(unat (pi_nread p + 1) + i) mod 512 = (unat (pi_nread p) + Suc i) mod 512" for i
    using unat_add_mod [of "pi_nread p" 1] by (metis add_Suc_shift mod_add_left_eq Suc_eq_plus1 unat_1)
  show "pipe_ok (pipe_pop p)" using assms(1) l by (auto simp: pipe_ok_def pipe_pop_def)
  show "pqueue (pipe_pop p) = tl (pqueue p)"
    using l r by (intro nth_equalityI) (simp_all add: pipe_pop_def nth_tl, simp add: pqueue_def less_diff_conv)
  show "pipe_front p = hd (pqueue p)"
    using assms(2) by (simp add: pipe_front_def hd_conv_nth) (simp add: pqueue_def)
qed

interpretation pipe: fifo pqueue pipe_ok PIPESIZE pipe_put pipe_front pipe_pop
  by unfold_locales (simp_all add: pipe_put_content pipe_pop_content, simp add: pipe_ok_def)

section \<open>Writing and reading\<close>

declare length_pqueue [simp del]

text \<open>A page that holds neither bytes nor a page table can change without any effect on an address space.\<close>

lemma other_page:
  assumes "heap s x = Some ob" "\<And>f. ob \<noteq> Bytes f" "\<And>f. ob \<noteq> PageTable f" "\<And>f. ob' \<noteq> Bytes f" "\<And>f. ob' \<noteq> PageTable f"
    and h: "heap s' = (heap s)(x \<mapsto> ob')"
  shows "pt_wf (heap s') r \<longleftrightarrow> pt_wf (heap s) r" "pte (heap s') r n = pte (heap s) r n"
    "upage s' r n pa f \<longleftrightarrow> upage s r n pa f" "umem s' r c = umem s r c"
proof -
  have e: "entry (heap s') = entry (heap s)" unfolding h by (rule entry_blank) (use assms in auto)
  have tab: "(\<exists>f. heap s' y = Some (PageTable f)) = (\<exists>f. heap s y = Some (PageTable f))" for y
    using assms by auto
  show "pt_wf (heap s') r \<longleftrightarrow> pt_wf (heap s) r" unfolding pt_wf_def e tab ..
  show p: "pte (heap s') r n = pte (heap s) r n" for n by (simp only: pte_def e)
  have "heap s' pa = Some (Bytes f) \<longleftrightarrow> heap s pa = Some (Bytes f)" for pa f using assms by auto
  then show up: "upage s' r n pa f \<longleftrightarrow> upage s r n pa f" for n pa f by (simp only: upage_def p)
  have eq: "a = b" if "\<And>v. a = Some v \<longleftrightarrow> b = Some v" for a b :: "u8 option"
    using that [of "the a"] that [of "the b"] by (cases a; cases b) simp_all
  show "umem s' r c = umem s r c" by (rule eq) (simp only: umem_upage up)
qed

text \<open>Process \<open>pr\<close> runs with the address space \<open>pt\<close> and holds the lock of the pipe \<open>pi\<close>.\<close>

definition pipe_at :: "kstate \<Rightarrow> u64 \<Rightarrow> pipe \<Rightarrow> nat \<Rightarrow> u64 \<Rightarrow> bool" where
  "pipe_at s pi p pr pt \<longleftrightarrow> cur s = Some pr \<and> p_pagetable (procs s pr) = pt \<and> pt_wf (heap s) pt \<and>
     heap s pi = Some (Pipe p) \<and> pipe_ok p \<and> held s = {PipeLock pi}"

lemma upd_pipe_eq: "heap s pi = Some (Pipe p) \<Longrightarrow> upd_pipe pi f s = Done () (s\<lparr>heap := (heap s)(pi \<mapsto> Pipe (f p))\<rparr>)"
  by (simp add: kdefs)

lemma pipe_at_upd:
  assumes "pipe_at s pi p pr pt" "pipe_ok p'"
  shows "pipe_at (s\<lparr>heap := (heap s)(pi \<mapsto> Pipe p')\<rparr>) pi p' pr pt"
    "umem (s\<lparr>heap := (heap s)(pi \<mapsto> Pipe p')\<rparr>) r c = umem s r c"
    "uwritable (s\<lparr>heap := (heap s)(pi \<mapsto> Pipe p')\<rparr>) r b len \<longleftrightarrow> uwritable s r b len"
    "uframes_distinct (s\<lparr>heap := (heap s)(pi \<mapsto> Pipe p')\<rparr>) r \<longleftrightarrow> uframes_distinct s r"
    "pte (heap (s\<lparr>heap := (heap s)(pi \<mapsto> Pipe p')\<rparr>)) r n = pte (heap s) r n"
proof -
  let ?s = "s\<lparr>heap := (heap s)(pi \<mapsto> Pipe p')\<rparr>"
  have h: "heap s pi = Some (Pipe p)" using assms(1) by (simp add: pipe_at_def)
  note o = other_page [OF h, of "Pipe p'" ?s]
  show u: "umem ?s r c = umem s r c" for r c by (rule o(4)) simp_all
  show p: "pte (heap ?s) r n = pte (heap s) r n" for r n by (rule o(2)) simp_all
  have up: "upage ?s r n pa f = upage s r n pa f" for r n pa f by (rule o(3)) simp_all
  have "pt_wf (heap ?s) pt = pt_wf (heap s) pt" by (rule o(1)) simp_all
  then show "pipe_at ?s pi p' pr pt" using assms by (simp add: pipe_at_def)
  show "uwritable ?s r b len \<longleftrightarrow> uwritable s r b len" by (simp only: uwritable_def u p)
  show "uframes_distinct ?s r \<longleftrightarrow> uframes_distinct s r" by (simp only: uframes_distinct_def up)
qed

lemma unat_add_of_nat: "unat (a :: u64) + i < 2 ^ 64 \<Longrightarrow> unat (a + of_nat i) = unat a + i"
  using unat_of_nat64 [of i] by (simp add: unat_word_ariths)

lemma ubytes_1: "ubytes s r b (Suc 0) = [the (umem s r b)]"
  by (simp add: ubytes_def)

text \<open>The loop of \<open>pipewrite\<close> as long as there is room.\<close>

lemma pipewrite_loop_ok:
  "pipe_at s pi p pr pt \<Longrightarrow> pi_readopen p \<Longrightarrow> \<not> p_killed (procs s pr) \<Longrightarrow> umapped s pt (unat addr + i) (m + k) \<Longrightarrow>
   length (pqueue p) + m \<le> PIPESIZE \<Longrightarrow>
   pipewrite_loop (m + k) pi addr i s = pipewrite_loop k pi addr (i + m)
     (s\<lparr>heap := (heap s)(pi \<mapsto> Pipe (fold pipe_put (ubytes s pt (unat addr + i) m) p))\<rparr>)"
proof (induction m arbitrary: s p i)
  case 0
  then have "heap s pi = Some (Pipe p)" by (simp add: pipe_at_def)
  then have "s\<lparr>heap := (heap s)(pi \<mapsto> Pipe p)\<rparr> = s" by (auto intro!: kstate.equality)
  then show ?case by (simp add: ubytes_def del: fun_upd_apply)
next
  case (Suc m)
  have at: "cur s = Some pr" "p_pagetable (procs s pr) = pt" "pt_wf (heap s) pt" "heap s pi = Some (Pipe p)" "pipe_ok p"
      "held s = {PipeLock pi}"
    using Suc.prems(1) by (simp_all add: pipe_at_def)
  have room: "length (pqueue p) < PIPESIZE" using Suc.prems(5) by simp
  have nf: "(pi_nwrite p = pi_nread p + of_nat PIPESIZE) = False" using pipe_full [OF at(5)] room by simp
  let ?b = "unat addr + i"
  have bd: "?b + (Suc m + k) \<le> 2 ^ 38" using umapped_bound [OF Suc.prems(4)] by simp
  have u: "unat (addr + of_nat i) = ?b" using bd by (intro unat_add_of_nat) simp
  have m1: "umapped s pt ?b 1" using Suc.prems(4) unfolding umapped_def by (auto dest: spec [where x = 0])
  let ?c = "the (umem s pt ?b)"
  have cp: "copyin pt (addr + of_nat i) 1 s = Done (0, [?c]) s"
    using copyin_ok [OF at(3), of "addr + of_nat i" 1] m1 by (simp add: u ubytes_1)
  let ?s = "s\<lparr>heap := (heap s)(pi \<mapsto> Pipe (pipe_put ?c p))\<rparr>"
  note up = pipe_at_upd [OF Suc.prems(1) pipe_put_content(2) [OF at(5) room], of ?c]
  have bs: "ubytes s pt ?b (Suc m) = ?c # ubytes ?s pt (?b + 1) m"
    using ubytes_split [of 1 "Suc m" s pt ?b] by (simp add: ubytes_1 ubytes_def up(2))
  have um: "umapped ?s pt (?b + 1) (m + k)"
    using umapped_split [OF Suc.prems(4), of 1] unfolding umapped_def up(2) by simp
  have "pipewrite_loop (Suc m + k) pi addr i s = pipewrite_loop (m + k) pi addr (Suc i) ?s"
    using at Suc.prems(2,3) nf cp by (simp add: this_proc_def myproc_def getk_def ret_def get_pipe_def killed_eq upd_pipe_eq pipe_put_def)
  also have "\<dots> = pipewrite_loop k pi addr (Suc i + m)
     (?s\<lparr>heap := (heap ?s)(pi \<mapsto> Pipe (fold pipe_put (ubytes ?s pt (unat addr + Suc i) m) (pipe_put ?c p)))\<rparr>)"
    using um up(1) Suc.prems(2,3,5) pipe_put_content(1) [OF at(5) room, of ?c]
    by (intro Suc.IH) (simp_all add: pipe_put_def)
  finally show ?case using bs by (simp del: fun_upd_apply pipewrite_loop.simps)
qed

lemma sq_Sleep: "m s = Sleep s' \<Longrightarrow> sq m k s = Sleep s'"
  by (simp add: sq_def bnd_def)

text \<open>The writer ends by waking the readers, or sleeps because the pipe is full.\<close>

definition pipe_set :: "kstate \<Rightarrow> u64 \<Rightarrow> pipe \<Rightarrow> kstate" where
  "pipe_set s pi p = s\<lparr>heap := (heap s)(pi \<mapsto> Pipe p)\<rparr>"

lemma pipewrite_full:
  assumes at: "pipe_at s pi p pr pt" and "pi_readopen p" "\<not> p_killed (procs s pr)" "length (pqueue p) = PIPESIZE"
  shows "pipewrite_loop (Suc k) pi addr i s = Sleep ((after_wakeup (ChPipeRead pi) s)\<lparr>held := {ProcLock pr},
    procs := (wake_procs (ChPipeRead pi) (Some pr) (procs s))(pr := (procs s pr)\<lparr>p_chan := Some (ChPipeWrite pi), p_state := SLEEPING\<rparr>)\<rparr>)"
proof -
  have a: "cur s = Some pr" "heap s pi = Some (Pipe p)" "pipe_ok p" "held s = {PipeLock pi}"
    using at by (simp_all add: pipe_at_def)
  have f: "(pi_nwrite p = pi_nread p + of_nat PIPESIZE) = True" using pipe_full [OF a(3)] assms(4) by simp
  have w: "wakeup (ChPipeRead pi) s = Done () (after_wakeup (ChPipeRead pi) s)"
    using a(4) by (intro wakeup_eq) (simp add: no_proc_lock_def)
  show ?thesis
    using a assms(2,3) f w sleep_eq [of "after_wakeup (ChPipeRead pi) s" pr "PipeLock pi" "ChPipeWrite pi"]
    by (simp add: this_proc_def myproc_def getk_def ret_def get_pipe_def killed_eq sq_Sleep after_wakeup_def)
qed

text \<open>The copy loop of \<open>piperead\<close> takes bytes off the front until it has enough or the pipe is empty. \<open>preads\<close> says
  that the bytes \<open>bs\<close> went from the pipe to the address \<open>b\<close> of the user program.\<close>

definition preads :: "u64 \<Rightarrow> u64 \<Rightarrow> nat \<Rightarrow> kstate \<Rightarrow> kstate \<Rightarrow> nat \<Rightarrow> u8 list \<Rightarrow> pipe \<Rightarrow> bool" where
  "preads pi pt pr s s' b bs p \<longleftrightarrow> pipe_at s' pi p pr pt \<and> uframes_distinct s' pt \<and> (\<exists>h. s' = s\<lparr>heap := h\<rparr>) \<and>
     (\<forall>n. pte (heap s') pt n = pte (heap s) pt n) \<and>
     (\<forall>c. umem s' pt c = (if b \<le> c \<and> c < b + length bs then Some (bs ! (c - b)) else umem s pt c))"

lemma preads_Cons:
  assumes "preads pi pt pr s s1 b [x] p1" "preads pi pt pr s1 s2 (Suc b) xs p2"
  shows "preads pi pt pr s s2 b (x # xs) p2"
proof -
  have "umem s2 pt c = (if b \<le> c \<and> c < b + length (x # xs) then Some ((x # xs) ! (c - b)) else umem s pt c)" for c
  proof -
    have 1: "umem s1 pt c = (if c = b then Some x else umem s pt c)"
      using assms(1) by (auto simp: preads_def le_less_Suc_eq)
    have 2: "umem s2 pt c = (if Suc b \<le> c \<and> c < Suc b + length xs then Some (xs ! (c - Suc b)) else umem s1 pt c)"
      using assms(2) by (simp add: preads_def)
    show ?thesis unfolding 2 1 by (auto simp: nth_Cons' Suc_le_eq)
  qed
  moreover have "\<exists>h. s2 = s\<lparr>heap := h\<rparr>"
  proof -
    obtain h h' where "s1 = s\<lparr>heap := h\<rparr>" "s2 = s1\<lparr>heap := h'\<rparr>" using assms unfolding preads_def by blast
    then show ?thesis by (intro exI [of _ h']) simp
  qed
  moreover have "pte (heap s2) pt n = pte (heap s) pt n" for n
    using assms unfolding preads_def by metis
  ultimately show ?thesis using assms(2) unfolding preads_def by blast
qed

lemma pipe_pop_upd: "pi_nread_update (\<lambda>r. r + 1) p = pipe_pop p"
  by (simp add: pipe_pop_def)

lemma pread_step:
  assumes at: "pipe_at s pi p pr pt" and w: "uframes_distinct s pt" "uwritable s pt (unat addr + i) 1"
    and ne: "pqueue p \<noteq> []"
  shows "\<exists>s'. piperead_copy (Suc k) pi addr i s = piperead_copy k pi addr (Suc i) s' \<and>
    preads pi pt pr s s' (unat addr + i) [hd (pqueue p)] (pipe_pop p)"
proof -
  have a: "cur s = Some pr" "p_pagetable (procs s pr) = pt" "pt_wf (heap s) pt" "heap s pi = Some (Pipe p)" "pipe_ok p"
    using at by (simp_all add: pipe_at_def)
  have nr: "(pi_nread p = pi_nwrite p) = False" using ne pipe_empty by simp
  let ?c = "hd (pqueue p)" and ?b = "unat addr + i"
  have c: "pi_data p ! (unat (pi_nread p) mod PIPESIZE) = ?c"
    using pipe_pop_content(3) [OF a(5) ne] by (simp add: pipe_front_def)
  have "umapped s pt ?b 1" using w(2) by (simp add: uwritable_def umapped_def)
  then have u: "unat (addr + of_nat i) = ?b" using umapped_bound [of s pt ?b 1] by (intro unat_add_of_nat) simp
  obtain s1 where s1: "copyout pt (addr + of_nat i) [?c] s = Done 0 s1" "uwrote pt s s1 ?b [?c]"
    using copyout_loop_ok [OF a(3) w(1), of "addr + of_nat i" "[?c]"] w(2) pages_bound [of "addr + of_nat i" 1]
    by (auto simp: copyout_def u)
  have at1: "pipe_at s1 pi p pr pt"
    using at s1(2) a(4) by (auto simp: pipe_at_def uwrote_def)
  let ?s = "s1\<lparr>heap := (heap s1)(pi \<mapsto> Pipe (pipe_pop p))\<rparr>"
  note up = pipe_at_upd [OF at1 pipe_pop_content(2) [OF a(5) ne]]
  have "heap s1 pi = Some (Pipe p)" using at1 by (simp add: pipe_at_def)
  then have "piperead_copy (Suc k) pi addr i s = piperead_copy k pi addr (Suc i) ?s"
    using a nr c s1(1) by (simp add: get_pipe_def this_proc_def myproc_def getk_def ret_def Let_def upd_pipe_eq pipe_pop_upd)
  moreover have "preads pi pt pr s ?s ?b [?c] (pipe_pop p)"
    unfolding preads_def
  proof (intro conjI allI)
    show "uframes_distinct ?s pt" using s1(2) by (simp only: up(4) uwrote_def)
    obtain h where "s1 = s\<lparr>heap := h\<rparr>" using s1(2) unfolding uwrote_def by blast
    then show "\<exists>h. ?s = s\<lparr>heap := h\<rparr>" by (intro exI [of _ "h(pi \<mapsto> Pipe (pipe_pop p))"]) simp
    show "pte (heap ?s) pt n = pte (heap s) pt n" for n using s1(2) by (simp only: up(5) uwrote_def)
    show "umem ?s pt c = (if ?b \<le> c \<and> c < ?b + length [?c] then Some ([?c] ! (c - ?b)) else umem s pt c)" for c
      using s1(2) by (simp only: up(2) uwrote_def)
  qed (rule up(1))
  ultimately show ?thesis by blast
qed

lemma piperead_copy_ok:
  "pipe_at s pi p pr pt \<Longrightarrow> uframes_distinct s pt \<Longrightarrow> uwritable s pt (unat addr + i) (min k (length (pqueue p))) \<Longrightarrow>
   \<exists>s' p'. piperead_copy k pi addr i s = Done (int (i + min k (length (pqueue p)))) s' \<and>
     preads pi pt pr s s' (unat addr + i) (take k (pqueue p)) p' \<and> pqueue p' = drop k (pqueue p) \<and>
     pi_writeopen p' = pi_writeopen p \<and> pi_readopen p' = pi_readopen p"
proof (induction k arbitrary: s p i)
  case 0
  then have "preads pi pt pr s s (unat addr + i) [] p" by (auto simp: preads_def intro: exI [of _ "heap s"])
  then show ?case using 0 by (auto simp: ret_def)
next
  case (Suc k)
  show ?case
  proof (cases "pqueue p = []")
    case True
    then have "preads pi pt pr s s (unat addr + i) [] p" using Suc.prems by (auto simp: preads_def intro: exI [of _ "heap s"])
    moreover have "pi_nread p = pi_nwrite p" using True pipe_empty by simp
    then have "piperead_copy (Suc k) pi addr i s = Done (int i) s"
      using Suc.prems(1) by (simp add: pipe_at_def get_pipe_def ret_def)
    ultimately show ?thesis using True by auto
  next
    case False
    have ok: "pipe_ok p" using Suc.prems(1) by (simp add: pipe_at_def)
    note pop = pipe_pop_content [OF ok False]
    have "0 < min (Suc k) (length (pqueue p))" using False by simp
    then have w1: "uwritable s pt (unat addr + i) 1"
      using Suc.prems(3) unfolding uwritable_def by (auto dest: spec [where x = 0])
    obtain s1 where s1: "piperead_copy (Suc k) pi addr i s = piperead_copy k pi addr (Suc i) s1"
        "preads pi pt pr s s1 (unat addr + i) [hd (pqueue p)] (pipe_pop p)"
      using pread_step [OF Suc.prems(1,2) w1 False] by blast
    have w: "uwritable s1 pt (unat addr + Suc i) (min k (length (pqueue (pipe_pop p))))"
    proof -
      have "min (Suc k) (length (pqueue p)) = Suc (min k (length (pqueue (pipe_pop p))))"
        using False pop(1) by (cases "pqueue p") simp_all
      then have "uwritable s pt (unat addr + i) (Suc (min k (length (pqueue (pipe_pop p)))))" using Suc.prems(3) by metis
      then have "umem s pt (unat addr + i + Suc j) \<noteq> None \<and> pte (heap s) pt ((unat addr + i + Suc j) div 4096) AND PTE_W \<noteq> 0"
        if "j < min k (length (pqueue (pipe_pop p)))" for j
        using that unfolding uwritable_def by blast
      then show ?thesis using s1(2) unfolding uwritable_def preads_def by auto
    qed
    obtain s' p' where "piperead_copy k pi addr (Suc i) s1 = Done (int (Suc i + min k (length (pqueue (pipe_pop p))))) s'"
        "preads pi pt pr s1 s' (unat addr + Suc i) (take k (pqueue (pipe_pop p))) p'" "pqueue p' = drop k (pqueue (pipe_pop p))"
        "pi_writeopen p' = pi_writeopen (pipe_pop p)" "pi_readopen p' = pi_readopen (pipe_pop p)"
      using Suc.IH [OF _ _ w] s1(2) unfolding preads_def by blast
    moreover have "take (Suc k) (pqueue p) = hd (pqueue p) # take k (pqueue (pipe_pop p))"
        "drop (Suc k) (pqueue p) = drop k (pqueue (pipe_pop p))"
        "min (Suc k) (length (pqueue p)) = Suc (min k (length (pqueue (pipe_pop p))))"
      using False pop(1) by (cases "pqueue p"; simp)+
    ultimately show ?thesis
      using s1 preads_Cons [OF s1(2)] by (intro exI [of _ s'] exI [of _ p']) (simp add: pipe_pop_def)
  qed
qed

lemma acquire_none: "held s = {} \<Longrightarrow> acquire lk s = Done () (s\<lparr>held := {lk}\<rparr>)"
  by (simp add: kdefs)

lemma fold_put:
  "pipe_ok p \<Longrightarrow> length (pqueue p) + length bs \<le> PIPESIZE \<Longrightarrow>
   pipe_ok (fold pipe_put bs p) \<and> pqueue (fold pipe_put bs p) = pqueue p @ bs \<and>
   pi_readopen (fold pipe_put bs p) = pi_readopen p"
  using pipe.put_all [of p bs]
proof (intro conjI)
  show "pi_readopen (fold pipe_put bs p) = pi_readopen p" by (induction bs arbitrary: p) (simp_all add: pipe_put_def)
qed simp_all

text \<open>The state before the call: process \<open>pr\<close> holds no lock.\<close>

definition pipe_idle :: "kstate \<Rightarrow> u64 \<Rightarrow> pipe \<Rightarrow> nat \<Rightarrow> u64 \<Rightarrow> bool" where
  "pipe_idle s pi p pr pt \<longleftrightarrow> held s = {} \<and> pipe_at (s\<lparr>held := {PipeLock pi}\<rparr>) pi p pr pt"

lemma umem_held [simp]: "umem (s\<lparr>held := H\<rparr>) r c = umem s r c"
  by (simp add: umem_def cong: if_cong)

lemma pipewrite_from_room:
  assumes i: "pipe_idle s pi p pr pt" and "pi_readopen p" "\<not> p_killed (procs s pr)" "umapped s pt (unat addr + j) n"
    and le: "length (pqueue p) + n \<le> PIPESIZE"
  shows "\<exists>p'. sq (acquire (PipeLock pi)) (pipewrite_loop n pi addr j) s = Done (int (j + n)) (after_wakeup (ChPipeRead pi) (pipe_set s pi p')) \<and>
    pipe_ok p' \<and> pqueue p' = pqueue p @ ubytes s pt (unat addr + j) n"
proof -
  let ?s = "s\<lparr>held := {PipeLock pi}\<rparr>" and ?bs = "ubytes s pt (unat addr + j) n"
  have at: "pipe_at ?s pi p pr pt" and h: "held s = {}" and ok: "pipe_ok p"
    using i by (simp_all add: pipe_idle_def pipe_at_def)
  have u: "umapped ?s pt (unat addr + j) (n + 0)" "ubytes ?s pt (unat addr + j) n = ?bs"
    using assms(4) by (simp_all add: umapped_def ubytes_def)
  let ?p' = "fold pipe_put ?bs p"
  have l: "pipewrite_loop (n + 0) pi addr j ?s = pipewrite_loop 0 pi addr (j + n) (?s\<lparr>heap := (heap ?s)(pi \<mapsto> Pipe ?p')\<rparr>)"
    using pipewrite_loop_ok [OF at assms(2) _ u(1) le] assms(3) unfolding u(2) by simp
  let ?s1 = "?s\<lparr>heap := (heap ?s)(pi \<mapsto> Pipe ?p')\<rparr>"
  have w: "wakeup (ChPipeRead pi) ?s1 = Done () (after_wakeup (ChPipeRead pi) ?s1)"
    by (rule wakeup_eq) (simp add: no_proc_lock_def)
  have "release (PipeLock pi) (after_wakeup (ChPipeRead pi) ?s1) = Done () (after_wakeup (ChPipeRead pi) (pipe_set s pi ?p'))"
    using h by (auto simp: kdefs after_wakeup_def pipe_set_def intro!: kstate.equality)
  then have "sq (acquire (PipeLock pi)) (pipewrite_loop n pi addr j) s = Done (int (j + n)) (after_wakeup (ChPipeRead pi) (pipe_set s pi ?p'))"
    using l w acquire_none [OF h] by (simp add: pipewrite_done_def ret_def)
  then show ?thesis using fold_put [OF ok, of ?bs] le by (auto simp: ubytes_def)
qed

lemma pipewrite_room:
  assumes "pipe_idle s pi p pr pt" "pi_readopen p" "\<not> p_killed (procs s pr)" "umapped s pt (unat addr) n"
    "length (pqueue p) + n \<le> PIPESIZE"
  shows "\<exists>p'. pipewrite pi addr (int n) s = Done (int n) (after_wakeup (ChPipeRead pi) (pipe_set s pi p')) \<and>
    pipe_ok p' \<and> pqueue p' = pqueue p @ ubytes s pt (unat addr) n"
  using pipewrite_from_room [of s pi p pr pt addr 0 n] assms by (simp add: pipewrite_def)

lemma pipewrite_block:
  assumes i: "pipe_idle s pi p pr pt" and "pi_readopen p" "\<not> p_killed (procs s pr)" "umapped s pt (unat addr) n"
    and gt: "PIPESIZE < length (pqueue p) + n"
  shows "\<exists>p' s'. pipewrite pi addr (int n) s = Sleep s' \<and> heap s' pi = Some (Pipe p') \<and> pipe_ok p' \<and>
    pqueue p' = pqueue p @ ubytes s pt (unat addr) (PIPESIZE - length (pqueue p)) \<and>
    procs s' = (wake_procs (ChPipeRead pi) (Some pr) (procs s))(pr := (procs s pr)\<lparr>p_chan := Some (ChPipeWrite pi), p_state := SLEEPING\<rparr>) \<and>
    held s' = {ProcLock pr}"
proof -
  let ?s = "s\<lparr>held := {PipeLock pi}\<rparr>"
  have at: "pipe_at ?s pi p pr pt" and h: "held s = {}" and ok: "pipe_ok p"
    using i by (simp_all add: pipe_idle_def pipe_at_def)
  define m where "m = PIPESIZE - length (pqueue p)"
  have m: "length (pqueue p) + m = PIPESIZE" using pipe.content_cap [OF ok] by (simp add: m_def)
  define k where "k = n - Suc m"
  have n: "n = m + Suc k" using m gt by (simp add: k_def)
  let ?bs = "ubytes s pt (unat addr) m" and ?p' = "fold pipe_put (ubytes s pt (unat addr) m) p"
  have u: "umapped ?s pt (unat addr + 0) (m + Suc k)" "ubytes ?s pt (unat addr + 0) m = ?bs"
    using assms(4) n by (simp_all add: umapped_def ubytes_def)
  let ?s1 = "?s\<lparr>heap := (heap ?s)(pi \<mapsto> Pipe ?p')\<rparr>"
  have p': "pipe_ok ?p'" "pqueue ?p' = pqueue p @ ?bs" "pi_readopen ?p'"
    using fold_put [OF ok, of ?bs] m assms(2) by (simp_all add: ubytes_def)
  have l: "pipewrite_loop (m + Suc k) pi addr 0 ?s = pipewrite_loop (Suc k) pi addr (0 + m) ?s1"
    using pipewrite_loop_ok [OF at assms(2) _ u(1)] assms(3) m unfolding u(2) by (simp del: pipewrite_loop.simps)
  have at1: "pipe_at ?s1 pi ?p' pr pt" by (rule pipe_at_upd(1) [OF at p'(1)])
  have "length (pqueue ?p') = PIPESIZE" using p'(2) m by (simp add: ubytes_def)
  then have "pipewrite_loop (Suc k) pi addr m ?s1 = Sleep ((after_wakeup (ChPipeRead pi) ?s1)\<lparr>held := {ProcLock pr},
      procs := (wake_procs (ChPipeRead pi) (Some pr) (procs ?s1))(pr := (procs ?s1 pr)\<lparr>p_chan := Some (ChPipeWrite pi), p_state := SLEEPING\<rparr>)\<rparr>)"
    using pipewrite_full [OF at1 p'(3)] assms(3) by (simp del: pipewrite_loop.simps)
  moreover have c: "nat (int n) = m + Suc k" using n by simp
  ultimately show ?thesis
    using l acquire_none [OF h] p' unfolding pipewrite_def m_def [symmetric] c
    by (simp del: pipewrite_loop.simps)
qed

lemma piperead_nonempty:
  assumes i: "pipe_idle s pi p pr pt" and ne: "pqueue p \<noteq> []" and fd: "uframes_distinct s pt"
    and w: "uwritable s pt (unat addr) (min n (length (pqueue p)))"
  shows "\<exists>s1 p'. piperead pi addr (int n) s = Done (int (min n (length (pqueue p)))) (after_wakeup (ChPipeWrite pi) (s1\<lparr>held := {}\<rparr>)) \<and>
    preads pi pt pr (s\<lparr>held := {PipeLock pi}\<rparr>) s1 (unat addr) (take n (pqueue p)) p' \<and> pqueue p' = drop n (pqueue p)"
proof -
  let ?s = "s\<lparr>held := {PipeLock pi}\<rparr>"
  have at: "pipe_at ?s pi p pr pt" and h: "held s = {}" and hp: "heap s pi = Some (Pipe p)"
    using i by (simp_all add: pipe_idle_def pipe_at_def)
  have "uframes_distinct ?s pt" "uwritable ?s pt (unat addr + 0) (min n (length (pqueue p)))"
    using fd w by (simp_all add: uframes_distinct_def upage_def uwritable_def)
  from piperead_copy_ok [OF at this] obtain s1 p' where
      r: "piperead_copy n pi addr 0 ?s = Done (int (min n (length (pqueue p)))) s1"
      "preads pi pt pr ?s s1 (unat addr) (take n (pqueue p)) p'" "pqueue p' = drop n (pqueue p)"
    by auto
  have h1: "held s1 = {PipeLock pi}" using r(2) by (simp add: preads_def pipe_at_def)
  have wk: "wakeup (ChPipeWrite pi) s1 = Done () (after_wakeup (ChPipeWrite pi) s1)"
    by (rule wakeup_eq) (simp add: no_proc_lock_def h1)
  have rl: "release (PipeLock pi) (after_wakeup (ChPipeWrite pi) s1) = Done () (after_wakeup (ChPipeWrite pi) (s1\<lparr>held := {}\<rparr>))"
    using h1 by (auto simp: kdefs after_wakeup_def intro!: kstate.equality)
  have e: "(pi_nread p = pi_nwrite p) = False" using ne pipe_empty by simp
  have "piperead pi addr (int n) s = Done (int (min n (length (pqueue p)))) (after_wakeup (ChPipeWrite pi) (s1\<lparr>held := {}\<rparr>))"
    using acquire_none [OF h, of "PipeLock pi"] r(1) wk rl e hp
    by (simp add: piperead_def piperead_body_def get_pipe_def ret_def)
  then show ?thesis using r by blast
qed

text \<open>C6. A pipe is a bounded first-in first-out queue of 512 bytes. \<open>pipewrite\<close> of \<open>n\<close> bytes that fit appends the
  bytes the user program has at \<open>addr\<close>, in order, and returns \<open>n\<close>; of more bytes it appends those that fit and
  goes to sleep until there is room. \<open>piperead\<close> of a pipe that is not empty moves the first bytes of the queue to
  the user program, as many as it asks for and as there are. The counters may wrap around.\<close>

theorem pipe_refines_queue:
  assumes i: "pipe_idle s pi p pr pt" and nk: "\<not> p_killed (procs s pr)"
  shows "(pi_readopen p \<and> umapped s pt (unat addr) n \<longrightarrow>
     (if length (pqueue p) + n \<le> PIPESIZE
      then \<exists>s' p'. pipewrite pi addr (int n) s = Done (int n) s' \<and> heap s' pi = Some (Pipe p') \<and> pipe_ok p' \<and>
         pqueue p' = pqueue p @ ubytes s pt (unat addr) n
      else \<exists>s' p'. pipewrite pi addr (int n) s = Sleep s' \<and> heap s' pi = Some (Pipe p') \<and> pipe_ok p' \<and>
         pqueue p' = pqueue p @ ubytes s pt (unat addr) (PIPESIZE - length (pqueue p)) \<and>
         p_state (procs s' pr) = SLEEPING \<and> p_chan (procs s' pr) = Some (ChPipeWrite pi))) \<and>
    (pqueue p \<noteq> [] \<and> uframes_distinct s pt \<and> uwritable s pt (unat addr) (min n (length (pqueue p))) \<longrightarrow>
      (\<exists>s' p'. piperead pi addr (int n) s = Done (int (min n (length (pqueue p)))) s' \<and> heap s' pi = Some (Pipe p') \<and>
        pipe_ok p' \<and> pqueue p' = drop n (pqueue p) \<and>
        (\<forall>c. umem s' pt c = (if unat addr \<le> c \<and> c < unat addr + min n (length (pqueue p))
          then Some (pqueue p ! (c - unat addr)) else umem s pt c))))"
proof (intro conjI impI; elim conjE)
  assume w: "pi_readopen p" "umapped s pt (unat addr) n"
  show "if length (pqueue p) + n \<le> PIPESIZE
      then \<exists>s' p'. pipewrite pi addr (int n) s = Done (int n) s' \<and> heap s' pi = Some (Pipe p') \<and> pipe_ok p' \<and>
         pqueue p' = pqueue p @ ubytes s pt (unat addr) n
      else \<exists>s' p'. pipewrite pi addr (int n) s = Sleep s' \<and> heap s' pi = Some (Pipe p') \<and> pipe_ok p' \<and>
         pqueue p' = pqueue p @ ubytes s pt (unat addr) (PIPESIZE - length (pqueue p)) \<and>
         p_state (procs s' pr) = SLEEPING \<and> p_chan (procs s' pr) = Some (ChPipeWrite pi)"
  proof (cases "length (pqueue p) + n \<le> PIPESIZE")
    case True
    then show ?thesis using pipewrite_room [OF i w(1) nk w(2) True] by (auto simp: pipe_set_def)
  next
    case False
    then have "PIPESIZE < length (pqueue p) + n" by simp
    from pipewrite_block [OF i w(1) nk w(2) this] show ?thesis using False by fastforce
  qed
next
  assume "pqueue p \<noteq> []" "uframes_distinct s pt" "uwritable s pt (unat addr) (min n (length (pqueue p)))"
  from piperead_nonempty [OF i this] obtain s1 p' where
      r: "piperead pi addr (int n) s = Done (int (min n (length (pqueue p)))) (after_wakeup (ChPipeWrite pi) (s1\<lparr>held := {}\<rparr>))"
      "preads pi pt pr (s\<lparr>held := {PipeLock pi}\<rparr>) s1 (unat addr) (take n (pqueue p)) p'" "pqueue p' = drop n (pqueue p)"
    by blast
  have u: "umem (after_wakeup ch t) pt c = umem t pt c" for ch t c by (simp add: umem_def cong: if_cong)
  show "\<exists>s' p'. piperead pi addr (int n) s = Done (int (min n (length (pqueue p)))) s' \<and> heap s' pi = Some (Pipe p') \<and>
        pipe_ok p' \<and> pqueue p' = drop n (pqueue p) \<and>
        (\<forall>c. umem s' pt c = (if unat addr \<le> c \<and> c < unat addr + min n (length (pqueue p))
          then Some (pqueue p ! (c - unat addr)) else umem s pt c))"
    using r by (intro exI [of _ "after_wakeup (ChPipeWrite pi) (s1\<lparr>held := {}\<rparr>)"] exI [of _ p'])
      (auto simp: preads_def pipe_at_def u min.commute)
qed

definition pipe_page :: u64 where "pipe_page = PHYSTOP - 28672"

definition sample_pipe :: pipe where
  "sample_pipe = \<lparr>pi_data = replicate 512 9, pi_nread = 2 ^ 32 - 1, pi_nwrite = 1, pi_readopen = True, pi_writeopen = True\<rparr>"

text \<open>Process 0 has the address space of \<open>user_state\<close> and a pipe with two bytes whose counters are about to wrap.\<close>

definition pipe_state :: kstate where
  "pipe_state = user_state\<lparr>cur := Some 0, heap := (heap user_state)(pipe_page \<mapsto> Pipe sample_pipe),
     procs := (procs user_state)(0 := (procs user_state 0)\<lparr>p_pagetable := pg_root\<rparr>)\<rparr>"

lemma pipe_page_fresh: "heap user_state pipe_page = None"
  by (simp add: user_state_def pipe_page_def pg_defs two_free_pages_def)

lemma pipe_state_same:
  "pt_wf (heap pipe_state) pg_root" "umem pipe_state pg_root c = umem user_state pg_root c"
  "pte (heap pipe_state) r n = pte (heap user_state) r n" "upage pipe_state r n pa f = upage user_state r n pa f"
proof -
  have h: "heap pipe_state = (heap user_state)(pipe_page \<mapsto> Pipe sample_pipe)" by (simp add: pipe_state_def)
  have e: "entry (heap pipe_state) = entry (heap user_state)" unfolding h by (rule entry_blank) (simp_all add: pipe_page_fresh)
  have tab: "(\<exists>f. heap pipe_state y = Some (PageTable f)) = (\<exists>f. heap user_state y = Some (PageTable f))" for y
    using pipe_page_fresh by (auto simp: h)
  show "pt_wf (heap pipe_state) pg_root" using user_state_wf unfolding pt_wf_def e tab .
  show p: "pte (heap pipe_state) r n = pte (heap user_state) r n" for r n by (simp only: pte_def e)
  show up: "upage pipe_state r n pa f = upage user_state r n pa f" for r n pa f
    using pipe_page_fresh by (simp only: upage_def p) (auto simp: h)
  have eq: "a = b" if "\<And>v. a = Some v \<longleftrightarrow> b = Some v" for a b :: "u8 option"
    using that [of "the a"] that [of "the b"] by (cases a; cases b) simp_all
  show "umem pipe_state pg_root c = umem user_state pg_root c" by (rule eq) (simp only: umem_upage up)
qed

lemma pipe_state_idle: "pipe_idle pipe_state pipe_page sample_pipe 0 pg_root" "\<not> p_killed (procs pipe_state 0)"
proof -
  have "pipe_ok sample_pipe" by (simp add: pipe_ok_def sample_pipe_def)
  then show "pipe_idle pipe_state pipe_page sample_pipe 0 pg_root"
    using pipe_state_same(1) user_state_kmem(2) by (simp add: pipe_idle_def pipe_at_def) (simp add: pipe_state_def)
  show "\<not> p_killed (procs pipe_state 0)"
    by (simp add: pipe_state_def user_state_def two_free_pages_def bss_state_def zero_proc_def)
qed

lemma sample_queue: "pqueue sample_pipe = [9, 9]"
  by (simp add: pqueue_def sample_pipe_def numeral_2_eq_2 [symmetric] upt_rec)

theorem pipe_refines_queue_witness:
  "(\<exists>s' p'. pipewrite pipe_page 100 3 pipe_state = Done 3 s' \<and> heap s' pipe_page = Some (Pipe p') \<and>
      pqueue p' = [9, 9, 0, 0, 0]) \<and>
   (\<exists>s' p'. piperead pipe_page 100 1 pipe_state = Done 1 s' \<and> heap s' pipe_page = Some (Pipe p') \<and>
      pqueue p' = [9] \<and> umem s' pg_root 100 = Some 9)"
proof -
  have m: "umem pipe_state pg_root (100 + i) = Some 0" if "i < 3" for i
    using that unfolding pipe_state_same(2) umem_upage user_state_upage by auto
  have um: "umapped pipe_state pg_root (unat (100 :: u64)) 3" using m by (simp add: umapped_def)
  have ub: "ubytes pipe_state pg_root (unat (100 :: u64)) 3 = [0, 0, 0]"
    using m [of 0] m [of 1] m [of 2] by (simp add: ubytes_def upt_rec numeral_3_eq_3)
  have w: "uwritable pipe_state pg_root (unat (100 :: u64)) 1" "uframes_distinct pipe_state pg_root"
    using user_state_writable unfolding uwritable_def uframes_distinct_def pipe_state_same(2-4)
    by (auto dest: spec [where x = 0])
  have ro: "pi_readopen sample_pipe" by (simp add: sample_pipe_def)
  note t = pipe_refines_queue [OF pipe_state_idle]
  show ?thesis
    using t [of 100 3] t [of 100 1] um ub w ro unfolding sample_queue by fastforce
qed

section \<open>Sleeping and waking\<close>

text \<open>The state a routine leaves behind, whether it returned or went to sleep.\<close>

definition final :: "('a, kstate) outcome \<Rightarrow> kstate option" where
  "final r = (case r of Done _ s \<Rightarrow> Some s | Sleep s \<Rightarrow> Some s | _ \<Rightarrow> None)"

lemma write_wakes:
  assumes i: "pipe_idle s pi p pr pt" "\<not> p_killed (procs s pr)" "pi_readopen p" "umapped s pt (unat addr) n" and n: "0 < n"
    and w: "w < NPROC" "w \<noteq> pr" "p_state (procs s w) = SLEEPING" "p_chan (procs s w) = Some (ChPipeRead pi)"
  shows "\<exists>s' p'. final (pipewrite pi addr (int n) s) = Some s' \<and> p_state (procs s' w) = RUNNABLE \<and>
    heap s' pi = Some (Pipe p') \<and> pqueue p' \<noteq> []"
proof -
  have cur: "cur s = Some pr" and ok: "pipe_ok p" using i by (simp_all add: pipe_idle_def pipe_at_def)
  have wk: "p_state (wake_procs (ChPipeRead pi) (Some pr) (procs s) w) = RUNNABLE"
    using w by (simp add: wake_procs_def wake_if_def)
  show ?thesis
  proof (cases "length (pqueue p) + n \<le> PIPESIZE")
    case True
    from pipewrite_room [OF i(1,3,2,4) True] wk cur n show ?thesis
      by (auto simp: final_def pipe_set_def after_wakeup_def ubytes_def)
  next
    case False
    then have "PIPESIZE < length (pqueue p) + n" by simp
    from pipewrite_block [OF i(1,3,2,4) this] obtain s' p' where
      b: "pipewrite pi addr (int n) s = Sleep s'" "heap s' pi = Some (Pipe p')"
        "pqueue p' = pqueue p @ ubytes s pt (unat addr) (PIPESIZE - length (pqueue p))"
        "procs s' w = wake_procs (ChPipeRead pi) (Some pr) (procs s) w" using w(2) by auto
    have "length (pqueue p') = PIPESIZE" using b(3) pipe.content_cap [OF ok] by (simp add: ubytes_def)
    then have "pqueue p' \<noteq> []" by auto
    then show ?thesis using b wk by (simp add: final_def)
  qed
qed

lemma read_wakes:
  assumes i: "pipe_idle s pi p pr pt" "pqueue p \<noteq> []" "uframes_distinct s pt" "uwritable s pt (unat addr) (min n (length (pqueue p)))"
    and n: "0 < n" and w: "w < NPROC" "w \<noteq> pr" "p_state (procs s w) = SLEEPING" "p_chan (procs s w) = Some (ChPipeWrite pi)"
  shows "\<exists>s' p'. piperead pi addr (int n) s = Done (int (min n (length (pqueue p)))) s' \<and> p_state (procs s' w) = RUNNABLE \<and>
    heap s' pi = Some (Pipe p') \<and> length (pqueue p') < PIPESIZE"
proof -
  have cur: "cur s = Some pr" and ok: "pipe_ok p" using i(1) by (simp_all add: pipe_idle_def pipe_at_def)
  from piperead_nonempty [OF i] obtain s1 p' where
      r: "piperead pi addr (int n) s = Done (int (min n (length (pqueue p)))) (after_wakeup (ChPipeWrite pi) (s1\<lparr>held := {}\<rparr>))"
      "preads pi pt pr (s\<lparr>held := {PipeLock pi}\<rparr>) s1 (unat addr) (take n (pqueue p)) p'" "pqueue p' = drop n (pqueue p)"
    by blast
  obtain h where h: "s1 = s\<lparr>held := {PipeLock pi}, heap := h\<rparr>" "heap s1 pi = Some (Pipe p')"
    using r(2) unfolding preads_def pipe_at_def by auto
  have "p_state (procs (after_wakeup (ChPipeWrite pi) (s1\<lparr>held := {}\<rparr>)) w) = RUNNABLE"
    using w cur by (simp add: h(1) after_wakeup_def wake_procs_def wake_if_def)
  moreover have "length (pqueue p') < PIPESIZE" using r(3) pipe.content_cap [OF ok] i(2) n by (cases "pqueue p") auto
  ultimately show ?thesis using r(1) h(2) by simp
qed

text \<open>Closing an end wakes the processes that wait for it.\<close>

lemma close_wakes:
  assumes s: "held s = {}" "cur s \<noteq> Some w" "heap s pi = Some (Pipe p)" and other: "if wr then pi_readopen p else pi_writeopen p"
    and w: "w < NPROC" "p_state (procs s w) = SLEEPING" "p_chan (procs s w) = Some (if wr then ChPipeRead pi else ChPipeWrite pi)"
  shows "\<exists>s'. pipeclose pi wr s = Done () s' \<and> p_state (procs s' w) = RUNNABLE \<and>
    heap s' pi = Some (Pipe (if wr then p\<lparr>pi_writeopen := False\<rparr> else p\<lparr>pi_readopen := False\<rparr>))"
proof -
  let ?p = "if wr then p\<lparr>pi_writeopen := False\<rparr> else p\<lparr>pi_readopen := False\<rparr>" and ?ch = "if wr then ChPipeRead pi else ChPipeWrite pi"
  let ?s = "s\<lparr>held := {PipeLock pi}, heap := (heap s)(pi \<mapsto> Pipe ?p)\<rparr>"
  have wk: "wakeup ?ch ?s = Done () (after_wakeup ?ch ?s)" by (rule wakeup_eq) (simp add: no_proc_lock_def)
  have "pipeclose pi wr s = Done () ((after_wakeup ?ch ?s)\<lparr>held := {}\<rparr>)"
    using acquire_none [OF s(1), of "PipeLock pi"] s(3) other wk
    by (cases wr) (simp_all add: pipeclose_def upd_pipe_eq get_pipe_def after_wakeup_def release_def holding_def getk_def modk_def ret_def)
  moreover have "p_state (procs ((after_wakeup ?ch ?s)\<lparr>held := {}\<rparr>) w) = RUNNABLE"
    using w s(2) by (simp add: after_wakeup_def wake_procs_def wake_if_def)
  ultimately show ?thesis by (simp add: after_wakeup_def)
qed

text \<open>A reader of an empty pipe goes to sleep and leaves the pipe unlocked.\<close>

lemma piperead_sleeps:
  assumes i: "pipe_idle s pi p r pt" "\<not> p_killed (procs s r)" and e: "pqueue p = []" "pi_writeopen p"
  shows "piperead pi addr n s = Sleep (s\<lparr>held := {ProcLock r},
    procs := (procs s)(r := (procs s r)\<lparr>p_chan := Some (ChPipeRead pi), p_state := SLEEPING\<rparr>)\<rparr>)"
proof -
  have a: "cur s = Some r" "heap s pi = Some (Pipe p)" "held s = {}" using i(1) by (simp_all add: pipe_idle_def pipe_at_def)
  have e': "pi_nread p = pi_nwrite p" using e(1) pipe_empty by simp
  show ?thesis
    using a e' e(2) i(2) acquire_none [OF a(3), of "PipeLock pi"] sleep_eq [of "s\<lparr>held := {PipeLock pi}\<rparr>" r "PipeLock pi" "ChPipeRead pi"]
    by (simp add: piperead_def piperead_body_def this_proc_def myproc_def getk_def ret_def get_pipe_def killed_eq sq_Sleep)
qed

text \<open>The state in which a process runs again: it no longer waits, and it gave back the lock that the scheduler took.\<close>

definition woken :: "kstate \<Rightarrow> nat \<Rightarrow> kstate" where
  "woken s r = s\<lparr>held := {}, procs := (procs s)(r := (procs s r)\<lparr>p_chan := None\<rparr>)\<rparr>"

lemma sleep_resume_eq:
  "cur s = Some r \<Longrightarrow> held s = {ProcLock r} \<Longrightarrow> sleep_resume lk s = acquire lk (woken s r)"
  by (simp add: kdefs woken_def)

lemma piperead_resume_eq:
  "cur s = Some r \<Longrightarrow> held s = {ProcLock r} \<Longrightarrow> piperead_resume pi addr n s = piperead pi addr n (woken s r)"
  by (simp add: piperead_resume_def piperead_def sleep_resume_eq sq_def bnd_def)

lemma pipe_idle_woken:
  "pipe_idle (s\<lparr>held := {}\<rparr>) pi p r pt \<Longrightarrow> pipe_idle (woken s r) pi p r pt"
  by (simp add: pipe_idle_def pipe_at_def woken_def)

lemma woken_mem:
  "uframes_distinct (woken s r) pt = uframes_distinct s pt" "uwritable (woken s r) pt b k = uwritable s pt b k"
  "umem (woken s r) pt c = umem s pt c" "umapped (woken s r) pt b k = umapped s pt b k" "ubytes (woken s r) pt b k = ubytes s pt b k"
  by (simp_all add: woken_def uframes_distinct_def upage_def uwritable_def umem_def umapped_def ubytes_def cong: if_cong)

text \<open>A read at the end of the data returns 0 once the write end is closed.\<close>

lemma piperead_eof:
  assumes i: "pipe_idle s pi p r pt" and e: "pqueue p = []" "\<not> pi_writeopen p"
  shows "\<exists>s'. piperead pi addr (int n) s = Done 0 s'"
proof -
  have a: "heap s pi = Some (Pipe p)" "held s = {}" using i by (simp_all add: pipe_idle_def pipe_at_def)
  let ?s = "s\<lparr>held := {PipeLock pi}\<rparr>"
  have e': "pi_nread p = pi_nwrite p" using e(1) pipe_empty by simp
  have c: "piperead_copy n pi addr 0 ?s = Done 0 ?s" using a(1) e' by (cases n) (simp_all add: get_pipe_def ret_def)
  have wk: "wakeup (ChPipeWrite pi) ?s = Done () (after_wakeup (ChPipeWrite pi) ?s)" by (rule wakeup_eq) (simp add: no_proc_lock_def)
  have "release (PipeLock pi) (after_wakeup (ChPipeWrite pi) ?s) = Done () ((after_wakeup (ChPipeWrite pi) ?s)\<lparr>held := {}\<rparr>)"
    by (simp add: kdefs after_wakeup_def)
  then show ?thesis
    using acquire_none [OF a(2), of "PipeLock pi"] a(1) e(2) c wk by (simp add: piperead_def piperead_body_def get_pipe_def ret_def)
qed

text \<open>A writer that runs again.\<close>

lemma pipewrite_resumes:
  assumes c: "cur s = Some w" "held s = {ProcLock w}" and i: "pipe_idle (s\<lparr>held := {}\<rparr>) pi q w pt" and nk: "\<not> p_killed (procs s w)"
    and u: "umapped s pt (unat addr + j) k" and le: "length (pqueue q) + k \<le> PIPESIZE" and n: "j + k = n" "0 < k"
  shows "\<exists>s' q'. pipewrite_resume k pi addr j s = Done (if pi_readopen q then int n else - 1) s' \<and> heap s' pi = Some (Pipe q') \<and>
    pqueue q' = pqueue q @ (if pi_readopen q then ubytes s pt (unat addr + j) k else [])"
proof -
  let ?s = "woken s w"
  have r: "pipewrite_resume k pi addr j s = sq (acquire (PipeLock pi)) (pipewrite_loop k pi addr j) ?s"
    using c by (simp add: pipewrite_resume_def sleep_resume_eq sq_def bnd_def)
  have id: "pipe_idle ?s pi q w pt" by (rule pipe_idle_woken [OF i])
  show ?thesis
  proof (cases "pi_readopen q")
    case True
    have "\<not> p_killed (procs ?s w)" using nk by (simp add: woken_def)
    from pipewrite_from_room [OF id True this _ le, of addr j] u n(1) show ?thesis
      unfolding r by (auto simp: woken_mem True pipe_set_def)
  next
    case False
    have h: "held ?s = {}" "heap ?s pi = Some (Pipe q)" "cur ?s = Some w" using id by (simp_all add: pipe_idle_def pipe_at_def)
    obtain k' where k: "k = Suc k'" using n(2) by (cases k) auto
    have "sq (acquire (PipeLock pi)) (pipewrite_loop k pi addr j) ?s = Done (- 1) ?s"
      using h False acquire_none [OF h(1), of "PipeLock pi"]
      by (simp add: k this_proc_def myproc_def getk_def ret_def get_pipe_def release_def holding_def modk_def)
    then show ?thesis unfolding r using h(2) False by auto
  qed
qed

text \<open>C9. A reader does not sleep on a pipe for ever. A process \<open>r\<close>, not killed, that reads a pipe which is empty and open for
  writing goes to sleep and leaves the pipe unlocked. As long as its entry in the process table is what \<open>piperead\<close> left there:
  \<^item> any write of at least one mapped byte by another process that is not killed makes \<open>r\<close> runnable and the pipe not empty, also
    when the writer itself goes to sleep;
  \<^item> so does closing the write end, apart from the bytes.
  When the scheduler then runs \<open>r\<close> and the pipe has bytes or is closed, the call returns with as many bytes as it can.\<close>

theorem pipe_reader_wakes:
  assumes r: "pipe_idle s pi p r pt" "\<not> p_killed (procs s r)" "r < NPROC" and e: "pqueue p = []" "pi_writeopen p"
  shows "\<exists>s1. piperead pi addr (int m) s = Sleep s1 \<and> heap s1 = heap s \<and> PipeLock pi \<notin> held s1 \<and>
    (\<forall>s2 q w ptw a k. procs s2 r = procs s1 r \<and> w \<noteq> r \<and> pipe_idle s2 pi q w ptw \<and> \<not> p_killed (procs s2 w) \<and> pi_readopen q \<and>
      0 < k \<and> umapped s2 ptw (unat a) k \<longrightarrow>
      (\<exists>s3 q'. final (pipewrite pi a (int k) s2) = Some s3 \<and> p_state (procs s3 r) = RUNNABLE \<and> heap s3 pi = Some (Pipe q') \<and> pqueue q' \<noteq> [])) \<and>
    (\<forall>s2 q. procs s2 r = procs s1 r \<and> held s2 = {} \<and> cur s2 \<noteq> Some r \<and> heap s2 pi = Some (Pipe q) \<and> pi_readopen q \<longrightarrow>
      (\<exists>s3. pipeclose pi True s2 = Done () s3 \<and> p_state (procs s3 r) = RUNNABLE \<and> heap s3 pi = Some (Pipe (q\<lparr>pi_writeopen := False\<rparr>)))) \<and>
    (\<forall>s4 q. cur s4 = Some r \<and> held s4 = {ProcLock r} \<and> pipe_idle (s4\<lparr>held := {}\<rparr>) pi q r pt \<and> (pqueue q \<noteq> [] \<or> \<not> pi_writeopen q) \<and>
      uframes_distinct s4 pt \<and> uwritable s4 pt (unat addr) (min m (length (pqueue q))) \<longrightarrow>
      (\<exists>s5. piperead_resume pi addr (int m) s4 = Done (int (min m (length (pqueue q)))) s5))"
proof -
  let ?s1 = "s\<lparr>held := {ProcLock r}, procs := (procs s)(r := (procs s r)\<lparr>p_chan := Some (ChPipeRead pi), p_state := SLEEPING\<rparr>)\<rparr>"
  show ?thesis
  proof (rule exI [of _ ?s1], intro conjI allI impI; (elim conjE)?)
    show "piperead pi addr (int m) s = Sleep ?s1" by (rule piperead_sleeps [OF r(1,2) e])
    show "heap ?s1 = heap s" "PipeLock pi \<notin> held ?s1" by simp_all
    fix s2 :: kstate and q
    assume z: "procs s2 r = procs ?s1 r"
    then have z': "p_state (procs s2 r) = SLEEPING" "p_chan (procs s2 r) = Some (ChPipeRead pi)" by simp_all
    { fix w ptw and a :: u64 and k
      assume "w \<noteq> r" "pipe_idle s2 pi q w ptw" "\<not> p_killed (procs s2 w)" "pi_readopen q" "0 < k" "umapped s2 ptw (unat a) k"
      then show "\<exists>s3 q'. final (pipewrite pi a (int k) s2) = Some s3 \<and> p_state (procs s3 r) = RUNNABLE \<and> heap s3 pi = Some (Pipe q') \<and> pqueue q' \<noteq> []"
        using write_wakes [of s2 pi q w ptw a k r] z' r(3) by blast }
    { assume "held s2 = {}" "cur s2 \<noteq> Some r" "heap s2 pi = Some (Pipe q)" "pi_readopen q"
      then show "\<exists>s3. pipeclose pi True s2 = Done () s3 \<and> p_state (procs s3 r) = RUNNABLE \<and> heap s3 pi = Some (Pipe (q\<lparr>pi_writeopen := False\<rparr>))"
        using close_wakes [of s2 r pi q True] z' r(3) by simp }
  next
    fix s4 :: kstate and q
    assume c: "cur s4 = Some r" "held s4 = {ProcLock r}" and i: "pipe_idle (s4\<lparr>held := {}\<rparr>) pi q r pt" and ne: "pqueue q \<noteq> [] \<or> \<not> pi_writeopen q"
      and u: "uframes_distinct s4 pt" "uwritable s4 pt (unat addr) (min m (length (pqueue q)))"
    show "\<exists>s5. piperead_resume pi addr (int m) s4 = Done (int (min m (length (pqueue q)))) s5"
      unfolding piperead_resume_eq [OF c]
      using piperead_nonempty [OF pipe_idle_woken [OF i], of addr m] piperead_eof [OF pipe_idle_woken [OF i], of addr m] ne u
      by (cases "pqueue q = []") (auto simp: woken_mem)
  qed
qed

text \<open>C10. Nor does a writer. A process \<open>w\<close>, not killed, that writes more bytes than there is room for fills the pipe, goes to sleep and
  leaves the pipe unlocked. As long as its entry in the process table is what \<open>pipewrite\<close> left there, any read by another process
  that takes at least one byte makes \<open>w\<close> runnable and the pipe not full, and closing the read end makes it runnable. When the
  scheduler then runs \<open>w\<close> and there is room for the rest, the call appends the rest and returns the number of all bytes; when
  the read end is closed it returns -1.\<close>

theorem pipe_writer_wakes:
  assumes w: "pipe_idle s pi p w pt" "\<not> p_killed (procs s w)" "w < NPROC" "pi_readopen p" "umapped s pt (unat addr) n"
    and gt: "PIPESIZE < length (pqueue p) + n" and j: "j = PIPESIZE - length (pqueue p)"
  shows "\<exists>s1 p1. pipewrite pi addr (int n) s = Sleep s1 \<and> heap s1 pi = Some (Pipe p1) \<and> length (pqueue p1) = PIPESIZE \<and> PipeLock pi \<notin> held s1 \<and>
    (\<forall>s2 q r ptr a k. procs s2 w = procs s1 w \<and> r \<noteq> w \<and> pipe_idle s2 pi q r ptr \<and> pqueue q \<noteq> [] \<and> 0 < k \<and>
      uframes_distinct s2 ptr \<and> uwritable s2 ptr (unat a) (min k (length (pqueue q))) \<longrightarrow>
      (\<exists>s3 q'. piperead pi a (int k) s2 = Done (int (min k (length (pqueue q)))) s3 \<and> p_state (procs s3 w) = RUNNABLE \<and>
        heap s3 pi = Some (Pipe q') \<and> length (pqueue q') < PIPESIZE)) \<and>
    (\<forall>s2 q. procs s2 w = procs s1 w \<and> held s2 = {} \<and> cur s2 \<noteq> Some w \<and> heap s2 pi = Some (Pipe q) \<and> pi_writeopen q \<longrightarrow>
      (\<exists>s3. pipeclose pi False s2 = Done () s3 \<and> p_state (procs s3 w) = RUNNABLE \<and> heap s3 pi = Some (Pipe (q\<lparr>pi_readopen := False\<rparr>)))) \<and>
    (\<forall>s4 q. cur s4 = Some w \<and> held s4 = {ProcLock w} \<and> pipe_idle (s4\<lparr>held := {}\<rparr>) pi q w pt \<and> \<not> p_killed (procs s4 w) \<and>
      umapped s4 pt (unat addr + j) (n - j) \<and> length (pqueue q) + (n - j) \<le> PIPESIZE \<longrightarrow>
      (\<exists>s5 q'. pipewrite_resume (n - j) pi addr j s4 = Done (if pi_readopen q then int n else - 1) s5 \<and> heap s5 pi = Some (Pipe q') \<and>
        pqueue q' = pqueue q @ (if pi_readopen q then ubytes s4 pt (unat addr + j) (n - j) else [])))"
proof -
  from pipewrite_block [OF w(1,4,2,5) gt] obtain p1 s1 where
    b: "pipewrite pi addr (int n) s = Sleep s1" "heap s1 pi = Some (Pipe p1)"
      "pqueue p1 = pqueue p @ ubytes s pt (unat addr) (PIPESIZE - length (pqueue p))"
      "p_chan (procs s1 w) = Some (ChPipeWrite pi)" "p_state (procs s1 w) = SLEEPING" "held s1 = {ProcLock w}"
    by auto
  have ok: "pipe_ok p" using w(1) by (simp add: pipe_idle_def pipe_at_def)
  have full: "length (pqueue p1) = PIPESIZE" using b(3) pipe.content_cap [OF ok] by (simp add: ubytes_def)
  have jn: "j + (n - j) = n" "0 < n - j" using gt j pipe.content_cap [OF ok] by simp_all
  show ?thesis
  proof (rule exI [of _ s1], rule exI [of _ p1], intro conjI allI impI; (elim conjE)?)
    show "pipewrite pi addr (int n) s = Sleep s1" "heap s1 pi = Some (Pipe p1)" "length (pqueue p1) = PIPESIZE" "PipeLock pi \<notin> held s1"
      using b full by simp_all
    fix s2 :: kstate and q
    assume z: "procs s2 w = procs s1 w"
    then have z': "p_state (procs s2 w) = SLEEPING" "p_chan (procs s2 w) = Some (ChPipeWrite pi)" using b(4,5) by simp_all
    { fix r ptr and a :: u64 and k
      assume "r \<noteq> w" "pipe_idle s2 pi q r ptr" "pqueue q \<noteq> []" "0 < k" "uframes_distinct s2 ptr" "uwritable s2 ptr (unat a) (min k (length (pqueue q)))"
      then show "\<exists>s3 q'. piperead pi a (int k) s2 = Done (int (min k (length (pqueue q)))) s3 \<and> p_state (procs s3 w) = RUNNABLE \<and>
        heap s3 pi = Some (Pipe q') \<and> length (pqueue q') < PIPESIZE"
        using read_wakes [of s2 pi q r ptr a k w] z' w(3) by blast }
    { assume "held s2 = {}" "cur s2 \<noteq> Some w" "heap s2 pi = Some (Pipe q)" "pi_writeopen q"
      then show "\<exists>s3. pipeclose pi False s2 = Done () s3 \<and> p_state (procs s3 w) = RUNNABLE \<and> heap s3 pi = Some (Pipe (q\<lparr>pi_readopen := False\<rparr>))"
        using close_wakes [of s2 w pi q False] z' w(3) by simp }
  next
    fix s4 :: kstate and q
    assume c: "cur s4 = Some w" "held s4 = {ProcLock w}" and i: "pipe_idle (s4\<lparr>held := {}\<rparr>) pi q w pt" and nk: "\<not> p_killed (procs s4 w)"
      and u: "umapped s4 pt (unat addr + j) (n - j)" and le: "length (pqueue q) + (n - j) \<le> PIPESIZE"
    show "\<exists>s5 q'. pipewrite_resume (n - j) pi addr j s4 = Done (if pi_readopen q then int n else - 1) s5 \<and> heap s5 pi = Some (Pipe q') \<and>
        pqueue q' = pqueue q @ (if pi_readopen q then ubytes s4 pt (unat addr + j) (n - j) else [])"
      by (rule pipewrite_resumes [OF c i nk u le jn])
  qed
qed

text \<open>Two processes with the same address space and a pipe that is empty, or has one byte left to its capacity.\<close>

definition shared_state :: "nat \<Rightarrow> pipe \<Rightarrow> kstate" where
  "shared_state pr p = pipe_set (pipe_state\<lparr>cur := Some pr,
     procs := (procs pipe_state)(1 := (procs pipe_state 1)\<lparr>p_pagetable := pg_root, p_killed := False\<rparr>)\<rparr>) pipe_page p"

definition empty_pipe :: pipe where
  "empty_pipe = sample_pipe\<lparr>pi_nread := 1\<rparr>"

definition full_pipe :: pipe where
  "full_pipe = sample_pipe\<lparr>pi_nwrite := 511\<rparr>"

definition nearly_full_pipe :: pipe where
  "nearly_full_pipe = sample_pipe\<lparr>pi_nwrite := 510\<rparr>"

lemma shared_queues:
  "pqueue empty_pipe = []" "pipe_ok empty_pipe" "length (pqueue nearly_full_pipe) = 511" "pipe_ok nearly_full_pipe"
  "length (pqueue full_pipe) = 512" "pipe_ok full_pipe"
  "pi_writeopen empty_pipe" "pi_readopen empty_pipe" "pi_readopen nearly_full_pipe"
  using pipe_state_idle(1)
  by (simp_all add: pipe_empty empty_pipe_def full_pipe_def nearly_full_pipe_def sample_pipe_def length_pqueue pipe_ok_def pipe_idle_def pipe_at_def)

lemma shared_mem:
  "umem (shared_state pr p) pg_root c = umem pipe_state pg_root c" "uwritable (shared_state pr p) pg_root b k = uwritable pipe_state pg_root b k"
  "uframes_distinct (shared_state pr p) pg_root = uframes_distinct pipe_state pg_root"
proof -
  have "heap (shared_state pr p) = (heap pipe_state)(pipe_page \<mapsto> Pipe p)" by (simp add: shared_state_def pipe_set_def)
  moreover have "heap pipe_state pipe_page = Some (Pipe sample_pipe)" by (simp add: pipe_state_def)
  ultimately have o: "upage (shared_state pr p) r n pa f = upage pipe_state r n pa f" "pte (heap (shared_state pr p)) r n = pte (heap pipe_state) r n"
      "umem (shared_state pr p) r c = umem pipe_state r c" for r n pa f c
    using other_page [of pipe_state pipe_page "Pipe sample_pipe" "Pipe p" "shared_state pr p"] by simp_all
  show "umem (shared_state pr p) pg_root c = umem pipe_state pg_root c" by (rule o(3))
  show "uwritable (shared_state pr p) pg_root b k = uwritable pipe_state pg_root b k"
    "uframes_distinct (shared_state pr p) pg_root = uframes_distinct pipe_state pg_root"
    by (simp_all only: uwritable_def uframes_distinct_def o)
qed

lemma shared_idle:
  assumes "heap s = heap (shared_state pr p)" "held s = {}" "cur s = Some w" "p_pagetable (procs s w) = pg_root" "pipe_ok p"
  shows "pipe_idle s pipe_page p w pg_root"
proof -
  have "pt_wf (heap (shared_state pr p)) pg_root"
    using pipe_state_same(1)
    by (subst other_page(1) [of pipe_state pipe_page "Pipe sample_pipe" "Pipe p" "shared_state pr p"])
      (simp_all, simp_all add: shared_state_def pipe_set_def pipe_state_def)
  then show ?thesis using assms by (simp add: pipe_idle_def pipe_at_def) (simp add: shared_state_def pipe_set_def)
qed

lemma shared_procs:
  "p_pagetable (procs (shared_state pr p) 0) = pg_root" "p_pagetable (procs (shared_state pr p) 1) = pg_root"
  "\<not> p_killed (procs (shared_state pr p) 0)" "\<not> p_killed (procs (shared_state pr p) 1)"
  "held (shared_state pr p) = {}" "cur (shared_state pr p) = Some pr"
  using pipe_state_idle by (simp_all add: shared_state_def pipe_set_def pipe_idle_def pipe_at_def)

lemma shared_user:
  assumes "heap s = heap (shared_state pr p)"
  shows "umapped s pg_root 100 2" "uwritable s pg_root 100 1" "uframes_distinct s pg_root"
proof -
  have m: "umem s r c = umem (shared_state pr p) r c" and up: "upage s r n pa f = upage (shared_state pr p) r n pa f" for r n pa f c
    using assms by (simp_all add: umem_def upage_def cong: if_cong)
  have "umem pipe_state pg_root (100 + i) = Some 0" if "i < 2" for i
    using that unfolding pipe_state_same(2) umem_upage user_state_upage by auto
  then show "umapped s pg_root 100 2" by (simp add: umapped_def m shared_mem)
  have "uwritable pipe_state pg_root 100 1" "uframes_distinct pipe_state pg_root"
    using user_state_writable unfolding uwritable_def uframes_distinct_def pipe_state_same(2-4) by (auto dest: spec [where x = 0])
  moreover have "uwritable s pg_root 100 1 = uwritable (shared_state pr p) pg_root 100 1"
    "uframes_distinct s pg_root = uframes_distinct (shared_state pr p) pg_root"
    by (simp_all only: uwritable_def uframes_distinct_def m up assms)
  ultimately show "uwritable s pg_root 100 1" "uframes_distinct s pg_root" by (simp_all add: shared_mem)
qed

theorem pipe_reader_wakes_witness:
  "\<exists>s1 s3. piperead pipe_page 100 1 (shared_state 1 empty_pipe) = Sleep s1 \<and>
    final (pipewrite pipe_page 100 2 (s1\<lparr>cur := Some 0, held := {}\<rparr>)) = Some s3 \<and> p_state (procs s3 1) = RUNNABLE"
proof -
  let ?s = "shared_state 1 empty_pipe"
  have i: "pipe_idle ?s pipe_page empty_pipe 1 pg_root" by (rule shared_idle) (simp_all add: shared_procs shared_procs(2) [simplified] shared_queues)
  note e = shared_procs(4) [of 1 empty_pipe] shared_queues(1,7)
  obtain s1 where s1: "piperead pipe_page 100 (int 1) ?s = Sleep s1"
      and w: "\<forall>s2 q w ptw a k. procs s2 1 = procs s1 1 \<and> w \<noteq> 1 \<and> pipe_idle s2 pipe_page q w ptw \<and> \<not> p_killed (procs s2 w) \<and> pi_readopen q \<and>
        0 < k \<and> umapped s2 ptw (unat a) k \<longrightarrow> (\<exists>s3 q'. final (pipewrite pipe_page a (int k) s2) = Some s3 \<and> p_state (procs s3 1) = RUNNABLE \<and>
          heap s3 pipe_page = Some (Pipe q') \<and> pqueue q' \<noteq> [])"
    using pipe_reader_wakes [OF i e(1) _ e(2,3), of 100 1] by auto
  have eq: "s1 = ?s\<lparr>held := {ProcLock 1}, procs := (procs ?s)(1 := (procs ?s 1)\<lparr>p_chan := Some (ChPipeRead pipe_page), p_state := SLEEPING\<rparr>)\<rparr>"
    using s1 piperead_sleeps [OF i e, of 100 "int 1"] by simp
  let ?t = "s1\<lparr>cur := Some 0, held := {}\<rparr>"
  have t: "heap ?t = heap ?s" "p_pagetable (procs ?t 0) = pg_root" "\<not> p_killed (procs ?t 0)"
    by (simp_all add: eq shared_procs)
  have "pipe_idle ?t pipe_page empty_pipe 0 pg_root" by (rule shared_idle [OF t(1)]) (simp_all only: t shared_queues, simp_all)
  then have "\<exists>s3 q'. final (pipewrite pipe_page 100 (int 2) ?t) = Some s3 \<and> p_state (procs s3 1) = RUNNABLE \<and> heap s3 pipe_page = Some (Pipe q') \<and> pqueue q' \<noteq> []"
    using t shared_user(1) [OF t(1)] shared_queues(8) by (intro w [rule_format, where w = 0 and q = empty_pipe and ptw = pg_root]) simp
  then show ?thesis using s1 by auto
qed

theorem pipe_writer_wakes_witness:
  "\<exists>s1 s3. pipewrite pipe_page 100 2 (shared_state 1 nearly_full_pipe) = Sleep s1 \<and>
    piperead pipe_page 100 1 ((shared_state 0 full_pipe)\<lparr>procs := (procs (shared_state 0 full_pipe))(1 := procs s1 1)\<rparr>) = Done 1 s3 \<and>
    p_state (procs s3 1) = RUNNABLE"
proof -
  let ?s = "shared_state 1 nearly_full_pipe"
  have i: "pipe_idle ?s pipe_page nearly_full_pipe 1 pg_root" by (rule shared_idle) (simp_all add: shared_procs shared_procs(2) [simplified] shared_queues)
  obtain s1 where s1: "pipewrite pipe_page 100 (int 2) ?s = Sleep s1"
      and r: "\<forall>s2 q r ptr a k. procs s2 1 = procs s1 1 \<and> r \<noteq> 1 \<and> pipe_idle s2 pipe_page q r ptr \<and> pqueue q \<noteq> [] \<and> 0 < k \<and>
        uframes_distinct s2 ptr \<and> uwritable s2 ptr (unat a) (min k (length (pqueue q))) \<longrightarrow>
        (\<exists>s3 q'. piperead pipe_page a (int k) s2 = Done (int (min k (length (pqueue q)))) s3 \<and> p_state (procs s3 1) = RUNNABLE \<and>
          heap s3 pipe_page = Some (Pipe q') \<and> length (pqueue q') < PIPESIZE)"
    using pipe_writer_wakes [OF i shared_procs(4) _ shared_queues(9), of 100 2 1] shared_user(1) [OF refl] shared_queues(3) by auto
  let ?t = "(shared_state 0 full_pipe)\<lparr>procs := (procs (shared_state 0 full_pipe))(1 := procs s1 1)\<rparr>"
  have t: "heap ?t = heap (shared_state 0 full_pipe)" by simp
  have "pipe_idle ?t pipe_page full_pipe 0 pg_root" by (rule shared_idle [OF t]) (simp_all add: shared_procs shared_queues)
  moreover have "pqueue full_pipe \<noteq> []" using shared_queues(5) by auto
  ultimately have "\<exists>s3 q'. piperead pipe_page 100 (int 1) ?t = Done (int (min 1 (length (pqueue full_pipe)))) s3 \<and> p_state (procs s3 1) = RUNNABLE \<and>
      heap s3 pipe_page = Some (Pipe q') \<and> length (pqueue q') < PIPESIZE"
    using shared_user(2,3) [OF t] shared_queues(5) by (intro r [rule_format, where r = 0 and ptr = pg_root]) simp
  then show ?thesis using s1 shared_queues(5) by auto
qed

end
