(* ===== verification/Tx.thy ===== *)
theory Tx
  imports Log
begin

text \<open>
  Transactions, \<open>tx.c\<close>: the shadow copies that a process works on while its transaction is active.

  A workset entry names its object by \<open>hdr\<close>; pointers to objects are compared by their address
  \<open>l_addr\<close>. \<open>get_data_ptr\<close> and \<open>get_xobj\<close> are the fields \<open>data\<close> and \<open>xobj\<close> of the object that the
  \<open>tx_ops\<close> of its type select. \<open>txshadow\<close> returns the address of the shadow copy, 0 when it has to abort.

  The commit and abort functions of the two object types need the inode layer and are in theory \<open>Inode\<close>.
\<close>

section \<open>Operations\<close>

definition empty_entry :: workset_entry where
  "empty_entry = \<lparr>w_header = HNull, w_shadow_data = 0, w_read_only = False, w_newly_allocated = False, w_ops = NoOps\<rparr>"

definition zero_tx :: transaction where
  "zero_tx = \<lparr>t_status = TX_INACTIVE, t_retry_count = 0, t_start_time = 0, t_saved_tf = 0, t_kjmp_valid = False,
     t_workset = replicate MAX_WORKSET empty_entry, t_workset_size = 0,
     t_undo = replicate MAX_UNDO (UndoB, HNull), t_undo_size = 0\<rparr>"

definition txalloc :: "u64 K" where
  [kdefs]: "txalloc =
    bnd kalloc (\<lambda>tx.
    if tx = 0 then ret 0 else
    sq (put_obj tx (Tx zero_tx))
    (ret tx))"

definition txfree :: "u64 \<Rightarrow> unit K" where
  [kdefs]: "txfree tx = kfree tx"

text \<open>The binary search, on the addresses of the entries' objects.\<close>

function find_loop :: "(hdr \<Rightarrow> u64) \<Rightarrow> workset_entry list \<Rightarrow> u64 \<Rightarrow> int \<Rightarrow> int \<Rightarrow> nat option" where
  "find_loop addr ws header left right =
    (if left \<le> right then
       let mid = left + (right - left) div 2; key = addr (w_header (ws ! nat mid)) in
       if key = header then Some (nat mid)
       else if key < header then find_loop addr ws header (mid + 1) right
       else find_loop addr ws header left (mid - 1)
     else None)"
  by auto

termination by (relation "measure (\<lambda>(addr, ws, header, left, right). nat (right + 1 - left))") auto

declare find_loop.simps [simp del]

definition find_workset_entry :: "layout \<Rightarrow> transaction \<Rightarrow> hdr \<Rightarrow> nat option" where
  "find_workset_entry l tx header =
     find_loop (l_addr l) (t_workset tx) (l_addr l header) 0 (int (t_workset_size tx) - 1)"

definition get_data_ptr :: "hdr \<Rightarrow> u64 K" where
  [kdefs]: "get_data_ptr h = (case h of
      HNull \<Rightarrow> fault
    | HInode i \<Rightarrow> getk (\<lambda>s. i_data (itable s i))
    | HBuf b \<Rightarrow> getk (\<lambda>s. b_data (bufs s b)))"

definition set_data_ptr :: "hdr \<Rightarrow> u64 \<Rightarrow> unit K" where
  [kdefs]: "set_data_ptr h pa = (case h of
      HNull \<Rightarrow> fault
    | HInode i \<Rightarrow> upd_inode i (i_data_update (\<lambda>_. pa))
    | HBuf b \<Rightarrow> upd_buf b (b_data_update (\<lambda>_. pa)))"

text \<open>\<open>memmove\<close> of the object's payload into the shadow page.\<close>

definition copy_payload :: "u64 \<Rightarrow> u64 \<Rightarrow> unit K" where
  [kdefs]: "copy_payload dst src = (\<lambda>s. case heap s src of
      Some (InodeData d) \<Rightarrow> put_obj dst (InodeData d) s
    | Some (BufData bs) \<Rightarrow> put_obj dst (BufData bs) s
    | _ \<Rightarrow> Fault)"

text \<open>The insertion step of the sort: entry \<open>i\<close> moves down past the entries with larger addresses.\<close>

fun sift_down :: "(hdr \<Rightarrow> u64) \<Rightarrow> nat \<Rightarrow> workset_entry list \<Rightarrow> workset_entry list" where
  "sift_down addr 0 ws = ws"
| "sift_down addr (Suc i) ws =
    (if addr (w_header (ws ! i)) > addr (w_header (ws ! Suc i))
     then sift_down addr i (ws[Suc i := ws ! i, i := ws ! Suc i])
     else ws)"

definition my_tx :: "u64 K" where
  [kdefs]: "my_tx =
    bnd this_proc (\<lambda>p.
    getk (\<lambda>s. p_tx (procs s p)))"

definition txshadow :: "hdr \<Rightarrow> bool \<Rightarrow> tx_ops \<Rightarrow> u64 K" where
  "txshadow header read_only ops =
    bnd my_tx (\<lambda>tx.
    bnd (get_tx tx) (\<lambda>t.
    bnd (getk lay) (\<lambda>l.
    case find_workset_entry l t header of
        Some i \<Rightarrow> ret (w_shadow_data (t_workset t ! i))
      | None \<Rightarrow> if t_workset_size t \<ge> MAX_WORKSET then (sq (printk (''DEBUG: txshadow -- workset full'' @ NL) [])
          (ret 0)) else
        sq (acquire (XobjLock header))
        (bnd (get_xobj header) (\<lambda>x.
        if xo_writer x \<noteq> 0 \<and> xo_writer x \<noteq> tx then
          (sq (printk (''DEBUG: txshadow -- aborting due to detection of another active tx'' @ NL) [])
          (sq (release (XobjLock header))
          (ret 0))) else
        sq (upd_xobj header (xo_writer_update (\<lambda>_. tx)))
        (sq (release (XobjLock header))
        (let e = t_workset_size t in
        sq (upd_tx tx (\<lambda>t. t\<lparr>t_workset_size := Suc e,
          t_workset := (t_workset t)[e := (t_workset t ! e)\<lparr>w_header := header, w_read_only := read_only\<rparr>]\<rparr>))
        (bnd kalloc (\<lambda>pg.
        sq (upd_tx tx (\<lambda>t. t\<lparr>t_workset := (t_workset t)[e := (t_workset t ! e)\<lparr>w_shadow_data := pg\<rparr>]\<rparr>))
        (if pg = 0 then panic ''txshadow: out of memory'' else
        sq (upd_tx tx (\<lambda>t. t\<lparr>t_workset := (t_workset t)[e := (t_workset t ! e)\<lparr>w_ops := ops\<rparr>]\<rparr>))
        (bnd (get_data_ptr header) (\<lambda>src.
        sq (copy_payload pg src)
        (sq (upd_tx tx (\<lambda>t. t\<lparr>t_workset := sift_down (l_addr l) e (t_workset t)\<rparr>))
        (ret pg))))))))))))))"

definition txdata :: "hdr \<Rightarrow> bool \<Rightarrow> tx_ops \<Rightarrow> u64 K" where
  "txdata header read_only ops =
    bnd tx_active (\<lambda>a.
    if a then txshadow header read_only ops else get_data_ptr header)"

definition bdata :: "nat \<Rightarrow> u64 K" where
  "bdata b =
    bnd myproc (\<lambda>p.
    bnd (case p of None \<Rightarrow> ret False | Some _ \<Rightarrow> tx_active) (\<lambda>a.
    if a then bnd my_tx (\<lambda>tx.
      bnd (get_tx tx) (\<lambda>t.
      bnd (txshadow (HBuf b) False BufferOps) (\<lambda>d.
      if d = 0 then panic ''bdata: txshadow failed'' else
      bnd (get_tx tx) (\<lambda>t'.
      sq (whenk (t_workset_size t' > t_workset_size t) (sq (bpin b)
        (bnd (getk lay) (\<lambda>l.
        bnd (get_tx tx) (\<lambda>t''.
        case find_workset_entry l t'' (HBuf b) of None \<Rightarrow> ret () | Some i \<Rightarrow> bnd (get_buf b) (\<lambda>x.
          upd_tx tx (\<lambda>t. t\<lparr>t_workset :=
            (t_workset t)[i := (t_workset t ! i)\<lparr>w_newly_allocated := (b_refcnt x = 1)\<rparr>]\<rparr>)))))))
      (ret d)))))
      else bnd (get_buf b) (\<lambda>x.
        ret (b_data x))))"

section \<open>The workset\<close>

text \<open>The first \<open>n\<close> entries are sorted by the addresses of their objects, without duplicates.\<close>

definition ws_key :: "(hdr \<Rightarrow> u64) \<Rightarrow> workset_entry \<Rightarrow> u64" where
  "ws_key addr e = addr (w_header e)"

definition ws_sorted :: "(hdr \<Rightarrow> u64) \<Rightarrow> workset_entry list \<Rightarrow> bool" where
  "ws_sorted addr es \<longleftrightarrow> sorted_wrt (\<lambda>a b. ws_key addr a < ws_key addr b) es"

definition tx_wf :: "(hdr \<Rightarrow> u64) \<Rightarrow> transaction \<Rightarrow> bool" where
  "tx_wf addr t \<longleftrightarrow> length (t_workset t) = MAX_WORKSET \<and> t_workset_size t \<le> MAX_WORKSET \<and>
     ws_sorted addr (take (t_workset_size t) (t_workset t))"

lemma ws_sorted_less: "ws_sorted addr es \<Longrightarrow> i < j \<Longrightarrow> j < length es \<Longrightarrow> ws_key addr (es ! i) < ws_key addr (es ! j)"
  by (auto simp: ws_sorted_def sorted_wrt_iff_nth_less)

lemma ws_sorted_le: "ws_sorted addr es \<Longrightarrow> i \<le> j \<Longrightarrow> j < length es \<Longrightarrow> ws_key addr (es ! i) \<le> ws_key addr (es ! j)"
  by (cases "i = j") (auto simp: less_imp_le ws_sorted_less)

text \<open>\<open>found_in P a b r\<close>: \<open>r\<close> is an index between \<open>a\<close> and \<open>b\<close> with the property \<open>P\<close>, or there is none.\<close>

definition found_in :: "(nat \<Rightarrow> bool) \<Rightarrow> int \<Rightarrow> int \<Rightarrow> nat option \<Rightarrow> bool" where
  "found_in P a b r \<longleftrightarrow> (case r of
      Some i \<Rightarrow> a \<le> int i \<and> int i \<le> b \<and> P i
    | None \<Rightarrow> \<forall>i. a \<le> int i \<and> int i \<le> b \<longrightarrow> \<not> P i)"

lemma found_extend:
  "found_in P a b r \<Longrightarrow> c \<le> a \<Longrightarrow> b \<le> d \<Longrightarrow>
   (\<And>i. c \<le> int i \<Longrightarrow> int i \<le> d \<Longrightarrow> int i < a \<or> b < int i \<Longrightarrow> \<not> P i) \<Longrightarrow> found_in P c d r"
  unfolding found_in_def by (cases r) (simp, metis linorder_not_le, simp)

lemma find_loop_ok:
  "ws_sorted addr (take n ws) \<Longrightarrow> n \<le> length ws \<Longrightarrow> 0 \<le> left \<Longrightarrow> right < int n \<Longrightarrow>
   found_in (\<lambda>i. ws_key addr (ws ! i) = h) left right (find_loop addr ws h left right)"
proof (induction addr ws h left right rule: find_loop.induct)
  case (1 addr ws h left right)
  let ?P = "\<lambda>i. ws_key addr (ws ! i) = h"
  show ?case
  proof (cases "left \<le> right")
    case False
    then show ?thesis by (auto simp: find_loop.simps [of addr ws h left right] found_in_def)
  next
    case True
    define mid where "mid = left + (right - left) div 2"
    have mid: "left \<le> mid" "mid \<le> right" "0 \<le> mid" using True "1.prems" by (auto simp: mid_def)
    have below: "ws_key addr (ws ! i) \<le> ws_key addr (ws ! j)" if "i \<le> j" "j < n" for i j
      using ws_sorted_le [OF "1.prems"(1), of i j] that "1.prems"(2) by simp
    have f: "find_loop addr ws h left right =
      (if ws_key addr (ws ! nat mid) = h then Some (nat mid)
       else if ws_key addr (ws ! nat mid) < h then find_loop addr ws h (mid + 1) right
       else find_loop addr ws h left (mid - 1))"
      using True by (subst find_loop.simps) (simp add: mid_def ws_key_def Let_def)
    consider (eq) "ws_key addr (ws ! nat mid) = h" | (lt) "ws_key addr (ws ! nat mid) < h" | (gt) "h < ws_key addr (ws ! nat mid)"
      by fastforce
    then show ?thesis
    proof cases
      case eq
      then show ?thesis using mid by (simp add: f found_in_def)
    next
      case lt
      have "found_in ?P (mid + 1) right (find_loop addr ws h (mid + 1) right)"
        using "1.IH"(1) [OF True mid_def refl] lt "1.prems" mid by (simp add: ws_key_def)
      then have "found_in ?P left right (find_loop addr ws h (mid + 1) right)"
      proof (rule found_extend)
        show "\<not> ?P i" if "int i \<le> right" "int i < mid + 1 \<or> right < int i" for i
          using below [of i "nat mid"] that mid "1.prems"(4) lt by (auto simp: nat_less_iff le_nat_iff)
      qed (use mid in auto)
      then show ?thesis using lt by (auto simp: f)
    next
      case gt
      have "found_in ?P left (mid - 1) (find_loop addr ws h left (mid - 1))"
        using "1.IH"(2) [OF True mid_def refl] gt "1.prems" mid by (simp add: ws_key_def)
      then have "found_in ?P left right (find_loop addr ws h left (mid - 1))"
      proof (rule found_extend)
        show "\<not> ?P i" if "left \<le> int i" "int i \<le> right" "int i < left \<or> mid - 1 < int i" for i
          using below [of "nat mid" i] that mid "1.prems"(4) gt by (auto simp: nat_le_iff)
      qed (use mid in auto)
      then show ?thesis using gt by (auto simp: f)
    qed
  qed
qed

text \<open>C13. The binary search of \<open>find_workset_entry\<close> is right: in a workset that is sorted by address it returns an
  entry for the object if and only if there is one, and then the only one.\<close>

theorem find_workset_entry_correct:
  assumes "tx_wf (l_addr l) t"
  shows "(case find_workset_entry l t h of
      Some i \<Rightarrow> i < t_workset_size t \<and> l_addr l (w_header (t_workset t ! i)) = l_addr l h \<and>
        (\<forall>j < t_workset_size t. l_addr l (w_header (t_workset t ! j)) = l_addr l h \<longrightarrow> j = i)
    | None \<Rightarrow> \<forall>i < t_workset_size t. l_addr l (w_header (t_workset t ! i)) \<noteq> l_addr l h)"
proof -
  let ?n = "t_workset_size t" and ?ws = "t_workset t"
  have wf: "ws_sorted (l_addr l) (take ?n ?ws)" "?n \<le> length ?ws" using assms by (auto simp: tx_wf_def)
  have uniq: "j = i" if "i < ?n" "j < ?n" "ws_key (l_addr l) (?ws ! i) = ws_key (l_addr l) (?ws ! j)" for i j
    using ws_sorted_less [OF wf(1), of i j] ws_sorted_less [OF wf(1), of j i] that wf(2)
    by (cases i j rule: linorder_cases) auto
  show ?thesis
    using find_loop_ok [OF wf, of 0 "int ?n - 1" "l_addr l h"] uniq
    by (auto simp: find_workset_entry_def ws_key_def found_in_def split: option.splits)
qed

lemma sift_down_ok:
  "ws_sorted addr xs \<Longrightarrow> ws_key addr x \<notin> ws_key addr ` set xs \<Longrightarrow>
   \<exists>zs. sift_down addr (length xs) (xs @ x # ys) = zs @ ys \<and> ws_sorted addr zs \<and>
     set zs = insert x (set xs) \<and> length zs = Suc (length xs)"
proof (induction xs arbitrary: ys rule: rev_induct)
  case Nil
  then show ?case by (intro exI [of _ "[x]"]) (auto simp: ws_sorted_def)
next
  case (snoc z xs)
  have so: "ws_sorted addr xs" "\<forall>a \<in> set xs. ws_key addr a < ws_key addr z"
    using snoc.prems(1) by (auto simp: ws_sorted_def sorted_wrt_append)
  have at: "((xs @ [z]) @ x # ys) ! length xs = z" "((xs @ [z]) @ x # ys) ! Suc (length xs) = x"
    by (simp_all add: nth_append)
  show ?case
  proof (cases "ws_key addr z > ws_key addr x")
    case True
    have "((xs @ [z]) @ x # ys)[Suc (length xs) := z, length xs := x] = xs @ x # z # ys"
      by (simp add: list_update_append)
    moreover obtain zs where zs: "sift_down addr (length xs) (xs @ x # z # ys) = zs @ z # ys"
        "ws_sorted addr zs" "set zs = insert x (set xs)" "length zs = Suc (length xs)"
      using snoc.IH [of "z # ys"] so snoc.prems(2) by auto
    ultimately have "sift_down addr (length (xs @ [z])) ((xs @ [z]) @ x # ys) = (zs @ [z]) @ ys"
      using True at by (simp add: ws_key_def)
    moreover have "ws_sorted addr (zs @ [z])"
      using zs so True by (auto simp: ws_sorted_def sorted_wrt_append)
    ultimately show ?thesis using zs by (intro exI [of _ "zs @ [z]"]) auto
  next
    case False
    have ne: "ws_key addr z < ws_key addr x" using False snoc.prems(2) by auto
    have "sift_down addr (length (xs @ [z])) ((xs @ [z]) @ x # ys) = (xs @ [z, x]) @ ys"
      using False at by (simp add: ws_key_def)
    moreover have "ws_sorted addr (xs @ [z, x])"
      using snoc.prems(1) so ne by (fastforce simp: ws_sorted_def sorted_wrt_append)
    ultimately show ?thesis by (intro exI [of _ "xs @ [z, x]"]) auto
  qed
qed

section \<open>Creating a shadow copy\<close>

definition data_ptr :: "kstate \<Rightarrow> hdr \<Rightarrow> u64" where
  "data_ptr s h = (case h of HNull \<Rightarrow> 0 | HInode i \<Rightarrow> i_data (itable s i) | HBuf b \<Rightarrow> b_data (bufs s b))"

definition xobj_of :: "kstate \<Rightarrow> hdr \<Rightarrow> tx_data" where
  "xobj_of s h = (case h of HNull \<Rightarrow> no_tx_data | HInode i \<Rightarrow> i_xobj (itable s i) | HBuf b \<Rightarrow> b_xobj (bufs s b))"

definition payload :: "kobj \<Rightarrow> bool" where
  "payload ob \<longleftrightarrow> (\<exists>d. ob = InodeData d) \<or> (\<exists>bs. ob = BufData bs)"

text \<open>Process \<open>p\<close> runs the transaction \<open>t\<close> at \<open>tx\<close>, the object \<open>h\<close> has the payload \<open>ob\<close>, and \<open>xs\<close> are the free pages.\<close>

definition tx_ready :: "kstate \<Rightarrow> nat \<Rightarrow> u64 \<Rightarrow> transaction \<Rightarrow> hdr \<Rightarrow> kobj \<Rightarrow> u64 list \<Rightarrow> bool" where
  "tx_ready s p tx t h ob xs \<longleftrightarrow> cur s = Some p \<and> p_tx (procs s p) = tx \<and> heap s tx = Some (Tx t) \<and>
     tx_wf (l_addr (lay s)) t \<and> h \<noteq> HNull \<and> heap s (data_ptr s h) = Some ob \<and> payload ob \<and> kmem_wf s xs \<and> held s = {}"

definition has_entry :: "layout \<Rightarrow> transaction \<Rightarrow> hdr \<Rightarrow> bool" where
  "has_entry l t h \<longleftrightarrow> find_workset_entry l t h \<noteq> None"

lemma txshadow_found:
  assumes "tx_ready s p tx t h ob xs" "find_workset_entry (lay s) t h = Some i"
  shows "txshadow h ro ops s = Done (w_shadow_data (t_workset t ! i)) s"
  using assms by (simp add: txshadow_def tx_ready_def kdefs)

lemma txshadow_full:
  assumes "tx_ready s p tx t h ob xs" "\<not> has_entry (lay s) t h" "t_workset_size t = MAX_WORKSET"
  shows "\<exists>c. txshadow h ro ops s = Done 0 (s\<lparr>conout := c\<rparr>)"
  using assms by (auto simp: txshadow_def tx_ready_def kdefs has_entry_def)

lemma txshadow_conflict:
  assumes "tx_ready s p tx t h ob xs" "\<not> has_entry (lay s) t h" "t_workset_size t < MAX_WORKSET"
    and "xo_writer (xobj_of s h) \<notin> {0, tx}"
  shows "\<exists>c. txshadow h ro ops s = Done 0 (s\<lparr>conout := c\<rparr>)"
  using assms by (cases h)
    (auto simp: txshadow_def tx_ready_def kdefs has_entry_def xobj_of_def intro!: exI kstate.equality)

definition own_obj :: "hdr \<Rightarrow> u64 \<Rightarrow> kstate \<Rightarrow> kstate" where
  "own_obj h tx s = (case h of
      HNull \<Rightarrow> s
    | HInode i \<Rightarrow> s\<lparr>itable := (itable s)(i := i_xobj_update (xo_writer_update (\<lambda>_. tx)) (itable s i))\<rparr>
    | HBuf b \<Rightarrow> s\<lparr>bufs := (bufs s)(b := b_xobj_update (xo_writer_update (\<lambda>_. tx)) (bufs s b))\<rparr>)"

lemma own_obj_simps [simp]:
  "heap (own_obj h tx s) = heap s" "held (own_obj h tx s) = held s" "freelist (own_obj h tx s) = freelist s"
  "lay (own_obj h tx s) = lay s" "cur (own_obj h tx s) = cur s" "procs (own_obj h tx s) = procs s"
  "data_ptr (own_obj h tx s) h' = data_ptr s h'"
  by (cases h; cases h'; simp add: own_obj_def data_ptr_def)+

lemma upd_tx_eq: "heap s pa = Some (Tx t) \<Longrightarrow> upd_tx pa f s = Done () (s\<lparr>heap := (heap s)(pa \<mapsto> Tx (f t))\<rparr>)"
  by (simp add: kdefs)

definition new_entry :: "transaction \<Rightarrow> hdr \<Rightarrow> bool \<Rightarrow> tx_ops \<Rightarrow> u64 \<Rightarrow> workset_entry" where
  "new_entry t h ro ops x = (t_workset t ! t_workset_size t)\<lparr>w_header := h, w_read_only := ro, w_shadow_data := x, w_ops := ops\<rparr>"

definition add_entry :: "(hdr \<Rightarrow> u64) \<Rightarrow> transaction \<Rightarrow> hdr \<Rightarrow> bool \<Rightarrow> tx_ops \<Rightarrow> u64 \<Rightarrow> transaction" where
  "add_entry addr t h ro ops x = t\<lparr>t_workset_size := Suc (t_workset_size t),
     t_workset := sift_down addr (t_workset_size t) ((t_workset t)[t_workset_size t := new_entry t h ro ops x])\<rparr>"

definition shadow_st :: "kstate \<Rightarrow> u64 \<Rightarrow> transaction \<Rightarrow> hdr \<Rightarrow> kobj \<Rightarrow> u64 \<Rightarrow> u64 \<Rightarrow> kstate" where
  "shadow_st s tx t h ob x nx = (own_obj h tx s)\<lparr>freelist := nx, heap := (heap s)(x \<mapsto> ob, tx \<mapsto> Tx t)\<rparr>"

text \<open>The second half of \<open>txshadow\<close>, from the allocation on.\<close>

definition fill_entry :: "hdr \<Rightarrow> tx_ops \<Rightarrow> u64 \<Rightarrow> layout \<Rightarrow> nat \<Rightarrow> u64 K" where
  "fill_entry h ops tx l e = bnd kalloc (\<lambda>pg.
      sq (upd_tx tx (\<lambda>t. t\<lparr>t_workset := (t_workset t)[e := (t_workset t ! e)\<lparr>w_shadow_data := pg\<rparr>]\<rparr>))
      (if pg = 0 then panic ''txshadow: out of memory'' else
      sq (upd_tx tx (\<lambda>t. t\<lparr>t_workset := (t_workset t)[e := (t_workset t ! e)\<lparr>w_ops := ops\<rparr>]\<rparr>))
      (bnd (get_data_ptr h) (\<lambda>src.
      sq (copy_payload pg src)
      (sq (upd_tx tx (\<lambda>t. t\<lparr>t_workset := sift_down (l_addr l) e (t_workset t)\<rparr>))
      (ret pg))))))"

lemma txshadow_register:
  assumes "cur s = Some p" "p_tx (procs s p) = tx" "heap s tx = Some (Tx t)" "h \<noteq> HNull" "held s = {}"
    and "\<not> has_entry (lay s) t h" "t_workset_size t < MAX_WORKSET" "xo_writer (xobj_of s h) \<in> {0, tx}"
  shows "txshadow h ro ops s = fill_entry h ops tx (lay s) (t_workset_size t)
    ((own_obj h tx s)\<lparr>heap := (heap s)(tx \<mapsto> Tx (t\<lparr>t_workset_size := Suc (t_workset_size t), t_workset :=
      (t_workset t)[t_workset_size t := (t_workset t ! t_workset_size t)\<lparr>w_header := h, w_read_only := ro\<rparr>]\<rparr>))\<rparr>)"
proof -
  let ?s1 = "s\<lparr>held := {XobjLock h}\<rparr>"
  have f: "find_workset_entry (lay s) t h = None" using assms(6) by (simp add: has_entry_def)
  have a: "acquire (XobjLock h) s = Done () ?s1" using assms(5) by (simp add: kdefs)
  have x: "get_xobj h ?s1 = Done (xobj_of s h) ?s1"
    using assms(4) by (cases h) (simp_all add: kdefs xobj_of_def)
  have u: "upd_xobj h (xo_writer_update (\<lambda>_. tx)) ?s1 = Done () (own_obj h tx ?s1)"
    using assms(4) by (cases h) (simp_all add: kdefs own_obj_def)
  have r: "release (XobjLock h) (own_obj h tx ?s1) = Done () (own_obj h tx s)"
    using assms(4,5) by (cases h) (auto simp: kdefs own_obj_def intro!: kstate.equality)
  have m: "my_tx s = Done tx s" "get_tx tx s = Done t s" using assms(1-3) by (simp_all add: kdefs)
  have w: "(xo_writer (xobj_of s h) \<noteq> 0 \<and> xo_writer (xobj_of s h) \<noteq> tx) = False" using assms(8) by auto
  show ?thesis
    using assms(3,7) f a x u r m by (simp add: w txshadow_def fill_entry_def Let_def upd_tx_eq getk_def)
qed

lemma fill_entry_ok:
  assumes "kmem_wf s (x # xs)" "held s = {}" "heap s tx = Some (Tx t)" "e < length (t_workset t)"
    and "h \<noteq> HNull" "heap s (data_ptr s h) = Some ob" "payload ob"
  shows "\<exists>nx. fill_entry h ops tx l e s = Done x (s\<lparr>freelist := nx, heap := (heap s)(x \<mapsto> ob, tx \<mapsto> Tx (t\<lparr>t_workset :=
      sift_down (l_addr l) e ((t_workset t)[e := (t_workset t ! e)\<lparr>w_shadow_data := x, w_ops := ops\<rparr>])\<rparr>))\<rparr>) \<and>
      kmem_wf (s\<lparr>freelist := nx, heap := (heap s)(x \<mapsto> ob)\<rparr>) xs"
proof -
  obtain nx where k: "kalloc s = Done x (after_kalloc s x nx)" "kmem_wf (after_kalloc s x nx) xs"
    using kalloc_some [of s x xs] assms(1,2) by auto
  have x: "x \<noteq> 0" "x \<notin> set xs" using assms(1) by (auto simp: kmem_wf_def)
  have tx: "tx \<noteq> x" using kmem_wf_used [OF assms(1,3)] by auto
  have pa: "data_ptr s h \<noteq> x" "data_ptr s h \<noteq> tx"
    using kmem_wf_used [OF assms(1) assms(6)] assms(3,6,7) by (auto simp: payload_def)
  have d: "get_data_ptr h s' = Done (data_ptr s' h) s'" for s'
    using assms(5) by (cases h) (simp_all add: kdefs data_ptr_def)
  have dp: "data_ptr (after_kalloc s x nx\<lparr>heap := g\<rparr>) h = data_ptr s h" for g
    by (cases h) (simp_all add: data_ptr_def after_kalloc_def)
  have "kmem_wf (s\<lparr>freelist := nx, heap := (heap s)(x \<mapsto> ob)\<rparr>) xs"
    using x by (intro kmem_wf_cong [OF k(2)]) (auto simp: after_kalloc_def)
  moreover have "fill_entry h ops tx l e s = Done x (s\<lparr>freelist := nx, heap := (heap s)(x \<mapsto> ob, tx \<mapsto> Tx (t\<lparr>t_workset :=
      sift_down (l_addr l) e ((t_workset t)[e := (t_workset t ! e)\<lparr>w_shadow_data := x, w_ops := ops\<rparr>])\<rparr>))\<rparr>)"
  proof -
    let ?s1 = "after_kalloc s x nx"
    let ?t1 = "t\<lparr>t_workset := (t_workset t)[e := (t_workset t ! e)\<lparr>w_shadow_data := x\<rparr>]\<rparr>"
    let ?t2 = "t\<lparr>t_workset := (t_workset t)[e := (t_workset t ! e)\<lparr>w_shadow_data := x, w_ops := ops\<rparr>]\<rparr>"
    let ?s2 = "?s1\<lparr>heap := (heap ?s1)(tx \<mapsto> Tx ?t2)\<rparr>"
    let ?s3 = "?s2\<lparr>heap := (heap ?s2)(x \<mapsto> ob)\<rparr>"
    have c: "copy_payload x (data_ptr s h) ?s2 = Done () ?s3"
      using assms(6,7) pa tx by (auto simp: copy_payload_def payload_def put_obj_def)
    have "fill_entry h ops tx l e s = Done x (?s3\<lparr>heap := (heap ?s3)(tx \<mapsto> Tx (?t2\<lparr>t_workset := sift_down (l_addr l) e (t_workset ?t2)\<rparr>))\<rparr>)"
      using assms(3,4) x tx c by (simp add: fill_entry_def k(1) upd_tx_eq d dp ret_def)
    also have "?s3\<lparr>heap := (heap ?s3)(tx \<mapsto> Tx (?t2\<lparr>t_workset := sift_down (l_addr l) e (t_workset ?t2)\<rparr>))\<rparr> =
      s\<lparr>freelist := nx, heap := (heap s)(x \<mapsto> ob, tx \<mapsto> Tx (t\<lparr>t_workset := sift_down (l_addr l) e (t_workset ?t2)\<rparr>))\<rparr>"
      using tx by (auto simp: after_kalloc_def intro!: kstate.equality)
    finally show ?thesis by simp
  qed
  ultimately show ?thesis by blast
qed

text \<open>The state after a successful \<open>txshadow\<close>: the workset stays sorted, the new entry is in it, the object's own
  payload is as before and the shadow page holds a copy of it.\<close>

lemma add_entry_ok:
  assumes "tx_wf addr t" "t_workset_size t < MAX_WORKSET"
    and "\<forall>i < t_workset_size t. addr (w_header (t_workset t ! i)) \<noteq> addr h"
  shows "tx_wf addr (add_entry addr t h ro ops x) \<and>
    set (take (Suc (t_workset_size t)) (t_workset (add_entry addr t h ro ops x))) =
      insert (new_entry t h ro ops x) (set (take (t_workset_size t) (t_workset t)))"
proof -
  let ?n = "t_workset_size t" and ?ws = "t_workset t" and ?e = "new_entry t h ro ops x"
  have len: "length ?ws = MAX_WORKSET" and so: "ws_sorted addr (take ?n ?ws)" using assms(1) by (auto simp: tx_wf_def)
  have up: "?ws[?n := ?e] = take ?n ?ws @ ?e # drop (Suc ?n) ?ws" and ln: "length (take ?n ?ws) = ?n"
    using len assms(2) by (simp_all add: upd_conv_take_nth_drop)
  have "ws_key addr ?e \<notin> ws_key addr ` set (take ?n ?ws)"
    using assms(3) ln by (auto simp: ws_key_def new_entry_def in_set_conv_nth) metis
  then obtain zs where "sift_down addr ?n (?ws[?n := ?e]) = zs @ drop (Suc ?n) ?ws" "ws_sorted addr zs"
      "set zs = insert ?e (set (take ?n ?ws))" "length zs = Suc ?n"
    using sift_down_ok [OF so, of ?e "drop (Suc ?n) ?ws"] up ln by auto
  then show ?thesis using len assms(2) by (simp add: add_entry_def tx_wf_def)
qed

lemma txshadow_new:
  assumes r: "tx_ready s p tx t h ob (x # xs)" and n: "\<not> has_entry (lay s) t h"
    and ok: "t_workset_size t < MAX_WORKSET" "xo_writer (xobj_of s h) \<in> {0, tx}"
  shows "\<exists>nx. txshadow h ro ops s = Done x (shadow_st s tx (add_entry (l_addr (lay s)) t h ro ops x) h ob x nx) \<and>
    kmem_wf (shadow_st s tx (add_entry (l_addr (lay s)) t h ro ops x) h ob x nx) xs"
proof -
  have rd: "cur s = Some p" "p_tx (procs s p) = tx" "heap s tx = Some (Tx t)" "h \<noteq> HNull" "held s = {}"
      "heap s (data_ptr s h) = Some ob" "payload ob" "kmem_wf s (x # xs)" and wf: "tx_wf (l_addr (lay s)) t"
    using r by (auto simp: tx_ready_def)
  let ?n = "t_workset_size t" and ?t' = "add_entry (l_addr (lay s)) t h ro ops x"
  let ?t1 = "t\<lparr>t_workset_size := Suc ?n, t_workset := (t_workset t)[?n := (t_workset t ! ?n)\<lparr>w_header := h, w_read_only := ro\<rparr>]\<rparr>"
  let ?s1 = "(own_obj h tx s)\<lparr>heap := (heap s)(tx \<mapsto> Tx ?t1)\<rparr>"
  have tx: "tx \<notin> set (x # xs)" by (rule kmem_wf_used [OF rd(8,3)]) simp
  have pa: "data_ptr s h \<noteq> tx" using rd(3,6,7) by (auto simp: payload_def)
  have d1: "data_ptr ?s1 h = data_ptr s h" by (cases h) (simp_all add: data_ptr_def own_obj_def)
  have len: "?n < length (t_workset t)" using wf ok by (simp add: tx_wf_def)
  have "kmem_wf ?s1 (x # xs)" using tx by (intro kmem_wf_cong [OF rd(8)]) auto
  then obtain nx where f: "fill_entry h ops tx (lay s) ?n ?s1 = Done x (?s1\<lparr>freelist := nx, heap := (heap ?s1)(x \<mapsto> ob, tx \<mapsto> Tx ?t')\<rparr>)"
      and km: "kmem_wf (?s1\<lparr>freelist := nx, heap := (heap ?s1)(x \<mapsto> ob)\<rparr>) xs"
    using fill_entry_ok [of ?s1 x xs tx ?t1 ?n h ob ops "lay s"] rd pa d1 len
    by (auto simp: add_entry_def new_entry_def)
  have st: "?s1\<lparr>freelist := nx, heap := (heap ?s1)(x \<mapsto> ob, tx \<mapsto> Tx ?t')\<rparr> = shadow_st s tx ?t' h ob x nx"
    using tx by (auto simp: shadow_st_def fun_upd_twist [of tx x] intro!: kstate.equality)
  have "kmem_wf (shadow_st s tx ?t' h ob x nx) xs"
    using tx by (intro kmem_wf_cong [OF km]) (auto simp: shadow_st_def)
  then show ?thesis
    using txshadow_register [OF rd(1-5) n ok, of ro ops] f st by auto
qed

text \<open>C3. \<open>txshadow\<close> isolates: on an object that is not in the workset yet, it fails without any effect when the
  workset is full or another transaction is registered as the object's writer; otherwise it registers the
  transaction as the writer and returns a fresh page with a copy of the object's payload, leaves the payload itself
  as it was, and keeps the workset sorted with exactly the new entry added.\<close>

theorem txshadow_isolates:
  assumes r: "tx_ready s p tx t h ob (x # xs)" and n: "find_workset_entry (lay s) t h = None"
  shows "(t_workset_size t = MAX_WORKSET \<or> xo_writer (xobj_of s h) \<notin> {0, tx} \<longrightarrow>
      (\<exists>c. txshadow h ro ops s = Done 0 (s\<lparr>conout := c\<rparr>))) \<and>
    (t_workset_size t < MAX_WORKSET \<and> xo_writer (xobj_of s h) \<in> {0, tx} \<longrightarrow>
      (\<exists>s' t'. txshadow h ro ops s = Done x s' \<and> tx_ready s' p tx t' h ob xs \<and> heap s' x = Some ob \<and>
        data_ptr s' h \<noteq> x \<and> xo_writer (xobj_of s' h) = tx \<and> t_workset_size t' = Suc (t_workset_size t) \<and>
        set (take (t_workset_size t') (t_workset t')) =
          insert (new_entry t h ro ops x) (set (take (t_workset_size t) (t_workset t)))))"
proof -
  have n': "\<not> has_entry (lay s) t h" using n by (simp add: has_entry_def)
  have wf: "tx_wf (l_addr (lay s)) t" using r by (simp add: tx_ready_def)
  have fails: "\<exists>c. txshadow h ro ops s = Done 0 (s\<lparr>conout := c\<rparr>)"
    if "t_workset_size t = MAX_WORKSET \<or> xo_writer (xobj_of s h) \<notin> {0, tx}"
    using that wf txshadow_full [OF r n'] txshadow_conflict [OF r n']
    by (cases "t_workset_size t = MAX_WORKSET") (auto simp: tx_wf_def)
  have new: "\<exists>s' t'. txshadow h ro ops s = Done x s' \<and> tx_ready s' p tx t' h ob xs \<and> heap s' x = Some ob \<and>
        data_ptr s' h \<noteq> x \<and> xo_writer (xobj_of s' h) = tx \<and> t_workset_size t' = Suc (t_workset_size t) \<and>
        set (take (t_workset_size t') (t_workset t')) =
          insert (new_entry t h ro ops x) (set (take (t_workset_size t) (t_workset t)))"
    if ok: "t_workset_size t < MAX_WORKSET \<and> xo_writer (xobj_of s h) \<in> {0, tx}"
  proof -
    let ?t' = "add_entry (l_addr (lay s)) t h ro ops x"
    obtain nx where k: "txshadow h ro ops s = Done x (shadow_st s tx ?t' h ob x nx)" "kmem_wf (shadow_st s tx ?t' h ob x nx) xs"
      using txshadow_new [OF r n'] ok by blast
    have ad: "tx_wf (l_addr (lay s)) ?t' \<and> set (take (Suc (t_workset_size t)) (t_workset ?t')) =
        insert (new_entry t h ro ops x) (set (take (t_workset_size t) (t_workset t)))"
      using find_loop_ok [of "l_addr (lay s)" "t_workset_size t" "t_workset t" 0 "int (t_workset_size t) - 1" "l_addr (lay s) h"] wf n ok
      by (intro add_entry_ok) (auto simp: tx_wf_def find_workset_entry_def found_in_def ws_key_def)
    have tx: "tx \<noteq> x" "data_ptr s h \<noteq> x" "data_ptr s h \<noteq> tx"
      using kmem_wf_used [of s "x # xs"] r unfolding tx_ready_def by (fastforce simp: payload_def)+
    have d: "data_ptr (shadow_st s tx ?t' h ob x nx) h = data_ptr s h"
        "xo_writer (xobj_of (shadow_st s tx ?t' h ob x nx) h) = tx"
      using r by (cases h; simp add: data_ptr_def shadow_st_def own_obj_def xobj_of_def tx_ready_def)+
    show ?thesis
      using k ad tx r d by (intro exI [of _ "shadow_st s tx ?t' h ob x nx"] exI [of _ ?t'])
        (simp add: tx_ready_def, simp add: shadow_st_def add_entry_def)
  qed
  show ?thesis using fails new by blast
qed

definition sample_entry :: "hdr \<Rightarrow> workset_entry" where
  "sample_entry h = empty_entry\<lparr>w_header := h, w_ops := InodeOps\<rparr>"

definition sample_tx :: transaction where
  "sample_tx = zero_tx\<lparr>t_status := TX_ACTIVE, t_workset_size := 2,
     t_workset := [sample_entry (HInode 0), sample_entry (HBuf 2)] @ replicate 14 empty_entry\<rparr>"

lemma sample_tx_wf: "tx_wf (l_addr sample_layout) sample_tx"
  by (simp add: tx_wf_def sample_tx_def ws_sorted_def ws_key_def sample_entry_def sample_layout_def empty_entry_def)

lemma sample_tx_find: "find_workset_entry sample_layout sample_tx (HBuf 0) = None"
    "find_workset_entry sample_layout sample_tx (HBuf 2) = Some 1"
  by (simp_all add: find_workset_entry_def sample_tx_def sample_entry_def empty_entry_def sample_layout_def find_loop.simps)

theorem find_workset_entry_correct_witness:
  "tx_wf (l_addr sample_layout) sample_tx \<and> find_workset_entry sample_layout sample_tx (HBuf 2) = Some 1 \<and>
   {j. j < t_workset_size sample_tx \<and> l_addr sample_layout (w_header (t_workset sample_tx ! j)) =
      l_addr sample_layout (HBuf 2)} = {1}"
  using find_workset_entry_correct [OF sample_tx_wf, of "HBuf 2"] sample_tx_wf
  unfolding sample_tx_find option.case by blast

definition tx_state :: kstate where
  "tx_state = two_free_pages\<lparr>cur := Some 0,
     heap := (heap two_free_pages)(PHYSTOP - 12288 \<mapsto> Tx sample_tx, PHYSTOP - 16384 \<mapsto> BufData (replicate BSIZE 7)),
     procs := (procs two_free_pages)(0 := (procs two_free_pages 0)\<lparr>p_tx := PHYSTOP - 12288\<rparr>),
     bufs := (bufs two_free_pages)(0 := (bufs two_free_pages 0)\<lparr>b_data := PHYSTOP - 16384\<rparr>)\<rparr>"

lemma tx_state_ready:
  "tx_ready tx_state 0 (PHYSTOP - 12288) sample_tx (HBuf 0) (BufData (replicate BSIZE 7)) [PHYSTOP - 8192, PHYSTOP - 4096]"
  using sample_tx_wf
  by (simp add: tx_ready_def tx_state_def two_free_pages_def kmem_wf_def bss_state_def valid_page_def payload_def
      data_ptr_def) (simp add: sample_layout_def)

theorem txshadow_isolates_witness:
  "\<exists>s' t'. txshadow (HBuf 0) False BufferOps tx_state = Done (PHYSTOP - 8192) s' \<and> t_workset_size t' = 3 \<and>
     tx_ready s' 0 (PHYSTOP - 12288) t' (HBuf 0) (BufData (replicate BSIZE 7)) [PHYSTOP - 4096]"
proof -
  have "lay tx_state = sample_layout" "t_workset_size sample_tx = 2" "xo_writer (xobj_of tx_state (HBuf 0)) = 0"
    by (simp_all add: tx_state_def two_free_pages_def bss_state_def sample_tx_def xobj_of_def zero_buf_def no_tx_data_def)
  then show ?thesis
    using txshadow_isolates [OF tx_state_ready, of False BufferOps] sample_tx_find
    by (fastforce simp del: KERNBASE_def)
qed

end
