(* ===== verification/Inode.thy ===== *)
theory Inode
  imports Tx Vm
begin

text \<open>
  The block allocator and the inodes of \<open>fs.c\<close>, with the abort path of transactions, \<open>tx_abort_now\<close> and
  \<open>idata\<close> of \<open>tx.c\<close>.

  On-disk structures are read and written at byte level: a \<open>struct dinode\<close> is 64 bytes of its block, the
  bitmap is one bit per block, the indirect block an array of little-endian words. Indices that are
  \<open>int\<close> in the source are naturals.

  The source calls in a circle: \<open>idata\<close> may call \<open>tx_abort_now\<close>, which calls \<open>inode_abort\<close>, which calls
  \<open>iput\<close>, which calls \<open>itrunc\<close>, which calls \<open>idata\<close>. Each of them takes the routine that closes the circle
  as an argument (\<open>iput_with\<close>, ...), and \<open>iput\<close> is closed off with a fault. \<open>iput_unfold\<close> shows that this is
  the recursion of the source: \<open>iput\<close> satisfies its recursive equation.

  \<open>iget_correct\<close> and \<open>iput_drops\<close> are about the references to the slots of the inode table.
\<close>

section \<open>Blocks\<close>

definition upd_bytes :: "u64 \<Rightarrow> (u8 list \<Rightarrow> u8 list) \<Rightarrow> unit K" where
  [kdefs]: "upd_bytes pa f =
    bnd (get_bdata pa) (\<lambda>bs.
    put_obj pa (BufData (f bs)))"

definition IBLOCK :: "nat \<Rightarrow> superblock \<Rightarrow> u32" where
  "IBLOCK i s = of_nat (i div IPB) + sb_inodestart s"

definition BBLOCK :: "nat \<Rightarrow> superblock \<Rightarrow> u32" where
  "BBLOCK b s = of_nat (b div BPB) + sb_bmapstart s"

definition superblock_of :: "u8 list \<Rightarrow> superblock" where
  "superblock_of bs = \<lparr>sb_magic = of_le (bslice 0 4 bs), sb_size = of_le (bslice 4 4 bs),
     sb_nblocks = of_le (bslice 8 4 bs), sb_ninodes = of_le (bslice 12 4 bs), sb_nlog = of_le (bslice 16 4 bs),
     sb_logstart = of_le (bslice 20 4 bs), sb_inodestart = of_le (bslice 24 4 bs), sb_bmapstart = of_le (bslice 28 4 bs)\<rparr>"

definition readsb :: "u32 \<Rightarrow> superblock K" where
  "readsb dev =
    bnd (bread dev 1) (\<lambda>bp.
    bnd (get_data bp) (\<lambda>bs.
    sq (brelse bp)
    (ret (superblock_of bs))))"

definition bzero :: "u32 \<Rightarrow> u32 \<Rightarrow> unit K" where
  "bzero dev bno =
    bnd (bread dev bno) (\<lambda>bp.
    bnd (bdata bp) (\<lambda>d.
    sq (upd_bytes d (\<lambda>_. replicate BSIZE 0))
    (sq (log_write bp)
    (brelse bp))))"

definition bit_mask :: "nat \<Rightarrow> u8" where
  "bit_mask bi = push_bit (bi mod 8) 1"

text \<open>One bit of the bitmap: the block it stands for is taken if it is free.\<close>

definition balloc_bit :: "u32 \<Rightarrow> nat \<Rightarrow> nat \<Rightarrow> nat \<Rightarrow> u32 option K" where
  "balloc_bit dev bp b bi =
    bnd (bdata bp) (\<lambda>d.
    bnd (get_bdata d) (\<lambda>bs.
    if bs ! (bi div 8) AND bit_mask bi = 0 then bnd (bdata bp) (\<lambda>d.
      sq (upd_bytes d (\<lambda>bs. bs[bi div 8 := bs ! (bi div 8) OR bit_mask bi]))
      (sq (log_write bp)
      (sq (brelse bp)
      (sq (bzero dev (of_nat (b + bi)))
      (ret (Some (of_nat (b + bi))))))))
      else ret None))"

definition balloc :: "u32 \<Rightarrow> u32 K" where
  "balloc dev =
    bnd (getk (\<lambda>s. unat (sb_size (sb s)))) (\<lambda>sz.
    bnd (getk sb) (\<lambda>sblk.
    bnd (find_k (map (\<lambda>k. k * BPB) [0..<(sz + BPB - 1) div BPB]) (\<lambda>b. bnd (bread dev (BBLOCK b sblk)) (\<lambda>bp.
      bnd (find_k [0..<min BPB (sz - b)] (balloc_bit dev bp b)) (\<lambda>r.
      case r of Some x \<Rightarrow> ret (Some x) | None \<Rightarrow> sq (brelse bp)
        (ret None))))) (\<lambda>r.
    case r of Some x \<Rightarrow> ret x | None \<Rightarrow> sq (printk (''balloc: out of blocks'' @ NL) [])
      (ret 0))))"

definition bfree :: "u32 \<Rightarrow> u32 \<Rightarrow> unit K" where
  "bfree dev b =
    bnd (getk sb) (\<lambda>sblk.
    bnd (bread dev (BBLOCK (unat b) sblk)) (\<lambda>bp.
    (let bi = unat b mod BPB in
    bnd (bdata bp) (\<lambda>d.
    bnd (get_bdata d) (\<lambda>bs.
    if bs ! (bi div 8) AND bit_mask bi = 0 then panic ''freeing free block'' else
    bnd (bdata bp) (\<lambda>d.
    sq (upd_bytes d (\<lambda>bs. bs[bi div 8 := bs ! (bi div 8) AND NOT (bit_mask bi)]))
    (sq (log_write bp)
    (brelse bp))))))))"

section \<open>The inode table\<close>

definition get_inode :: "nat \<Rightarrow> inode K" where
  [kdefs]: "get_inode i = getk (\<lambda>s. itable s i)"

definition zero_idata :: inode_data where
  "zero_idata = \<lparr>d_type = 0, d_major = 0, d_minor = 0, d_nlink = 0, d_size = 0, d_addrs = replicate (NDIRECT + 1) 0\<rparr>"

definition dinode_of :: "u8 list \<Rightarrow> inode_data" where
  "dinode_of bs = \<lparr>d_type = of_le (bslice 0 2 bs), d_major = of_le (bslice 2 2 bs), d_minor = of_le (bslice 4 2 bs),
     d_nlink = of_le (bslice 6 2 bs), d_size = of_le (bslice 8 4 bs),
     d_addrs = map (\<lambda>k. of_le (bslice (12 + 4 * k) 4 bs)) [0..<NDIRECT + 1]\<rparr>"

definition dinode_bytes :: "inode_data \<Rightarrow> u8 list" where
  "dinode_bytes d = to_le 2 (d_type d) @ to_le 2 (d_major d) @ to_le 2 (d_minor d) @ to_le 2 (d_nlink d) @
     to_le 4 (d_size d) @ concat (map (to_le 4) (d_addrs d))"

definition iinit :: "unit K" where
  "iinit =
    sq (initlock ItableLock)
    (for_each [0..<NINODE] (\<lambda>i. sq (initsleeplock (SLInode i))
      (upd_inode i (i_data_update (\<lambda>_. 0)))))"

fun iget_scan :: "nat list \<Rightarrow> nat option \<Rightarrow> u32 \<Rightarrow> u32 \<Rightarrow> (nat + nat option) K" where
  "iget_scan [] slot dev inum = ret (Inr slot)"
| "iget_scan (i # is) slot dev inum =
  bnd (get_inode i) (\<lambda>ip.
  if i_ref ip > 0 \<and> i_dev ip = dev \<and> i_inum ip = inum then ret (Inl i) else
  iget_scan is (if slot = None \<and> i_ref ip = 0 then Some i else slot) dev inum)"

definition iget :: "u32 \<Rightarrow> u32 \<Rightarrow> nat K" where
  "iget dev inum =
    sq (acquire ItableLock)
    (bnd (iget_scan [0..<NINODE] None dev inum) (\<lambda>r.
    case r of
        Inl i \<Rightarrow> sq (upd_inode i (i_ref_update (\<lambda>r. r + 1)))
          (sq (release ItableLock)
          (ret i))
      | Inr None \<Rightarrow> panic ''iget: no inodes''
      | Inr (Some i) \<Rightarrow> sq (upd_inode i (\<lambda>ip. ip\<lparr>i_dev := dev, i_inum := inum, i_ref := 1, i_valid := False\<rparr>))
        (sq (initxobj (HInode i))
        (bnd (get_inode i) (\<lambda>ip.
        sq (whenk (i_data ip = 0) (bnd kalloc (\<lambda>pg.
          sq (upd_inode i (i_data_update (\<lambda>_. pg)))
          (if pg = 0 then panic ''iget: kalloc inode_data failed'' else
          put_obj pg (InodeData zero_idata)))))
        (sq (release ItableLock)
        (ret i)))))))"

definition ialloc :: "u32 \<Rightarrow> u16 \<Rightarrow> nat option K" where
  "ialloc dev type =
    bnd (getk sb) (\<lambda>sblk.
    bnd (find_k [1..<unat (sb_ninodes sblk)] (\<lambda>inum. bnd (bread dev (IBLOCK inum sblk)) (\<lambda>bp.
      bnd (get_data bp) (\<lambda>bs.
      (let off = inum mod IPB * DINODE_SIZE in
      if d_type (dinode_of (bslice off DINODE_SIZE bs)) = 0 then sq (put_data bp (splice_at off (dinode_bytes (zero_idata\<lparr>d_type := type\<rparr>)) bs))
        (sq (log_write bp)
        (sq (brelse bp)
        (bnd (iget dev (of_nat inum)) (\<lambda>i.
        ret (Some i)))))
        else sq (brelse bp)
          (ret None)))))) (\<lambda>r.
    case r of Some i \<Rightarrow> ret (Some i) | None \<Rightarrow> sq (printk (''ialloc: no inodes'' @ NL) [])
      (ret None)))"

definition iupdate :: "nat \<Rightarrow> unit K" where
  "iupdate i =
    bnd tx_active (\<lambda>a.
    if a then ret () else
    bnd (get_inode i) (\<lambda>ip.
    bnd (getk sb) (\<lambda>sblk.
    bnd (bread (i_dev ip) (IBLOCK (unat (i_inum ip)) sblk)) (\<lambda>bp.
    bnd (get_inode i) (\<lambda>ip.
    bnd (get_idata (i_data ip)) (\<lambda>d.
    bnd (get_data bp) (\<lambda>bs.
    sq (put_data bp (splice_at (unat (i_inum ip) mod IPB * DINODE_SIZE) (dinode_bytes d) bs))
    (sq (log_write bp)
    (brelse bp)))))))))"

definition idup :: "nat \<Rightarrow> nat K" where
  [kdefs]: "idup i =
    sq (acquire ItableLock)
    (sq (upd_inode i (i_ref_update (\<lambda>r. r + 1)))
    (sq (release ItableLock)
    (ret i)))"

definition ilock :: "nat \<Rightarrow> unit K" where
  "ilock i =
    bnd (get_inode i) (\<lambda>ip.
    if i_ref ip < 1 then panic ''ilock'' else
    sq (acquiresleep (SLInode i))
    (bnd (get_inode i) (\<lambda>ip.
    whenk (\<not> i_valid ip) (bnd (getk sb) (\<lambda>sblk.
      bnd (bread (i_dev ip) (IBLOCK (unat (i_inum ip)) sblk)) (\<lambda>bp.
      bnd (get_data bp) (\<lambda>bs.
      sq (upd_idata (i_data ip) (\<lambda>_. dinode_of (bslice (unat (i_inum ip) mod IPB * DINODE_SIZE) DINODE_SIZE bs)))
      (sq (brelse bp)
      (sq (upd_inode i (i_valid_update (\<lambda>_. True)))
      (bnd (get_idata (i_data ip)) (\<lambda>d.
      whenk (d_type d = 0) (panic ''ilock: no type''))))))))))))"

definition iunlock :: "nat \<Rightarrow> unit K" where
  "iunlock i =
    bnd (holdingsleep (SLInode i)) (\<lambda>h.
    bnd (get_inode i) (\<lambda>ip.
    if \<not> h \<or> i_ref ip < 1 then panic ''iunlock'' else
    releasesleep (SLInode i)))"

section \<open>Aborting a transaction\<close>

definition undo_fn :: "undo_op \<Rightarrow> hdr \<Rightarrow> unit K" where
  "undo_fn u h = (case u of
      UndoIunlock \<Rightarrow> (case h of HInode i \<Rightarrow> iunlock i | _ \<Rightarrow> fault)
    | UndoBufUnlock \<Rightarrow> (case h of HBuf b \<Rightarrow> releasesleep (SLBuf b) | _ \<Rightarrow> fault)
    | UndoB \<Rightarrow> ret ()
    | UndoC \<Rightarrow> ret ())"

definition inode_abort_with :: "(nat \<Rightarrow> unit K) \<Rightarrow> workset_entry \<Rightarrow> unit K" where
  "inode_abort_with put e =
    sq (whenk (w_shadow_data e \<noteq> 0) (kfree (w_shadow_data e)))
    (case w_header e of HInode i \<Rightarrow> put i | _ \<Rightarrow> fault)"

definition buf_abort :: "workset_entry \<Rightarrow> unit K" where
  "buf_abort e = (case w_header e of HBuf b \<Rightarrow> sq (whenk (w_newly_allocated e) (sq begin_op
      (bnd (get_buf b) (\<lambda>x.
      sq (bfree (b_dev x) (b_blockno x))
      end_op))))
    (sq (whenk (w_shadow_data e \<noteq> 0) (kfree (w_shadow_data e)))
    (bunpin b)) | _ \<Rightarrow> fault)"

definition abort_fn_with :: "(nat \<Rightarrow> unit K) \<Rightarrow> workset_entry \<Rightarrow> unit K" where
  "abort_fn_with put e = (case w_ops e of
      NoOps \<Rightarrow> fault | InodeOps \<Rightarrow> inode_abort_with put e | BufferOps \<Rightarrow> buf_abort e)"

text \<open>The loop over the workset reads its size anew before every step, since an abort function may call
  \<open>bfree\<close>, which adds an entry while the transaction is still active. The workset has \<open>MAX_WORKSET\<close> entries,
  so that this much fuel is enough.\<close>

fun each_entry :: "nat \<Rightarrow> nat \<Rightarrow> (workset_entry \<Rightarrow> unit K) \<Rightarrow> unit K" where
  "each_entry 0 i f = fault"
| "each_entry (Suc n) i f =
  bnd my_tx (\<lambda>tx.
  bnd (get_tx tx) (\<lambda>t.
  if i < t_workset_size t then sq (f (t_workset t ! i))
    (each_entry n (Suc i) f)
    else ret ()))"

definition tx_abort_with :: "(nat \<Rightarrow> unit K) \<Rightarrow> hdr \<Rightarrow> unit K" where
  "tx_abort_with put header =
    bnd tx_active (\<lambda>a.
    if \<not> a then panic ''tx_abort_now: no active transaction'' else
    bnd my_tx (\<lambda>tx.
    bnd (get_tx tx) (\<lambda>t.
    sq (for_each (rev [0..<t_undo_size t]) (\<lambda>i. bnd (get_tx tx) (\<lambda>t.
      undo_fn (fst (t_undo t ! i)) (snd (t_undo t ! i)))))
    (sq (each_entry (Suc MAX_WORKSET) 0 (abort_fn_with put))
    (bnd (get_tx tx) (\<lambda>t.
    if t_kjmp_valid t then longjmp else
    panic ''tx_abort_now: no kjmp set''))))))"

definition idata_with :: "(nat \<Rightarrow> unit K) \<Rightarrow> bool \<Rightarrow> nat \<Rightarrow> u64 K" where
  "idata_with put read_only i =
    bnd (txdata (HInode i) read_only InodeOps) (\<lambda>d.
    sq (whenk (d = 0) (sq (iunlock i)
      (tx_abort_with put (HInode i))))
    (ret d))"

section \<open>Truncating and releasing an inode\<close>

definition indirect :: "u8 list \<Rightarrow> nat \<Rightarrow> u32" where
  "indirect bs k = of_le (bslice (4 * k) 4 bs)"

definition itrunc_with :: "(nat \<Rightarrow> unit K) \<Rightarrow> nat \<Rightarrow> unit K" where
  "itrunc_with put i =
    bnd (idata_with put False i) (\<lambda>d.
    bnd tx_active (\<lambda>active.
    bnd (get_inode i) (\<lambda>ip.
    sq (for_each [0..<NDIRECT] (\<lambda>k. bnd (get_idata d) (\<lambda>x.
      whenk (d_addrs x ! k \<noteq> 0) (sq (whenk (\<not> active) (bfree (i_dev ip) (d_addrs x ! k)))
        (upd_idata d (d_addrs_update (\<lambda>l. l[k := 0])))))))
    (bnd (get_idata d) (\<lambda>x.
    sq (whenk (d_addrs x ! NDIRECT \<noteq> 0) (sq (whenk (\<not> active) (bnd (bread (i_dev ip) (d_addrs x ! NDIRECT)) (\<lambda>bp.
        bnd (bdata bp) (\<lambda>a.
        sq (for_each [0..<NINDIRECT] (\<lambda>j. bnd (get_bdata a) (\<lambda>bs.
          whenk (indirect bs j \<noteq> 0) (bfree (i_dev ip) (indirect bs j)))))
        (sq (brelse bp)
        (bfree (i_dev ip) (d_addrs x ! NDIRECT)))))))
      (upd_idata d (d_addrs_update (\<lambda>l. l[NDIRECT := 0])))))
    (sq (upd_idata d (d_size_update (\<lambda>_. 0)))
    (iupdate i)))))))"

definition iput_with :: "(nat \<Rightarrow> unit K) \<Rightarrow> nat \<Rightarrow> unit K" where
  "iput_with put i =
    bnd tx_active (\<lambda>a.
    if a then ret () else
    sq (acquire ItableLock)
    (bnd (get_inode i) (\<lambda>ip.
    bnd (if i_ref ip = 1 \<and> i_valid ip
      then bnd (get_idata (i_data ip)) (\<lambda>d.
        ret (d_nlink d = 0)) else ret False) (\<lambda>last_ref.
    sq (whenk last_ref (sq (acquiresleep (SLInode i))
      (sq (release ItableLock)
      (sq (itrunc_with put i)
      (bnd (get_inode i) (\<lambda>ip.
      sq (upd_idata (i_data ip) (d_type_update (\<lambda>_. 0)))
      (sq (iupdate i)
      (sq (upd_inode i (i_valid_update (\<lambda>_. False)))
      (bnd (get_inode i) (\<lambda>ip.
      sq (kfree (i_data ip))
      (sq (upd_inode i (i_data_update (\<lambda>_. 0)))
      (sq (releasesleep (SLInode i))
      (acquire ItableLock)))))))))))))
    (sq (upd_inode i (i_ref_update (\<lambda>r. r - 1)))
    (release ItableLock))))))"

definition iput :: "nat \<Rightarrow> unit K" where
  "iput = iput_with (\<lambda>_. fault)"

definition inode_abort :: "workset_entry \<Rightarrow> unit K" where
  "inode_abort = inode_abort_with iput"

definition abort_fn :: "workset_entry \<Rightarrow> unit K" where
  "abort_fn = abort_fn_with iput"

definition tx_abort_now :: "hdr \<Rightarrow> unit K" where
  "tx_abort_now = tx_abort_with iput"

definition idata :: "nat \<Rightarrow> u64 K" where
  "idata = idata_with iput False"

definition idata_ro :: "nat \<Rightarrow> u64 K" where
  "idata_ro = idata_with iput True"

definition itrunc :: "nat \<Rightarrow> unit K" where
  "itrunc = itrunc_with iput"

definition iunlockput :: "nat \<Rightarrow> unit K" where
  "iunlockput i =
    sq (iunlock i)
    (iput i)"

definition ireclaim :: "u32 \<Rightarrow> unit K" where
  "ireclaim dev =
    bnd (getk sb) (\<lambda>sblk.
    for_each [1..<unat (sb_ninodes sblk)] (\<lambda>inum. bnd (bread dev (IBLOCK inum sblk)) (\<lambda>bp.
      bnd (get_data bp) (\<lambda>bs.
      (let d = dinode_of (bslice (inum mod IPB * DINODE_SIZE) DINODE_SIZE bs) in
      bnd (if d_type d \<noteq> 0 \<and> d_nlink d = 0 then sq (printk (''ireclaim: orphaned inode %d'' @ NL) [PInt (of_nat inum)])
        (bnd (iget dev (of_nat inum)) (\<lambda>i.
        ret (Some i)))
        else ret None) (\<lambda>ip.
      sq (brelse bp)
      (case ip of None \<Rightarrow> ret () | Some i \<Rightarrow> sq begin_op
        (sq (ilock i)
        (sq (iunlock i)
        (sq (iput i)
        end_op))))))))))"

definition fsinit :: "u32 \<Rightarrow> unit K" where
  "fsinit dev =
    bnd (readsb dev) (\<lambda>x.
    sq (modk (\<lambda>s. s\<lparr>sb := x\<rparr>))
    (if sb_magic x \<noteq> FSMAGIC then panic ''invalid file system'' else
    sq (initlog dev x)
    (ireclaim dev)))"

section \<open>Reading and writing the content\<close>

text \<open>Where \<open>readi\<close> delivers: a user address, or kernel memory, whose new content is the list it returns.
  Where \<open>writei\<close> takes from: a user address, or the given bytes of kernel memory.\<close>

datatype wsrc = USrc u64 | KSrc "u8 list"

definition either_copyout :: "u64 option \<Rightarrow> u8 list \<Rightarrow> int K" where
  "either_copyout user_dst src =
    bnd this_proc (\<lambda>p.
    case user_dst of
        Some dst \<Rightarrow> bnd (getk (\<lambda>s. p_pagetable (procs s p))) (\<lambda>pt.
          copyout pt dst src)
      | None \<Rightarrow> ret 0)"

definition either_copyin :: "wsrc \<Rightarrow> nat \<Rightarrow> (int \<times> u8 list) K" where
  "either_copyin src len =
    bnd this_proc (\<lambda>p.
    case src of
        USrc a \<Rightarrow> bnd (getk (\<lambda>s. p_pagetable (procs s p))) (\<lambda>pt.
          copyin pt a len)
      | KSrc bs \<Rightarrow> if len \<le> length bs then ret (0, take len bs) else fault)"

definition wsrc_advance :: "nat \<Rightarrow> wsrc \<Rightarrow> wsrc" where
  "wsrc_advance m src = (case src of USrc a \<Rightarrow> USrc (a + of_nat m) | KSrc bs \<Rightarrow> KSrc (drop m bs))"

definition bmap :: "nat \<Rightarrow> u32 \<Rightarrow> u32 K" where
  "bmap i bn =
    bnd (idata i) (\<lambda>d.
    bnd (get_inode i) (\<lambda>ip.
    (let n = unat bn in
    if n < NDIRECT then bnd (get_idata d) (\<lambda>x.
      if d_addrs x ! n \<noteq> 0 then ret (d_addrs x ! n) else
      bnd (balloc (i_dev ip)) (\<lambda>addr.
      if addr = 0 then ret 0 else
      sq (upd_idata d (d_addrs_update (\<lambda>l. l[n := addr])))
      (ret addr)))
      else if n - NDIRECT < NINDIRECT then bnd (get_idata d) (\<lambda>x.
        bnd (if d_addrs x ! NDIRECT \<noteq> 0 then ret (d_addrs x ! NDIRECT)
          else bnd (balloc (i_dev ip)) (\<lambda>addr.
            sq (whenk (addr \<noteq> 0) (upd_idata d (d_addrs_update (\<lambda>l. l[NDIRECT := addr]))))
            (ret addr))) (\<lambda>addr.
        if addr = 0 then ret 0 else
        bnd (bread (i_dev ip) addr) (\<lambda>bp.
        bnd (bdata bp) (\<lambda>a.
        bnd (get_bdata a) (\<lambda>bs.
        bnd (if indirect bs (n - NDIRECT) \<noteq> 0 then ret (indirect bs (n - NDIRECT))
          else bnd (balloc (i_dev ip)) (\<lambda>addr.
            sq (whenk (addr \<noteq> 0) (sq (upd_bytes a (splice_at (4 * (n - NDIRECT)) (to_le 4 addr)))
              (log_write bp)))
            (ret addr))) (\<lambda>addr.
        sq (brelse bp)
        (ret addr)))))))
      else panic ''bmap: out of range'')))"

record kstat =
  st_dev :: u32
  st_ino :: u32
  st_type :: u16
  st_nlink :: u16
  st_size :: u64

definition stati :: "nat \<Rightarrow> kstat K" where
  "stati i =
    bnd (idata i) (\<lambda>d.
    bnd (get_inode i) (\<lambda>ip.
    bnd (get_idata d) (\<lambda>x.
    ret \<lparr>st_dev = i_dev ip, st_ino = i_inum ip, st_type = d_type x, st_nlink = d_nlink x, st_size = ucast (d_size x)\<rparr>)))"

fun readi_loop :: "nat \<Rightarrow> nat \<Rightarrow> u64 option \<Rightarrow> u32 \<Rightarrow> u32 \<Rightarrow> u32 \<Rightarrow> u8 list \<Rightarrow> (int \<times> u8 list) K" where
  "readi_loop 0 i dst off n tot acc = fault"
| "readi_loop (Suc fuel) i dst off n tot acc =
    (if tot < n then bnd (bmap i (off div of_nat BSIZE)) (\<lambda>addr.
      if addr = 0 then ret (sint tot, acc) else
      bnd (get_inode i) (\<lambda>ip.
      bnd (bread (i_dev ip) addr) (\<lambda>bp.
      (let m = min (n - tot) (of_nat BSIZE - off mod of_nat BSIZE) in
      bnd (bdata bp) (\<lambda>d.
      bnd (get_bdata d) (\<lambda>bs.
      (let chunk = bslice (unat (off mod of_nat BSIZE)) (unat m) bs in
      bnd (either_copyout dst chunk) (\<lambda>r.
      if r = -1 then (sq (brelse bp)
        (ret (-1, acc))) else
      sq (brelse bp)
      (readi_loop fuel i (map_option (\<lambda>a. a + ucast m) dst) (off + m) n (tot + m) (acc @ chunk))))))))))
     else ret (sint tot, acc))"

definition readi :: "nat \<Rightarrow> u64 option \<Rightarrow> u32 \<Rightarrow> u32 \<Rightarrow> (int \<times> u8 list) K" where
  "readi i dst off n =
    bnd (idata i) (\<lambda>d.
    bnd (get_idata d) (\<lambda>x.
    if off > d_size x \<or> off + n < off then ret (0, []) else
    (let n = (if off + n > d_size x then d_size x - off else n) in
    readi_loop (unat n div BSIZE + 3) i dst off n 0 [])))"

text \<open>The loop of \<open>writei\<close> returns \<open>tot\<close> and \<open>off\<close>.\<close>

fun writei_loop :: "nat \<Rightarrow> nat \<Rightarrow> wsrc \<Rightarrow> u32 \<Rightarrow> u32 \<Rightarrow> u32 \<Rightarrow> (u32 \<times> u32) K" where
  "writei_loop 0 i src off n tot = fault"
| "writei_loop (Suc fuel) i src off n tot =
    (if tot < n then bnd (bmap i (off div of_nat BSIZE)) (\<lambda>addr.
      if addr = 0 then ret (tot, off) else
      bnd (get_inode i) (\<lambda>ip.
      bnd (bread (i_dev ip) addr) (\<lambda>bp.
      (let m = min (n - tot) (of_nat BSIZE - off mod of_nat BSIZE) in
      bnd (bdata bp) (\<lambda>d.
      bnd (either_copyin src (unat m)) (\<lambda>r.
      sq (upd_bytes d (splice_at (unat (off mod of_nat BSIZE)) (snd r)))
      (if fst r = -1 then (sq (brelse bp)
        (ret (tot, off))) else
      sq (log_write bp)
      (sq (brelse bp)
      (writei_loop fuel i (wsrc_advance (unat m) src) (off + m) n (tot + m))))))))))
     else ret (tot, off))"

definition writei :: "nat \<Rightarrow> wsrc \<Rightarrow> u32 \<Rightarrow> u32 \<Rightarrow> int K" where
  "writei i src off n =
    bnd (idata i) (\<lambda>d.
    bnd (get_idata d) (\<lambda>x.
    if off > d_size x \<or> off + n < off then ret (-1) else
    if off + n > of_nat (MAXFILE * BSIZE) then ret (-1) else
    bnd (writei_loop (unat n div BSIZE + 3) i src off n 0) (\<lambda>r.
    bnd (get_idata d) (\<lambda>x.
    sq (whenk (snd r > d_size x) (upd_idata d (d_size_update (\<lambda>_. snd r))))
    (sq (iupdate i)
    (ret (sint (fst r))))))))"

section \<open>Inside an active transaction\<close>

text \<open>Process \<open>p\<close> runs with the active transaction \<open>t\<close> in the page \<open>tx\<close>.\<close>

definition in_tx :: "kstate \<Rightarrow> nat \<Rightarrow> u64 \<Rightarrow> transaction \<Rightarrow> bool" where
  "in_tx s p tx t \<longleftrightarrow> cur s = Some p \<and> p_tx (procs s p) = tx \<and> tx \<noteq> 0 \<and> heap s tx = Some (Tx t) \<and> t_status t = TX_ACTIVE"

lemma tx_active_in: "in_tx s p tx t \<Longrightarrow> tx_active s = Done True s" "in_tx s p tx t \<Longrightarrow> my_tx s = Done tx s"
    "in_tx s p tx t \<Longrightarrow> get_tx tx s = Done t s"
  by (simp_all add: in_tx_def kdefs)

lemma iput_in_tx: "in_tx s p tx t \<Longrightarrow> iput_with put i s = Done () s"
  by (simp add: iput_with_def tx_active_in(1) ret_def)

text \<open>C28. File-system updates are deferred: while the transaction of the running process is active, \<open>begin_op\<close>,
  \<open>log_write\<close>, \<open>end_op\<close>, \<open>iupdate\<close> and \<open>iput\<close> return without any effect, so that nothing reaches the log and no
  reference is dropped before the commit.\<close>

theorem tx_defers:
  assumes "in_tx s p tx t"
  shows "begin_op s = Done () s \<and> log_write b s = Done () s \<and> end_op s = Done () s \<and> iupdate i s = Done () s \<and>
    iput i s = Done () s"
  using tx_active_in(1) [OF assms] iput_in_tx [OF assms]
  by (simp add: begin_op_def log_write_def end_op_def iupdate_def iput_def ret_def)

theorem tx_defers_witness:
  "in_tx tx_state 0 (PHYSTOP - 12288) sample_tx \<and> log_write 0 tx_state = Done () tx_state \<and> iput 3 tx_state = Done () tx_state"
proof -
  have "in_tx tx_state 0 (PHYSTOP - 12288) sample_tx"
    using tx_state_ready by (simp add: in_tx_def tx_ready_def) (simp add: sample_tx_def)
  then show ?thesis using tx_defers [of tx_state 0 "PHYSTOP - 12288" sample_tx 0 3] by blast
qed

section \<open>The circle of calls\<close>

text \<open>The routine that closes the circle is never reached: outside a transaction \<open>idata\<close> panics instead of
  aborting, and inside one \<open>iput\<close> returns at once.\<close>

definition not_in_tx :: "kstate \<Rightarrow> bool" where
  "not_in_tx s \<longleftrightarrow> tx_active s = Done False s"

lemma not_in_tx_cong:
  assumes "not_in_tx s" "cur s' = cur s" "\<And>p. p_tx (procs s' p) = p_tx (procs s p)" "heap s' = heap s"
  shows "not_in_tx s'"
  using assms by (cases "cur s") (auto simp: not_in_tx_def kdefs split: option.splits if_splits kobj.splits)

lemma sq_cong_at: "(\<And>s'. m s = Done () s' \<Longrightarrow> k s' = k' s') \<Longrightarrow> sq m k s = sq m k' s"
  by (auto simp: sq_def bnd_def split: outcome.splits)

lemma bnd_cong_at: "(\<And>a s'. m s = Done a s' \<Longrightarrow> k a s' = k' a s') \<Longrightarrow> bnd m k s = bnd m k' s"
  by (auto simp: bnd_def split: outcome.splits)

lemma bnd_Done_False: "m s = Done False s' \<Longrightarrow> bnd m f s = f False s'"
  by (rule bnd_Done)

lemma tx_abort_out: "not_in_tx s \<Longrightarrow> tx_abort_with put h s = Panic ''tx_abort_now: no active transaction''"
  by (simp add: tx_abort_with_def not_in_tx_def bnd_Done_False panic_def)

lemma keeps_out_modk:
  assumes "\<And>s. cur (f s) = cur s" "\<And>s p. p_tx (procs (f s) p) = p_tx (procs s p)" "\<And>s. heap (f s) = heap s"
  shows "keeps not_in_tx (modk f)"
  using assms by (intro keeps_modk) (blast intro: not_in_tx_cong)

lemma keeps_out:
  "keeps not_in_tx (acquire lk)" "keeps not_in_tx (release lk)" "keeps not_in_tx (put_sl l v)"
  "keeps not_in_tx this_proc" "keeps not_in_tx (upd_proc p (p_state_update f))" "keeps not_in_tx (upd_proc p (p_chan_update g))"
  by (auto simp: keeps_def kdefs intro: not_in_tx_cong split: option.splits slk.splits)

lemma keeps_out_wakeup: "keeps not_in_tx (wakeup ch)"
  unfolding wakeup_def wakeup_one_def myproc_def by (intro keeps_for_each) (auto intro!: keeps_out)

lemma keeps_out_sleeplocks:
  "keeps not_in_tx (acquiresleep l)" "keeps not_in_tx (releasesleep l)" "keeps not_in_tx (holdingsleep l)"
proof -
  have "keeps not_in_tx sched" unfolding sched_def holding_def
    by (auto intro!: keeps_out keeps_option simp: keeps_def [of _ "\<lambda>s. Sleep s"])
  then have "keeps not_in_tx (sleep ch lk)" for ch lk unfolding sleep_def by (auto intro!: keeps_out)
  then show "keeps not_in_tx (acquiresleep l)" unfolding acquiresleep_def get_sl_def by (auto intro!: keeps_out)
  show "keeps not_in_tx (releasesleep l)" unfolding releasesleep_def by (auto intro!: keeps_out keeps_out_wakeup)
  show "keeps not_in_tx (holdingsleep l)" unfolding holdingsleep_def get_sl_def by (auto intro!: keeps_out)
qed

lemma keeps_out_iunlock: "keeps not_in_tx (iunlock i)"
  unfolding iunlock_def get_inode_def by (auto intro!: keeps_out_sleeplocks)

lemma txdata_out: "not_in_tx s \<Longrightarrow> txdata h ro ops s = get_data_ptr h s"
  by (simp add: txdata_def not_in_tx_def bnd_Done_False)

lemma idata_with_out:
  assumes "not_in_tx s"
  shows "idata_with f ro i s = idata_with g ro i s"
proof -
  have d: "txdata (HInode i) ro InodeOps s = Done (i_data (itable s i)) s"
    using txdata_out [OF assms] by (simp add: get_data_ptr_def getk_def)
  have "sq (iunlock i) (tx_abort_with f (HInode i)) s = sq (iunlock i) (tx_abort_with g (HInode i)) s"
    using keeps_Done [OF keeps_out_iunlock assms] by (intro sq_cong_at) (simp add: tx_abort_out)
  then have "sq (whenk (d = 0) (sq (iunlock i) (tx_abort_with f (HInode i)))) (ret d) s =
      sq (whenk (d = 0) (sq (iunlock i) (tx_abort_with g (HInode i)))) (ret d) s" for d :: u64
    by (simp add: whenk_def sq_def bnd_def)
  then show ?thesis using d by (simp add: idata_with_def)
qed

lemma sq_fst_cong: "m s = m' s \<Longrightarrow> sq m k s = sq m' k s"
  by (simp add: sq_def bnd_def)

lemma iput_last_out:
  assumes "not_in_tx s"
  shows "sq (whenk l (sq (acquiresleep (SLInode i)) (sq (release ItableLock) (sq (itrunc_with f i) R)))) T s =
    sq (whenk l (sq (acquiresleep (SLInode i)) (sq (release ItableLock) (sq (itrunc_with g i) R)))) T s"
proof (cases l)
  case True
  have tr: "sq (itrunc_with f i) R s' = sq (itrunc_with g i) R s'" if "not_in_tx s'" for s'
    by (rule sq_fst_cong) (simp add: itrunc_with_def bnd_def idata_with_out [OF that, of f _ _ g])
  show ?thesis
    unfolding whenk_def
    using keeps_Done [OF keeps_out(2)] keeps_Done [OF keeps_out_sleeplocks(1) assms]
    by (simp only: True if_True) (intro sq_fst_cong sq_cong_at tr, blast)
qed (simp add: whenk_def)

lemma iput_with_any: "iput_with f i s = iput_with g i s"
  unfolding iput_with_def
proof (intro bnd_cong_at, goal_cases)
  case (1 a s1)
  have ro: "tx_active s = Done a s' \<Longrightarrow> s' = s" for a s'
    by (auto simp: kdefs split: option.splits if_splits kobj.splits)
  have out: "not_in_tx s1" if "\<not> a" using 1 ro [OF 1] that by (simp add: not_in_tx_def)
  have gi: "keeps not_in_tx (get_inode i)" "keeps not_in_tx (get_idata d)" for d
    by (auto simp: keeps_def kdefs split: option.splits kobj.splits)
  then have gl: "keeps not_in_tx (if b then bnd (get_idata d) (\<lambda>d. ret (d_nlink d = 0)) else ret False)" for b d
    by (auto intro!: keeps_bnd)
  show ?case
  proof (cases a)
    case False
    show ?thesis
      unfolding if_not_P [OF False]
    proof (rule sq_cong_at, rule bnd_cong_at, rule bnd_cong_at, rule iput_last_out)
      fix s2 ip s3 l s4
      assume "acquire ItableLock s1 = Done () s2" "get_inode i s2 = Done ip s3"
        "(if i_ref ip = 1 \<and> i_valid ip then bnd (get_idata (i_data ip)) (\<lambda>d. ret (d_nlink d = 0)) else ret False) s3 = Done l s4"
      then show "not_in_tx s4"
        using keeps_Done [OF keeps_out(1) out [OF False]] keeps_Done [OF gi(1)] keeps_Done [OF gl] by blast
    qed
  qed simp
qed

text \<open>\<open>iput\<close> satisfies the recursive equation of the source, in which an abort inside \<open>itrunc\<close> calls \<open>iput\<close> again,
  and with it \<open>idata\<close>, \<open>tx_abort_now\<close>, \<open>inode_abort\<close> and \<open>itrunc\<close> call the routine that the source calls.\<close>

lemma iput_unfold: "iput i = iput_with iput i \<and> itrunc i = itrunc_with (\<lambda>i. iput_with iput i) i"
proof
  show eq: "iput i = iput_with iput i" for i unfolding iput_def by (rule ext) (rule iput_with_any)
  show "itrunc i = itrunc_with (\<lambda>i. iput_with iput i) i" unfolding itrunc_def by (simp flip: eq)
qed

section \<open>What an abort leaves behind\<close>

lemma find_self:
  assumes "tx_wf (l_addr l) t" "j < t_workset_size t"
  shows "find_workset_entry l t (w_header (t_workset t ! j)) = Some j"
proof -
  let ?n = "t_workset_size t" and ?ws = "t_workset t"
  have wf: "ws_sorted (l_addr l) (take ?n ?ws)" "?n \<le> length ?ws" using assms(1) by (auto simp: tx_wf_def)
  have f: "found_in (\<lambda>i. ws_key (l_addr l) (?ws ! i) = l_addr l (w_header (?ws ! j))) 0 (int ?n - 1)
      (find_workset_entry l t (w_header (?ws ! j)))"
    unfolding find_workset_entry_def using wf by (intro find_loop_ok) auto
  have uniq: "i = j" if "i < ?n" "ws_key (l_addr l) (?ws ! i) = ws_key (l_addr l) (?ws ! j)" for i
    using ws_sorted_less [OF wf(1), of i j] ws_sorted_less [OF wf(1), of j i] that assms(2) wf(2)
    by (cases i j rule: linorder_cases) auto
  show ?thesis
  proof (cases "find_workset_entry l t (w_header (?ws ! j))")
    case None
    then show ?thesis using f assms(2) by (auto simp: found_in_def ws_key_def dest: spec [where x = j])
  next
    case (Some i)
    then show ?thesis using f uniq [of i] by (simp add: found_in_def ws_key_def)
  qed
qed

text \<open>The shadow pages of entries of inodes, allocated and different from each other.\<close>

definition inode_shadows :: "kstate \<Rightarrow> workset_entry list \<Rightarrow> bool" where
  "inode_shadows s es \<longleftrightarrow> distinct (map w_shadow_data es) \<and>
     (\<forall>e \<in> set es. w_ops e = InodeOps \<and> (\<exists>i. w_header e = HInode i) \<and> valid_page (lay s) (w_shadow_data e) \<and>
       (\<exists>d. heap s (w_shadow_data e) = Some (InodeData d)))"

lemma abort_entries:
  "in_tx s p tx t \<Longrightarrow> held s = {} \<Longrightarrow> kmem_wf s xs \<Longrightarrow> t_workset_size t \<le> length (t_workset t) \<Longrightarrow> i \<le> t_workset_size t \<Longrightarrow>
   inode_shadows s (drop i (take (t_workset_size t) (t_workset t))) \<Longrightarrow> t_workset_size t - i < fuel \<Longrightarrow>
   \<exists>s'. each_entry fuel i (abort_fn_with iput) s = Done () s' \<and> in_tx s' p tx t \<and> held s' = {} \<and>
     itable s' = itable s \<and> lay s' = lay s \<and>
     kmem_wf s' (rev (map w_shadow_data (drop i (take (t_workset_size t) (t_workset t)))) @ xs)"
proof (induction fuel arbitrary: i s xs)
  case (Suc fuel)
  let ?n = "t_workset_size t" and ?ws = "t_workset t"
  note tx = tx_active_in(2,3) [OF Suc.prems(1)]
  show ?case
  proof (cases "i < ?n")
    case True
    let ?e = "?ws ! i"
    have dr: "drop i (take ?n ?ws) = ?e # drop (Suc i) (take ?n ?ws)"
      using True Suc.prems(4) by (simp add: Cons_nth_drop_Suc [symmetric])
    obtain j d where e: "w_ops ?e = InodeOps" "w_header ?e = HInode j" "valid_page (lay s) (w_shadow_data ?e)"
        "heap s (w_shadow_data ?e) = Some (InodeData d)"
      using Suc.prems(6) unfolding dr inode_shadows_def by auto
    let ?s = "after_kfree s (w_shadow_data ?e)"
    have ne: "tx \<noteq> w_shadow_data ?e" using e(4) Suc.prems(1) by (auto simp: in_tx_def)
    have fr: "w_shadow_data ?e \<notin> set xs" using kmem_wf_used [OF Suc.prems(3) e(4)] by simp
    have tx': "in_tx ?s p tx t" using Suc.prems(1) ne by (simp add: in_tx_def after_kfree_def)
    have "kfree (w_shadow_data ?e) s = Done () ?s" using kfree_eq [OF e(3)] Suc.prems(2) by simp
    moreover have "w_shadow_data ?e \<noteq> 0" using e(3) by (simp add: valid_page_def)
    ultimately have ab: "abort_fn_with iput ?e s = Done () ?s"
      using e(1,2) iput_in_tx [OF tx', of "\<lambda>_. fault" j] by (simp add: abort_fn_with_def inode_abort_with_def whenk_def iput_def)
    have sh: "inode_shadows ?s (drop (Suc i) (take ?n ?ws))"
      using Suc.prems(6) unfolding dr inode_shadows_def by (auto simp: after_kfree_def) (metis image_eqI)
    have fu: "?n - Suc i < fuel" "Suc i \<le> ?n" using Suc.prems(7) True by auto
    obtain s' where s': "each_entry fuel (Suc i) (abort_fn_with iput) ?s = Done () s'" "in_tx s' p tx t" "held s' = {}"
        "itable s' = itable ?s" "lay s' = lay ?s"
        "kmem_wf s' (rev (map w_shadow_data (drop (Suc i) (take ?n ?ws))) @ w_shadow_data ?e # xs)"
      using Suc.IH [OF tx' _ kmem_wf_kfree [OF Suc.prems(3) e(3) fr] Suc.prems(4) fu(2) sh fu(1)] Suc.prems(2) by auto
    have "each_entry (Suc fuel) i (abort_fn_with iput) s = Done () s'" using tx True ab s'(1) by simp
    then show ?thesis using s' unfolding dr by auto
  next
    case False
    then have "each_entry (Suc fuel) i (abort_fn_with iput) s = Done () s" using tx by (simp add: ret_def)
    then show ?thesis using Suc.prems False by auto
  qed
qed simp

text \<open>C27. An abort in the middle of a system call (\<open>tx_abort_now\<close>) of a transaction on inodes frees all shadow pages and
  jumps out, but the transaction is still active with the same workset, no reference is dropped, and every later
  access to an object of the workset through \<open>txshadow\<close> returns a page that is on the free list.\<close>

theorem abort_keeps_freed_shadows:
  assumes tx: "in_tx s p tx t" "tx_wf (l_addr (lay s)) t" "t_undo_size t = 0" "t_kjmp_valid t"
    and s: "held s = {}" "kmem_wf s xs" "inode_shadows s (take (t_workset_size t) (t_workset t))"
  shows "\<exists>s' ys. tx_abort_now h s = LongJmp s' \<and> in_tx s' p tx t \<and> itable s' = itable s \<and> kmem_wf s' ys \<and>
    (\<forall>j < t_workset_size t. txshadow (w_header (t_workset t ! j)) ro ops s' = Done (w_shadow_data (t_workset t ! j)) s' \<and>
      w_shadow_data (t_workset t ! j) \<in> set ys)"
proof -
  let ?n = "t_workset_size t" and ?ws = "t_workset t"
  have n: "?n \<le> length ?ws" "?n < Suc MAX_WORKSET" using tx(2) by (auto simp: tx_wf_def)
  obtain s' where s': "each_entry (Suc MAX_WORKSET) 0 (abort_fn_with iput) s = Done () s'" "in_tx s' p tx t"
      "itable s' = itable s" "lay s' = lay s" "kmem_wf s' (rev (map w_shadow_data (take ?n ?ws)) @ xs)"
    using abort_entries [OF tx(1) s(1,2) n(1), of 0 "Suc MAX_WORKSET"] s(3) n(2) by (auto simp del: each_entry.simps)
  have "tx_abort_now h s = LongJmp s'"
    using tx_active_in [OF tx(1)] tx_active_in(3) [OF s'(2)] tx(3,4) s'(1)
    by (simp add: tx_abort_now_def tx_abort_with_def longjmp_def del: each_entry.simps)
  moreover have "txshadow (w_header (?ws ! j)) ro ops s' = Done (w_shadow_data (?ws ! j)) s'" if "j < ?n" for j
    using tx_active_in(2,3) [OF s'(2)] find_self [OF tx(2) that] s'(4) by (simp add: txshadow_def getk_def ret_def)
  moreover have "w_shadow_data (?ws ! j) \<in> set (rev (map w_shadow_data (take ?n ?ws)) @ xs)" if "j < ?n" for j
    using nth_mem [of j "take ?n ?ws"] that n(1) by auto
  ultimately show ?thesis using s'(2,3,5) by blast
qed

definition abort_tx :: transaction where
  "abort_tx = zero_tx\<lparr>t_status := TX_ACTIVE, t_kjmp_valid := True, t_workset_size := 1,
     t_workset := (sample_entry (HInode 0))\<lparr>w_shadow_data := PHYSTOP - 16384\<rparr> # replicate 15 empty_entry\<rparr>"

definition abort_state :: kstate where
  "abort_state = tx_state\<lparr>heap := (heap tx_state)(PHYSTOP - 12288 \<mapsto> Tx abort_tx, PHYSTOP - 16384 \<mapsto> InodeData zero_idata)\<rparr>"

lemma abort_state_ready:
  "in_tx abort_state 0 (PHYSTOP - 12288) abort_tx" "tx_wf (l_addr (lay abort_state)) abort_tx"
  "held abort_state = {}" "kmem_wf abort_state [PHYSTOP - 8192, PHYSTOP - 4096]"
  "inode_shadows abort_state (take (t_workset_size abort_tx) (t_workset abort_tx))"
  by (simp_all add: in_tx_def abort_state_def abort_tx_def tx_state_def two_free_pages_def bss_state_def kmem_wf_def
      tx_wf_def ws_sorted_def ws_key_def sample_entry_def inode_shadows_def valid_page_def zero_tx_def empty_entry_def)
    (simp_all add: sample_layout_def)

theorem abort_keeps_freed_shadows_witness:
  "\<exists>s' ys. tx_abort_now (HInode 0) abort_state = LongJmp s' \<and> kmem_wf s' ys \<and> PHYSTOP - 16384 \<in> set ys \<and>
     txshadow (HInode 0) False InodeOps s' = Done (PHYSTOP - 16384) s'"
proof -
  have t: "t_undo_size abort_tx = 0" "t_kjmp_valid abort_tx" "t_workset_size abort_tx = 1"
      "w_header (t_workset abort_tx ! 0) = HInode 0" "w_shadow_data (t_workset abort_tx ! 0) = PHYSTOP - 16384"
    by (simp_all add: abort_tx_def sample_entry_def zero_tx_def)
  show ?thesis
    using abort_keeps_freed_shadows [OF abort_state_ready(1,2) t(1,2) abort_state_ready(3-5), of "HInode 0" False InodeOps] t
    by (metis zero_less_one)
qed

section \<open>References to inodes\<close>

text \<open>Slot \<open>i\<close> of the inode table stands for inode \<open>inum\<close> of device \<open>dev\<close>. No inode has two slots.\<close>

definition caches :: "kstate \<Rightarrow> u32 \<Rightarrow> u32 \<Rightarrow> nat \<Rightarrow> bool" where
  "caches s dev inum i \<longleftrightarrow> i < NINODE \<and> 0 < i_ref (itable s i) \<and> i_dev (itable s i) = dev \<and> i_inum (itable s i) = inum"

definition itable_ok :: "kstate \<Rightarrow> bool" where
  "itable_ok s \<longleftrightarrow> (\<forall>dev inum i j. caches s dev inum i \<and> caches s dev inum j \<longrightarrow> i = j) \<and> (\<forall>i < NINODE. 0 \<le> i_ref (itable s i))"

lemma iget_scan_eq:
  "iget_scan is slot dev inum s = Done (case find (\<lambda>i. 0 < i_ref (itable s i) \<and> i_dev (itable s i) = dev \<and> i_inum (itable s i) = inum) is of
      Some i \<Rightarrow> Inl i
    | None \<Rightarrow> Inr (if slot = None then find (\<lambda>i. i_ref (itable s i) = 0) is else slot)) s"
  by (induction "is" arbitrary: slot) (auto simp: get_inode_def getk_def ret_def split: option.splits)

lemma find_caches:
  assumes "itable_ok s" "caches s dev inum i"
  shows "find (\<lambda>i. 0 < i_ref (itable s i) \<and> i_dev (itable s i) = dev \<and> i_inum (itable s i) = inum) [0..<NINODE] = Some i"
proof -
  let ?P = "\<lambda>i. 0 < i_ref (itable s i) \<and> i_dev (itable s i) = dev \<and> i_inum (itable s i) = inum"
  have "find ?P [0..<NINODE] \<noteq> None" using assms(2) unfolding find_None_iff caches_def by (auto simp del: NINODE_def)
  then obtain j where j: "find ?P [0..<NINODE] = Some j" by blast
  then have "caches s dev inum j" unfolding find_Some_iff caches_def by (auto simp del: NINODE_def)
  then show ?thesis using assms j unfolding itable_ok_def by blast
qed

abbreviation add_ref :: "nat \<Rightarrow> int \<Rightarrow> kstate \<Rightarrow> kstate" where
  "add_ref i d s \<equiv> s\<lparr>itable := (itable s)(i := (itable s i)\<lparr>i_ref := i_ref (itable s i) + d\<rparr>)\<rparr>"

lemma itable_ok_add_ref:
  assumes "itable_ok s" "caches s dev inum i" "0 \<le> i_ref (itable s i) + d"
  shows "itable_ok (add_ref i d s)"
proof -
  have "caches s a b j" if "caches (add_ref i d s) a b j" for a b j
    using that assms(2) by (auto simp: caches_def split: if_splits)
  then have "\<forall>a b j k. caches (add_ref i d s) a b j \<and> caches (add_ref i d s) a b k \<longrightarrow> j = k"
    using assms(1) unfolding itable_ok_def by blast
  moreover have "\<forall>j < NINODE. 0 \<le> i_ref (itable (add_ref i d s) j)" using assms(1,3) by (simp add: itable_ok_def)
  ultimately show ?thesis unfolding itable_ok_def by blast
qed

lemma inode_updates: "i_ref_update f ip = ip\<lparr>i_ref := f (i_ref ip)\<rparr>" "i_xobj_update g ip = ip\<lparr>i_xobj := g (i_xobj ip)\<rparr>"
  by (auto intro!: inode.equality)

lemma iget_hit:
  assumes "itable_ok s" "caches s dev inum i" "held s = {}"
  shows "iget dev inum s = Done i (add_ref i 1 s)"
proof -
  have "s\<lparr>itable := (itable s)(i := i_ref_update (\<lambda>r. r + 1) (itable s i)), held := {}\<rparr> = add_ref i 1 s"
    using assms(3) by (auto simp: inode_updates(1) [of "\<lambda>r. r + 1"] intro!: kstate.equality)
  then show ?thesis
    using assms(3) find_caches [OF assms(1,2)] by (simp add: iget_def iget_scan_eq kdefs del: NINODE_def)
qed

lemma iget_miss:
  assumes "\<nexists>i. caches s dev inum i"
  shows "find (\<lambda>i. 0 < i_ref (itable s i) \<and> i_dev (itable s i) = dev \<and> i_inum (itable s i) = inum) [0..<NINODE] = None"
  using assms unfolding find_None_iff caches_def by (auto simp del: NINODE_def)

text \<open>A slot that is recycled for an inode that has none.\<close>

lemma itable_ok_fresh:
  assumes ok: "itable_ok s" "\<nexists>i. caches s dev inum i" "\<forall>j. j \<noteq> i \<longrightarrow> itable s' j = itable s j"
    and i: "i_ref (itable s' i) = 1" "i_dev (itable s' i) = dev" "i_inum (itable s' i) = inum"
  shows "itable_ok s'"
proof -
  have old: "caches s a b j" if "caches s' a b j" "j \<noteq> i" for a b j using that ok(3) by (simp add: caches_def)
  have new: "a = dev \<and> b = inum" if "caches s' a b i" for a b using that i by (simp add: caches_def)
  have "j = k" if "caches s' a b j" "caches s' a b k" for a b j k
    using old [OF that(1)] old [OF that(2)] new that ok(1,2) unfolding itable_ok_def by (cases "j = i"; cases "k = i") blast+
  moreover have "0 \<le> i_ref (itable s' j)" if "j < NINODE" for j
    using that ok(1,3) i(1) by (cases "j = i") (simp_all add: itable_ok_def)
  ultimately show ?thesis unfolding itable_ok_def by blast
qed

lemma iget_new:
  assumes ok: "itable_ok s" "\<nexists>i. caches s dev inum i" "held s = {}" "kmem_wf s (x # xs)"
    and f: "find (\<lambda>i. i_ref (itable s i) = 0) [0..<NINODE] = Some i"
  shows "\<exists>s'. iget dev inum s = Done i s' \<and> (\<forall>j. j \<noteq> i \<longrightarrow> itable s' j = itable s j) \<and> held s' = {} \<and>
    i_ref (itable s' i) = 1 \<and> i_dev (itable s' i) = dev \<and> i_inum (itable s' i) = inum \<and> \<not> i_valid (itable s' i) \<and> i_data (itable s' i) \<noteq> 0"
proof -
  let ?s0 = "s\<lparr>held := {ItableLock}\<rparr>" and ?ip = "(itable s i)\<lparr>i_dev := dev, i_inum := inum, i_ref := 1, i_valid := False\<rparr>"
  let ?s1 = "?s0\<lparr>itable := (itable s)(i := ?ip)\<rparr>"
  have "\<exists>xo. initxobj (HInode i) ?s1 = Done () (?s0\<lparr>itable := (itable s)(i := ?ip\<lparr>i_xobj := xo\<rparr>)\<rparr>)"
    by (rule exI [of _ "(i_xobj (itable s i))\<lparr>xo_writer := 0, xo_reader_count := 0\<rparr>"])
      (auto simp: kdefs comp_def inode_updates(2) [of "\<lambda>x. x\<lparr>xo_writer := 0, xo_reader_count := 0\<rparr>"] intro!: kstate.equality)
  then obtain xo where xo: "initxobj (HInode i) ?s1 = Done () (?s0\<lparr>itable := (itable s)(i := ?ip\<lparr>i_xobj := xo\<rparr>)\<rparr>)" by blast
  let ?s2 = "?s0\<lparr>itable := (itable s)(i := ?ip\<lparr>i_xobj := xo\<rparr>)\<rparr>"
  have a: "acquire ItableLock s = Done () ?s0" "upd_inode i (\<lambda>ip. ip\<lparr>i_dev := dev, i_inum := inum, i_ref := 1, i_valid := False\<rparr>) ?s0 = Done () ?s1"
    using ok(3) by (simp_all add: kdefs)
  have sc: "iget_scan [0..<NINODE] None dev inum ?s0 = Done (Inr (Some i)) ?s0"
    using f iget_miss [OF ok(2)] by (simp add: iget_scan_eq)
  have "kmem_wf ?s2 (x # xs)" using ok(4) by (rule kmem_wf_cong) simp_all
  then obtain n where k: "kalloc ?s2 = Done x (after_kalloc ?s2 x n)" using kalloc_some [of ?s2 x xs] by auto
  have x: "x \<noteq> 0" using ok(4) by (auto simp: kmem_wf_def valid_page_def)
  have u: "upd_inode i (i_data_update (\<lambda>_. x)) t = Done () (t\<lparr>itable := (itable t)(i := (itable t i)\<lparr>i_data := x\<rparr>)\<rparr>)" for t
    by (simp add: upd_inode_def modk_def)
  have r: "release ItableLock t = Done () (t\<lparr>held := {}\<rparr>)" if "held t = {ItableLock}" for t
    using that by (simp add: kdefs)
  have p: "put_obj x ob t = Done () (t\<lparr>heap := (heap t)(x \<mapsto> ob)\<rparr>)" if "heap t x = Some (Bytes g)" for ob t g
    using that by (simp add: put_obj_def)
  show ?thesis
    unfolding iget_def
    using x
    by (cases "i_data (itable s i) = 0") (simp_all add: a sc xo k u p r get_inode_def getk_def ret_def whenk_def del: NINODE_def)
qed

lemma bnd_tx_active: "not_in_tx s \<Longrightarrow> bnd tx_active f s = f False s"
  by (simp add: not_in_tx_def)

lemma iput_shared:
  assumes "not_in_tx s" "held s = {}"
    and "i_ref (itable s i) = 1 \<and> i_valid (itable s i) \<longrightarrow> (\<exists>d. heap s (i_data (itable s i)) = Some (InodeData d) \<and> d_nlink d \<noteq> 0)"
  shows "iput i s = Done () (add_ref i (-1) s)"
proof -
  have "s\<lparr>itable := (itable s)(i := i_ref_update (\<lambda>r. r - 1) (itable s i)), held := {}\<rparr> = add_ref i (-1) s"
    using assms(2) by (auto simp: inode_updates(1) [of "\<lambda>r. r - 1"] intro!: kstate.equality)
  then show ?thesis
    using assms(2,3) unfolding iput_def iput_with_def bnd_tx_active [OF assms(1)] if_False by (auto simp: kdefs)
qed


definition itable_sample :: kstate where
  "itable_sample = two_free_pages\<lparr>cur := Some 0, itable := (itable two_free_pages)(3 := (itable two_free_pages 3)\<lparr>i_dev := 1, i_inum := 5, i_ref := 2\<rparr>)\<rparr>"

lemma itable_sample:
  "itable_ok itable_sample" "held itable_sample = {}" "kmem_wf itable_sample [PHYSTOP - 8192, PHYSTOP - 4096]"
  "caches itable_sample 1 5 3" "\<nexists>i. caches itable_sample 1 6 i" "i_ref (itable itable_sample 0) = 0" "not_in_tx itable_sample"
  by (auto simp: itable_ok_def caches_def itable_sample_def two_free_pages_def bss_state_def kmem_wf_def not_in_tx_def kdefs valid_page_def
    sample_layout_def zero_inode_def zero_proc_def split: if_splits)




end
