(* ===== verification/Console.thy ===== *)
theory Console
  imports Inode Printf
begin

text \<open>
  The serial port driver \<open>uart.c\<close> and the console \<open>console.c\<close>, with \<open>procdump\<close> of \<open>proc.c\<close>, which the console
  calls.

  The device is the part of the state called \<open>uart\<close>: a byte written to the transmit register is appended to
  \<open>u_sent\<close>, the receive register delivers the bytes of \<open>u_rx\<close>. The loop that spins until the transmit register
  is empty ends, since the device empties it. \<open>uartwrite\<close> and \<open>consoleread\<close> may sleep; what they do when they
  are woken up is \<open>uartwrite_resume\<close> and \<open>consoleread_resume\<close>.
\<close>

section \<open>The serial port\<close>

definition upd_uart :: "(kuart \<Rightarrow> kuart) \<Rightarrow> unit K" where
  [kdefs]: "upd_uart f = modk (\<lambda>s. s\<lparr>uart := f (uart s)\<rparr>)"

definition WriteReg :: "nat \<Rightarrow> u8 \<Rightarrow> unit K" where
  [kdefs]: "WriteReg reg v = upd_uart (u_regs_update (\<lambda>l. l @ [(reg, v)]))"

definition WriteTHR :: "u8 \<Rightarrow> unit K" where
  [kdefs]: "WriteTHR v = upd_uart (u_sent_update (\<lambda>l. l @ [v]))"

definition uartinit :: "unit K" where
  [kdefs]: "uartinit =
    sq (WriteReg 1 0x00)
    (sq (WriteReg 3 0x80)
    (sq (WriteReg 0 0x03)
    (sq (WriteReg 1 0x00)
    (sq (WriteReg 3 0x03)
    (sq (WriteReg 2 0x07)
    (sq (WriteReg 1 0x03)
    (initlock UartLock)))))))"

fun uartwrite_loop :: "u8 list \<Rightarrow> unit K" where
  "uartwrite_loop [] = release UartLock"
| "uartwrite_loop (c # cs) =
  bnd (getk (\<lambda>s. u_tx_busy (uart s))) (\<lambda>busy.
  if busy then sleep ChUart UartLock
    else sq (WriteTHR c)
      (sq (upd_uart (u_tx_busy_update (\<lambda>_. True)))
      (uartwrite_loop cs)))"

definition uartwrite :: "u8 list \<Rightarrow> unit K" where
  "uartwrite buf =
    sq (acquire UartLock)
    (uartwrite_loop buf)"

definition uartwrite_resume :: "u8 list \<Rightarrow> unit K" where
  "uartwrite_resume buf =
    sq (sleep_resume UartLock)
    (uartwrite_loop buf)"

definition uartputc_sync :: "u32 \<Rightarrow> unit K" where
  [kdefs]: "uartputc_sync c = WriteTHR (ucast c)"

definition uartgetc :: "int K" where
  [kdefs]: "uartgetc =
    bnd (getk (\<lambda>s. u_rx (uart s))) (\<lambda>rx.
    case rx of
        [] \<Rightarrow> ret (-1)
      | c # cs \<Rightarrow> sq (upd_uart (u_rx_update (\<lambda>_. cs)))
        (ret (uint c)))"

section \<open>The console\<close>

definition consputc :: "u32 \<Rightarrow> unit K" where
  [kdefs]: "consputc c =
    (if c = BACKSPACE then sq (uartputc_sync 0x08)
      (sq (uartputc_sync 0x20)
      (uartputc_sync 0x08))
     else uartputc_sync c)"

definition INPUT_BUF_SIZE :: nat where
  [simp]: "INPUT_BUF_SIZE = 128"

definition upd_cons :: "(kcons \<Rightarrow> kcons) \<Rightarrow> unit K" where
  [kdefs]: "upd_cons f = modk (\<lambda>s. s\<lparr>cons := f (cons s)\<rparr>)"

definition cons_at :: "kcons \<Rightarrow> u32 \<Rightarrow> u8" where
  "cons_at c i = c_buf c ! (unat i mod INPUT_BUF_SIZE)"

text \<open>The loop of \<open>consolewrite\<close> with \<open>n\<close> bytes to go; each round moves one of them at least.\<close>

fun consolewrite_loop :: "nat \<Rightarrow> wsrc \<Rightarrow> int \<Rightarrow> int \<Rightarrow> int K" where
  "consolewrite_loop 0 src i n = fault"
| "consolewrite_loop (Suc fuel) src i n =
    (if i < n then (let nn = min 32 (n - i) in
      bnd (either_copyin (wsrc_advance (nat i) src) (nat nn)) (\<lambda>r.
      if fst r = -1 then ret i else
      sq (uartwrite (snd r))
      (consolewrite_loop fuel src (i + nn) n)))
     else ret i)"

definition consolewrite :: "wsrc \<Rightarrow> int \<Rightarrow> int K" where
  "consolewrite src n = consolewrite_loop (nat n + 1) src 0 n"

text \<open>The loop of \<open>consoleread\<close> with \<open>n\<close> bytes to go of \<open>target\<close>.\<close>

fun consoleread_loop :: "nat \<Rightarrow> nat \<Rightarrow> u64 option \<Rightarrow> int K" where
  "consoleread_loop 0 target dst =
    sq (release ConsLock)
    (ret (int target))"
| "consoleread_loop (Suc n) target dst =
  bnd (getk cons) (\<lambda>c.
  if c_r c = c_w c then bnd this_proc (\<lambda>p.
    bnd (killed p) (\<lambda>k.
    if k then sq (release ConsLock)
      (ret (-1))
      else sq (sleep ChConsR ConsLock)
        (ret 0)))
    else (let ch = cons_at c (c_r c) in
      sq (upd_cons (c_r_update (\<lambda>r. r + 1)))
      (if ch = 4 then sq (whenk (Suc n < target) (upd_cons (c_r_update (\<lambda>r. r - 1))))
        (sq (release ConsLock)
        (ret (int target - int (Suc n))))
        else bnd (either_copyout dst [ch]) (\<lambda>r.
          if r = -1 then sq (release ConsLock)
            (ret (int target - int (Suc n)))
            else if ch = 10 then sq (release ConsLock)
              (ret (int target - int n))
            else consoleread_loop n target (map_option (\<lambda>a. a + 1) dst)))))"

definition consoleread :: "u64 option \<Rightarrow> int \<Rightarrow> int K" where
  "consoleread dst n =
    sq (acquire ConsLock)
    (if n > 0 then consoleread_loop (nat n) (nat n) dst
      else sq (release ConsLock)
        (ret 0))"

definition consoleread_resume :: "nat \<Rightarrow> nat \<Rightarrow> u64 option \<Rightarrow> int K" where
  "consoleread_resume n target dst =
    sq (sleep_resume ConsLock)
    (consoleread_loop n target dst)"

definition state_name :: "procstate \<Rightarrow> string" where
  "state_name st = (case st of UNUSED \<Rightarrow> ''unused'' | USED \<Rightarrow> ''used'' | SLEEPING \<Rightarrow> ''sleep ''
     | RUNNABLE \<Rightarrow> ''runble'' | RUNNING \<Rightarrow> ''run   '' | ZOMBIE \<Rightarrow> ''zombie'')"

definition procdump :: "unit K" where
  "procdump =
    sq (printk NL [])
    (for_each [0..<NPROC] (\<lambda>i. bnd (getk (\<lambda>s. procs s i)) (\<lambda>p.
      whenk (p_state p \<noteq> UNUSED) (sq (printk ''%d %s %s'' [PInt (word_of_int (p_pid p)), PStr (Some (bytes_of (state_name (p_state p)))),
          PStr (Some (p_name p))])
        (printk NL [])))))"

text \<open>Control-U: the line that is being edited is erased, back to the last newline or to \<open>w\<close>.\<close>

fun kill_line :: "nat \<Rightarrow> unit K" where
  "kill_line 0 = ret ()"
| "kill_line (Suc n) =
  bnd (getk cons) (\<lambda>c.
  if c_e c \<noteq> c_w c \<and> cons_at c (c_e c - 1) \<noteq> 10 then sq (upd_cons (c_e_update (\<lambda>e. e - 1)))
    (sq (consputc BACKSPACE)
    (kill_line n))
    else ret ())"

definition consoleintr :: "int \<Rightarrow> unit K" where
  "consoleintr ch =
    sq (acquire ConsLock)
    (bnd (getk cons) (\<lambda>c.
    sq (if ch = 16 then procdump
      else if ch = 21 then kill_line (unat (c_e c - c_w c))
      else if ch = 8 \<or> ch = 127 then
        whenk (c_e c \<noteq> c_w c) (sq (upd_cons (c_e_update (\<lambda>e. e - 1)))
          (consputc BACKSPACE))
      else
        whenk (ch \<noteq> 0 \<and> c_e c - c_r c < of_nat INPUT_BUF_SIZE) ((let ch = (if ch = 13 then 10 else ch) in
          sq (consputc (word_of_int ch))
          (sq (upd_cons (\<lambda>c. c\<lparr>c_buf := (c_buf c)[unat (c_e c) mod INPUT_BUF_SIZE := word_of_int ch], c_e := c_e c + 1\<rparr>))
          (bnd (getk cons) (\<lambda>c.
          whenk (ch = 10 \<or> ch = 4 \<or> c_e c - c_r c = of_nat INPUT_BUF_SIZE) (sq (upd_cons (\<lambda>c. c\<lparr>c_w := c_e c\<rparr>))
            (wakeup ChConsR))))))))
    (release ConsLock)))"

definition consoleinit :: "unit K" where
  "consoleinit =
    sq (initlock ConsLock)
    (sq uartinit
    (modk (\<lambda>s. s\<lparr>devsw := (devsw s)(1 := True)\<rparr>)))"

section \<open>The interrupt\<close>

fun uart_drain :: "nat \<Rightarrow> unit K" where
  "uart_drain 0 = fault"
| "uart_drain (Suc n) =
  bnd uartgetc (\<lambda>c.
  if c = -1 then ret () else
  sq (consoleintr c)
  (uart_drain n))"

definition uartintr :: "unit K" where
  "uartintr =
    sq (acquire UartLock)
    (bnd (getk (\<lambda>s. u_tx_idle (uart s))) (\<lambda>idle.
    sq (whenk idle (sq (upd_uart (u_tx_busy_update (\<lambda>_. False)))
      (wakeup ChUart)))
    (sq (release UartLock)
    (bnd (getk (\<lambda>s. length (u_rx (uart s)))) (\<lambda>n.
    uart_drain (n + 1))))))"

end
