(* ===== verification/Dir.thy ===== *)
theory Dir
  imports Inode Strings
begin

text \<open>
  Directories and path names, the second half of \<open>fs.c\<close>.

  A path is the list of its bytes without the NUL, and so is a name; the buffer of \<open>DIRSIZ\<close> bytes that holds a
  name is not terminated when the name fills it. \<open>skipelem\<close> returns the name and the rest of the path, \<open>None\<close>
  for the null pointer. A directory entry is 16 bytes: the inode number and the name.
\<close>

section \<open>Operations\<close>

definition nth_or_0 :: "u8 list \<Rightarrow> nat \<Rightarrow> u8" where
  "nth_or_0 xs i = (if i < length xs then xs ! i else 0)"

text \<open>Two character arrays, each followed by NUL bytes, at different places in memory.\<close>

definition two_arrays :: "u8 list \<Rightarrow> u8 list \<Rightarrow> mem" where
  "two_arrays xs ys = (\<lambda>a. if a < 1000 then nth_or_0 xs a else nth_or_0 ys (a - 1000))"

definition namecmp :: "u8 list \<Rightarrow> u8 list \<Rightarrow> int" where
  "namecmp s t = strncmp 0 1000 DIRSIZ (two_arrays s t)"

definition de_inum :: "u8 list \<Rightarrow> u16" where
  "de_inum de = of_le (bslice 0 2 de)"

definition de_name :: "u8 list \<Rightarrow> u8 list" where
  "de_name de = bslice 2 DIRSIZ de"

text \<open>\<open>strncpy(de.name, name, DIRSIZ)\<close> and \<open>de.inum = inum\<close>.\<close>

definition make_dirent :: "u8 list \<Rightarrow> u32 \<Rightarrow> u8 list" where
  "make_dirent name inum = to_le 2 (ucast inum :: u16) @ map (strncpy 1000 0 DIRSIZ (two_arrays name [])) [1000..<1000 + DIRSIZ]"

fun dirlookup_loop :: "nat \<Rightarrow> nat \<Rightarrow> u64 \<Rightarrow> u8 list \<Rightarrow> u32 \<Rightarrow> (nat \<times> u32) option K" where
  "dirlookup_loop 0 dp d name off = fault"
| "dirlookup_loop (Suc n) dp d name off =
  bnd (get_idata d) (\<lambda>x.
  if off < d_size x then bnd (readi dp None off (of_nat DIRENT_SIZE)) (\<lambda>r.
    if fst r \<noteq> int DIRENT_SIZE then panic ''dirlookup read'' else
    if de_inum (snd r) \<noteq> 0 \<and> namecmp name (de_name (snd r)) = 0 then bnd (get_inode dp) (\<lambda>ip.
      bnd (iget (i_dev ip) (ucast (de_inum (snd r)))) (\<lambda>i.
      ret (Some (i, off))))
      else dirlookup_loop n dp d name (off + of_nat DIRENT_SIZE))
    else ret None)"

definition dirlookup :: "nat \<Rightarrow> u8 list \<Rightarrow> (nat \<times> u32) option K" where
  "dirlookup dp name =
    bnd (idata dp) (\<lambda>d.
    bnd (get_idata d) (\<lambda>x.
    if d_type x \<noteq> T_DIR then panic ''dirlookup not DIR'' else
    dirlookup_loop (unat (d_size x) div DIRENT_SIZE + 2) dp d name 0))"

text \<open>The offset of the first free entry, or the end of the directory.\<close>

fun dirlink_slot :: "nat \<Rightarrow> nat \<Rightarrow> u64 \<Rightarrow> u32 \<Rightarrow> u32 K" where
  "dirlink_slot 0 dp d off = fault"
| "dirlink_slot (Suc n) dp d off =
  bnd (get_idata d) (\<lambda>x.
  if off < d_size x then bnd (readi dp None off (of_nat DIRENT_SIZE)) (\<lambda>r.
    if fst r \<noteq> int DIRENT_SIZE then panic ''dirlink read'' else
    if de_inum (snd r) = 0 then ret off else
    dirlink_slot n dp d (off + of_nat DIRENT_SIZE))
    else ret off)"

definition dirlink :: "nat \<Rightarrow> u8 list \<Rightarrow> u32 \<Rightarrow> int K" where
  "dirlink dp name inum =
    bnd (dirlookup dp name) (\<lambda>r.
    case r of
        Some (i, off) \<Rightarrow> sq (iput i)
          (ret (-1))
      | None \<Rightarrow> bnd (idata dp) (\<lambda>d.
        bnd (get_idata d) (\<lambda>x.
        bnd (dirlink_slot (unat (d_size x) div DIRENT_SIZE + 2) dp d 0) (\<lambda>off.
        bnd (writei dp (KSrc (make_dirent name inum)) off (of_nat DIRENT_SIZE)) (\<lambda>w.
        ret (if w \<noteq> int DIRENT_SIZE then -1 else 0))))))"

section \<open>Paths\<close>

definition slash :: u8 where
  [simp]: "slash = 0x2f"

definition skipelem :: "u8 list \<Rightarrow> (u8 list \<times> u8 list) option" where
  "skipelem path =
    (let path = dropWhile (\<lambda>c. c = slash) path in
     if path = [] then None
     else let s = takeWhile (\<lambda>c. c \<noteq> slash) path;
              path = dropWhile (\<lambda>c. c \<noteq> slash) path in
          Some (if length s \<ge> DIRSIZ then take DIRSIZ s else s, dropWhile (\<lambda>c. c = slash) path))"

text \<open>The loop of \<open>namex\<close> with the current inode; its fuel exceeds the length of the path. The result is the
  inode and the last name copied.\<close>

fun namex_loop :: "nat \<Rightarrow> nat \<Rightarrow> u8 list \<Rightarrow> bool \<Rightarrow> u8 list \<Rightarrow> (nat \<times> u8 list) option K" where
  "namex_loop 0 i path nameiparent name = fault"
| "namex_loop (Suc n) i path nameiparent name =
    (case skipelem path of
       None \<Rightarrow> if nameiparent then sq (iput i)
         (ret None) else ret (Some (i, name))
     | Some (name, path) \<Rightarrow> sq (ilock i)
       (bnd (idata i) (\<lambda>d.
       bnd (get_idata d) (\<lambda>x.
       if d_type x \<noteq> T_DIR then (bnd (idata_ro i) (\<lambda>_.
         sq (iunlockput i)
         (ret None))) else
       if nameiparent \<and> path = [] then (sq (iunlock i)
         (ret (Some (i, name)))) else
       bnd (dirlookup i name) (\<lambda>r.
       case r of
           None \<Rightarrow> bnd (idata_ro i) (\<lambda>_.
             sq (iunlockput i)
             (ret None))
         | Some (nxt, off) \<Rightarrow> bnd (idata_ro i) (\<lambda>_.
           sq (iunlockput i)
           (namex_loop n nxt path nameiparent name)))))))"

definition namex :: "u8 list \<Rightarrow> bool \<Rightarrow> (nat \<times> u8 list) option K" where
  "namex path nameiparent =
    bnd (if path \<noteq> [] \<and> hd path = slash then iget ROOTDEV ROOTINO
      else bnd this_proc (\<lambda>p.
        bnd (getk (\<lambda>s. p_cwd (procs s p))) (\<lambda>cwd.
        case cwd of None \<Rightarrow> fault | Some c \<Rightarrow> idup c))) (\<lambda>i.
    namex_loop (length path + 1) i path nameiparent [])"

definition namei :: "u8 list \<Rightarrow> nat option K" where
  "namei path =
    bnd (namex path False) (\<lambda>r.
    ret (map_option fst r))"

definition nameiparent :: "u8 list \<Rightarrow> (nat \<times> u8 list) option K" where
  "nameiparent path = namex path True"

end
