(* ===== verification/File.thy ===== *)
theory File
  imports Pipe Console Dir
begin

text \<open>
  Open files, \<open>file.c\<close>, with \<open>pipealloc\<close> of \<open>pipe.c\<close>.

  A \<open>struct file *\<close> is an index of \<open>ftable\<close>. The only functions ever installed in the device switch are
  \<open>consoleread\<close> and \<open>consolewrite\<close>. \<open>pad\<close> are the four padding bytes of \<open>struct stat\<close>, which the source leaves
  uninitialised.
\<close>

section \<open>Operations\<close>

definition get_file :: "nat \<Rightarrow> kfile K" where
  [kdefs]: "get_file f = getk (\<lambda>s. ftable s f)"

definition fileinit :: "unit K" where
  [kdefs]: "fileinit = initlock FtableLock"

fun filealloc_scan :: "nat list \<Rightarrow> nat option K" where
  "filealloc_scan [] = ret None"
| "filealloc_scan (i # is) =
  bnd (get_file i) (\<lambda>f.
  if f_ref f = 0 then sq (upd_file i (f_ref_update (\<lambda>_. 1)))
    (ret (Some i))
    else filealloc_scan is)"

definition filealloc :: "nat option K" where
  "filealloc =
    sq (acquire FtableLock)
    (bnd (filealloc_scan [0..<NFILE]) (\<lambda>r.
    sq (release FtableLock)
    (ret r)))"

definition filedup :: "nat \<Rightarrow> nat K" where
  [kdefs]: "filedup i =
    sq (acquire FtableLock)
    (bnd (get_file i) (\<lambda>f.
    if f_ref f < 1 then panic ''filedup'' else
    sq (upd_file i (f_ref_update (\<lambda>r. r + 1)))
    (sq (release FtableLock)
    (ret i))))"

definition the_ip :: "nat option \<Rightarrow> nat K" where
  [kdefs]: "the_ip ip = (case ip of None \<Rightarrow> fault | Some i \<Rightarrow> ret i)"

definition fileclose :: "nat \<Rightarrow> unit K" where
  "fileclose i =
    sq (acquire FtableLock)
    (bnd (get_file i) (\<lambda>f.
    if f_ref f < 1 then panic ''fileclose'' else
    sq (upd_file i (f_ref_update (\<lambda>r. r - 1)))
    (if f_ref f - 1 > 0 then release FtableLock
      else bnd (get_file i) (\<lambda>ff.
        sq (upd_file i (\<lambda>f. f\<lparr>f_ref := 0, f_type := FD_NONE\<rparr>))
        (sq (release FtableLock)
        (if f_type ff = FD_PIPE then pipeclose (f_pipe ff) (f_writable ff)
          else whenk (f_type ff = FD_INODE \<or> f_type ff = FD_DEVICE) (sq begin_op
            (bnd (the_ip (f_ip ff)) (\<lambda>ip.
            sq (iput ip)
            end_op)))))))))"

definition stat_bytes :: "u8 list \<Rightarrow> kstat \<Rightarrow> u8 list" where
  "stat_bytes pad st = to_le 4 (st_dev st) @ to_le 4 (st_ino st) @ to_le 2 (st_type st) @ to_le 2 (st_nlink st) @
     pad @ to_le 8 (st_size st)"

definition filestat :: "u8 list \<Rightarrow> nat \<Rightarrow> u64 \<Rightarrow> int K" where
  "filestat pad i addr =
    bnd this_proc (\<lambda>p.
    bnd (get_file i) (\<lambda>f.
    if f_type f = FD_INODE \<or> f_type f = FD_DEVICE then bnd (the_ip (f_ip f)) (\<lambda>ip.
      sq (ilock ip)
      (bnd (stati ip) (\<lambda>st.
      sq (iunlock ip)
      (bnd (getk (\<lambda>s. p_pagetable (procs s p))) (\<lambda>pt.
      bnd (copyout pt addr (stat_bytes pad st)) (\<lambda>r.
      ret (if r < 0 then -1 else 0)))))))
      else ret (-1)))"

definition has_device :: "u16 \<Rightarrow> bool K" where
  [kdefs]: "has_device major =
    (if sint major < 0 \<or> sint major \<ge> NDEV then ret False else getk (\<lambda>s. devsw s (unat major)))"

definition fileread :: "nat \<Rightarrow> u64 \<Rightarrow> int \<Rightarrow> int K" where
  "fileread i addr n =
    bnd (get_file i) (\<lambda>f.
    if \<not> f_readable f then ret (-1) else
    case f_type f of
        FD_PIPE \<Rightarrow> piperead (f_pipe f) addr n
      | FD_DEVICE \<Rightarrow> bnd (has_device (f_major f)) (\<lambda>ok.
        if \<not> ok then ret (-1) else consoleread (Some addr) n)
      | FD_INODE \<Rightarrow> bnd (the_ip (f_ip f)) (\<lambda>ip.
        sq (ilock ip)
        (bnd (get_file i) (\<lambda>f.
        bnd (readi ip (Some addr) (f_off f) (word_of_int n)) (\<lambda>r.
        sq (whenk (fst r > 0) (upd_file i (f_off_update (\<lambda>x. x + word_of_int (fst r)))))
        (sq (iunlock ip)
        (ret (fst r)))))))
      | FD_NONE \<Rightarrow> panic ''fileread'')"

definition write_max :: int where
  "write_max = (int MAXOPBLOCKS - 1 - 1 - 2) div 2 * int BSIZE"

fun filewrite_loop :: "nat \<Rightarrow> nat \<Rightarrow> u64 \<Rightarrow> int \<Rightarrow> int \<Rightarrow> int K" where
  "filewrite_loop 0 f addr i n = fault"
| "filewrite_loop (Suc fuel) f addr i n =
    (if i < n then (let n1 = min (n - i) write_max in
      sq begin_op
      (bnd (get_file f) (\<lambda>fl.
      bnd (the_ip (f_ip fl)) (\<lambda>ip.
      sq (ilock ip)
      (bnd (get_file f) (\<lambda>fl.
      bnd (writei ip (USrc (addr + word_of_int i)) (f_off fl) (word_of_int n1)) (\<lambda>r.
      sq (whenk (r > 0) (upd_file f (f_off_update (\<lambda>x. x + word_of_int r))))
      (sq (iunlock ip)
      (sq end_op
      (if r \<noteq> n1 then ret i else
      filewrite_loop fuel f addr (i + r) n))))))))))
     else ret i)"

definition filewrite :: "nat \<Rightarrow> u64 \<Rightarrow> int \<Rightarrow> int K" where
  "filewrite i addr n =
    bnd (get_file i) (\<lambda>f.
    if \<not> f_writable f then ret (-1) else
    case f_type f of
        FD_PIPE \<Rightarrow> pipewrite (f_pipe f) addr n
      | FD_DEVICE \<Rightarrow> bnd (has_device (f_major f)) (\<lambda>ok.
        if \<not> ok then ret (-1) else consolewrite (USrc addr) n)
      | FD_INODE \<Rightarrow> bnd (filewrite_loop (nat n + 1) i addr 0 n) (\<lambda>k.
        ret (if k = n then n else -1))
      | FD_NONE \<Rightarrow> panic ''filewrite'')"

section \<open>Creating a pipe\<close>

definition close_opt :: "nat option \<Rightarrow> unit K" where
  [kdefs]: "close_opt f = (case f of None \<Rightarrow> ret () | Some i \<Rightarrow> fileclose i)"

text \<open>The label \<open>bad\<close>. The page is never freed there, since nothing can fail after its allocation.\<close>

definition pipealloc :: "(nat \<times> nat) option K" where
  "pipealloc =
    bnd filealloc (\<lambda>f0.
    bnd (if f0 = None then ret None else filealloc) (\<lambda>f1.
    bnd (if f0 = None \<or> f1 = None then ret 0 else kalloc) (\<lambda>pi.
    case (f0, f1) of
        (Some r, Some w) \<Rightarrow>
          if pi = 0 then sq (fileclose r)
            (sq (fileclose w)
            (ret None))
          else sq (put_obj pi (Pipe \<lparr>pi_data = replicate PIPESIZE 5, pi_nread = 0, pi_nwrite = 0,
              pi_readopen = True, pi_writeopen = True\<rparr>))
            (sq (initlock (PipeLock pi))
            (sq (upd_file r (\<lambda>f. f\<lparr>f_type := FD_PIPE, f_readable := True, f_writable := False, f_pipe := pi\<rparr>))
            (sq (upd_file w (\<lambda>f. f\<lparr>f_type := FD_PIPE, f_readable := False, f_writable := True, f_pipe := pi\<rparr>))
            (ret (Some (r, w))))))
      | _ \<Rightarrow> sq (close_opt f0)
        (sq (close_opt f1)
        (ret None)))))"

end
