(* ===== verification/Proc.thy ===== *)
theory Proc
  imports File
begin

text \<open>
  Processes, the rest of \<open>proc.c\<close>: the process table, \<open>fork\<close>, \<open>exit\<close>, \<open>wait\<close> and the choice of the
  scheduler. The saved kernel context of a process (\<open>p->context\<close>) is not part of the state: a process that
  gives up the CPU ends the run with \<open>Sleep\<close>. \<open>kwait_resume\<close> is \<open>kwait\<close> from the return of \<open>sleep\<close> on.

  A null \<open>struct proc *\<close> is \<open>None\<close>. A sleeping process has a channel, so that \<open>wakeup(0)\<close> wakes nobody
  (\<open>wakeup_opt\<close>).
\<close>

section \<open>The process table\<close>

definition get_proc :: "nat \<Rightarrow> proc K" where
  [kdefs]: "get_proc i = getk (\<lambda>s. procs s i)"

definition wakeup_opt :: "nat option \<Rightarrow> unit K" where
  [kdefs]: "wakeup_opt p = (case p of None \<Rightarrow> ret () | Some i \<Rightarrow> wakeup (ChProc i))"

definition procinit :: "unit K" where
  "procinit =
    sq (initlock PidLock)
    (sq (initlock WaitLock)
    (for_each [0..<NPROC] (\<lambda>i. sq (initlock (ProcLock i))
      (upd_proc i (\<lambda>p. p\<lparr>p_state := UNUSED, p_kstack := KSTACK i\<rparr>)))))"

definition allocpid :: "int K" where
  [kdefs]: "allocpid =
    sq (acquire PidLock)
    (bnd (getk nextpid) (\<lambda>pid.
    sq (modk (\<lambda>s. s\<lparr>nextpid := nextpid s + 1\<rparr>))
    (sq (release PidLock)
    (ret pid))))"

definition proc_pagetable :: "nat \<Rightarrow> u64 K" where
  "proc_pagetable i =
    bnd uvmcreate (\<lambda>pagetable.
    if pagetable = 0 then ret 0 else
    bnd (getk (\<lambda>s. l_trampoline (lay s))) (\<lambda>trampoline.
    bnd (mappages pagetable TRAMPOLINE (of_nat PGSIZE) trampoline (PTE_R OR PTE_X)) (\<lambda>r.
    if r < 0 then (sq (uvmfree pagetable 0)
      (ret 0)) else
    bnd (get_proc i) (\<lambda>p.
    bnd (mappages pagetable TRAPFRAME (of_nat PGSIZE) (p_trapframe p) (PTE_R OR PTE_W)) (\<lambda>r.
    if r < 0 then (sq (uvmunmap pagetable TRAMPOLINE 1 False)
      (sq (uvmfree pagetable 0)
      (ret 0))) else
    ret pagetable)))))"

definition proc_freepagetable :: "u64 \<Rightarrow> u64 \<Rightarrow> unit K" where
  "proc_freepagetable pagetable sz =
    sq (uvmunmap pagetable TRAMPOLINE 1 False)
    (sq (uvmunmap pagetable TRAPFRAME 1 False)
    (uvmfree pagetable sz))"

definition freeproc :: "nat \<Rightarrow> unit K" where
  "freeproc i =
    bnd (get_proc i) (\<lambda>p.
    sq (whenk (p_trapframe p \<noteq> 0) (kfree (p_trapframe p)))
    (sq (upd_proc i (p_trapframe_update (\<lambda>_. 0)))
    (sq (whenk (p_pagetable p \<noteq> 0) (proc_freepagetable (p_pagetable p) (p_sz p)))
    (sq (upd_proc i (\<lambda>p. p\<lparr>p_pagetable := 0, p_sz := 0, p_pid := 0, p_parent := None, p_name := (p_name p)[0 := 0],
      p_chan := None, p_killed := False, p_xstate := 0, p_state := UNUSED\<rparr>))
    (sq (whenk (p_tx p \<noteq> 0) (txfree (p_tx p)))
    (upd_proc i (p_tx_update (\<lambda>_. 0))))))))"

text \<open>The scan of \<open>allocproc\<close>: it returns with the lock of the unused process held.\<close>

fun allocproc_scan :: "nat list \<Rightarrow> nat option K" where
  "allocproc_scan [] = ret None"
| "allocproc_scan (i # is) =
  sq (acquire (ProcLock i))
  (bnd (get_proc i) (\<lambda>p.
  if p_state p = UNUSED then ret (Some i)
    else sq (release (ProcLock i))
      (allocproc_scan is)))"

definition allocproc_fail :: "nat \<Rightarrow> nat option K" where
  [kdefs]: "allocproc_fail i =
    sq (freeproc i)
    (sq (release (ProcLock i))
    (ret None))"

definition allocproc :: "nat option K" where
  "allocproc =
    bnd (allocproc_scan [0..<NPROC]) (\<lambda>r.
    case r of None \<Rightarrow> ret None | Some i \<Rightarrow> bnd allocpid (\<lambda>pid.
      sq (upd_proc i (\<lambda>p. p\<lparr>p_pid := pid, p_state := USED\<rparr>))
      (bnd kalloc (\<lambda>tf.
      sq (upd_proc i (p_trapframe_update (\<lambda>_. tf)))
      (if tf = 0 then allocproc_fail i else
      sq (put_obj tf (Trapframe (\<lambda>_. 0x0505050505050505)))
      (bnd (proc_pagetable i) (\<lambda>pt.
      sq (upd_proc i (p_pagetable_update (\<lambda>_. pt)))
      (if pt = 0 then allocproc_fail i else
      bnd txalloc (\<lambda>tx.
      sq (upd_proc i (p_tx_update (\<lambda>_. tx)))
      (ret (Some i)))))))))))"

definition userinit :: "unit K" where
  "userinit =
    bnd allocproc (\<lambda>r.
    sq (modk (\<lambda>s. s\<lparr>initproc := r\<rparr>))
    (case r of None \<Rightarrow> fault | Some i \<Rightarrow> bnd (namei [slash]) (\<lambda>cwd.
      sq (upd_proc i (\<lambda>p. p\<lparr>p_cwd := cwd, p_state := RUNNABLE\<rparr>))
      (release (ProcLock i)))))"

section \<open>Growing, forking, exiting, waiting\<close>

definition growproc :: "int \<Rightarrow> int K" where
  "growproc n =
    bnd this_proc (\<lambda>i.
    bnd (get_proc i) (\<lambda>p.
    (let sz = p_sz p in
    if n > 0 then if sz + word_of_int n > TRAPFRAME then ret (-1) else
      bnd (uvmalloc (p_pagetable p) sz (sz + word_of_int n) PTE_W) (\<lambda>r.
      if r = 0 then ret (-1) else
      sq (upd_proc i (p_sz_update (\<lambda>_. r)))
      (ret 0))
      else if n < 0 then bnd (uvmdealloc (p_pagetable p) sz (sz + word_of_int n)) (\<lambda>r.
        sq (upd_proc i (p_sz_update (\<lambda>_. r)))
        (ret 0))
      else sq (upd_proc i (p_sz_update (\<lambda>_. sz)))
        (ret 0))))"

text \<open>\<open>safestrcpy(np->name, p->name, sizeof(p->name))\<close>, on the two arrays.\<close>

definition copy_name :: "u8 list \<Rightarrow> u8 list \<Rightarrow> u8 list" where
  "copy_name old new = map (safestrcpy 1000 0 16 (two_arrays new old)) [1000..<1016]"

definition fork_file :: "nat \<Rightarrow> nat \<Rightarrow> nat \<Rightarrow> unit K" where
  "fork_file i np fd =
    bnd (get_proc i) (\<lambda>p.
    case p_ofile p ! fd of None \<Rightarrow> ret () | Some f \<Rightarrow> bnd (filedup f) (\<lambda>f'.
      upd_proc np (p_ofile_update (\<lambda>l. l[fd := Some f']))))"

definition kfork :: "int K" where
  "kfork =
    bnd this_proc (\<lambda>i.
    bnd allocproc (\<lambda>r.
    case r of None \<Rightarrow> ret (-1) | Some np \<Rightarrow> bnd (get_proc i) (\<lambda>p.
      bnd (get_proc np) (\<lambda>q.
      bnd (uvmcopy (p_pagetable p) (p_pagetable q) (p_sz p)) (\<lambda>c.
      if c < 0 then (sq (freeproc np)
        (sq (release (ProcLock np))
        (ret (-1)))) else
      sq (upd_proc np (p_sz_update (\<lambda>_. p_sz p)))
      (bnd (get_tf (p_trapframe p)) (\<lambda>tf.
      sq (put_obj (p_trapframe q) (Trapframe (tf(TF_a0 := 0))))
      (sq (for_each [0..<NOFILE] (fork_file i np))
      (bnd (the_ip (p_cwd p)) (\<lambda>cwd.
      bnd (idup cwd) (\<lambda>cwd.
      sq (upd_proc np (\<lambda>q. q\<lparr>p_cwd := Some cwd, p_name := copy_name (p_name q) (p_name p)\<rparr>))
      (bnd (get_proc np) (\<lambda>q.
      sq (release (ProcLock np))
      (sq (acquire WaitLock)
      (sq (upd_proc np (p_parent_update (\<lambda>_. Some i)))
      (sq (release WaitLock)
      (sq (acquire (ProcLock np))
      (sq (upd_proc np (p_state_update (\<lambda>_. RUNNABLE)))
      (sq (release (ProcLock np))
      (ret (p_pid q)))))))))))))))))))))"

definition reparent :: "nat \<Rightarrow> unit K" where
  "reparent p = for_each [0..<NPROC] (\<lambda>pp. bnd (get_proc pp) (\<lambda>q.
    whenk (p_parent q = Some p) (bnd (getk initproc) (\<lambda>init.
      sq (upd_proc pp (p_parent_update (\<lambda>_. init)))
      (wakeup_opt init)))))"

definition close_fd :: "nat \<Rightarrow> nat \<Rightarrow> unit K" where
  "close_fd i fd =
    bnd (get_proc i) (\<lambda>p.
    case p_ofile p ! fd of None \<Rightarrow> ret () | Some f \<Rightarrow> sq (fileclose f)
      (upd_proc i (p_ofile_update (\<lambda>l. l[fd := None]))))"

definition kexit :: "int \<Rightarrow> unit K" where
  "kexit status =
    bnd this_proc (\<lambda>i.
    bnd (getk initproc) (\<lambda>init.
    if Some i = init then panic ''init exiting'' else
    sq (for_each [0..<NOFILE] (close_fd i))
    (sq begin_op
    (bnd (get_proc i) (\<lambda>p.
    bnd (the_ip (p_cwd p)) (\<lambda>cwd.
    sq (iput cwd)
    (sq end_op
    (sq (upd_proc i (p_cwd_update (\<lambda>_. None)))
    (sq (acquire WaitLock)
    (sq (reparent i)
    (bnd (get_proc i) (\<lambda>p.
    sq (wakeup_opt (p_parent p))
    (sq (acquire (ProcLock i))
    (sq (upd_proc i (\<lambda>p. p\<lparr>p_xstate := status, p_state := ZOMBIE\<rparr>))
    (sq (release WaitLock)
    (sq sched
    (panic ''zombie exit'')))))))))))))))))"

text \<open>The scan of \<open>kwait\<close>: \<open>Inl\<close> is the value it returns, \<open>Inr\<close> tells whether it saw a child.\<close>

fun kwait_scan :: "nat list \<Rightarrow> nat \<Rightarrow> u64 \<Rightarrow> bool \<Rightarrow> (int + bool) K" where
  "kwait_scan [] i addr havekids = ret (Inr havekids)"
| "kwait_scan (pp # pps) i addr havekids =
  bnd (get_proc pp) (\<lambda>q.
  if p_parent q = Some i then sq (acquire (ProcLock pp))
    (bnd (get_proc pp) (\<lambda>q.
    if p_state q = ZOMBIE then bnd (get_proc i) (\<lambda>p.
      bnd (if addr \<noteq> 0 then copyout (p_pagetable p) addr (to_le 4 (word_of_int (p_xstate q) :: u32)) else ret 0) (\<lambda>r.
      if r < 0 then (sq (release (ProcLock pp))
        (sq (release WaitLock)
        (ret (Inl (-1))))) else
      sq (freeproc pp)
      (sq (release (ProcLock pp))
      (sq (release WaitLock)
      (ret (Inl (p_pid q)))))))
      else sq (release (ProcLock pp))
        (kwait_scan pps i addr True)))
    else kwait_scan pps i addr havekids)"

definition kwait_try :: "nat \<Rightarrow> u64 \<Rightarrow> int K" where
  "kwait_try i addr =
    bnd (kwait_scan [0..<NPROC] i addr False) (\<lambda>r.
    case r of
        Inl v \<Rightarrow> ret v
      | Inr havekids \<Rightarrow> bnd (if \<not> havekids then ret True else killed i) (\<lambda>k.
        if k then (sq (release WaitLock)
          (ret (-1))) else
        sq (sleep (ChProc i) WaitLock)
        (ret 0)))"

definition kwait :: "u64 \<Rightarrow> int K" where
  "kwait addr =
    bnd this_proc (\<lambda>i.
    sq (acquire WaitLock)
    (kwait_try i addr))"

definition kwait_resume :: "u64 \<Rightarrow> int K" where
  "kwait_resume addr =
    bnd this_proc (\<lambda>i.
    sq (sleep_resume WaitLock)
    (kwait_try i addr))"

section \<open>The scheduler\<close>

text \<open>The scheduler looks at the processes in turn. \<open>scheduler_try i\<close> is one step of its inner loop up to
  \<open>swtch\<close>: if it returns true, process \<open>i\<close> runs next, with its lock held. \<open>scheduler_back i\<close> is the rest of the
  step, when the process has given the CPU back.\<close>

definition scheduler_try :: "nat \<Rightarrow> bool K" where
  "scheduler_try i =
    sq (acquire (ProcLock i))
    (bnd (get_proc i) (\<lambda>p.
    if p_state p = RUNNABLE then sq (upd_proc i (p_state_update (\<lambda>_. RUNNING)))
      (sq (modk (\<lambda>s. s\<lparr>cur := Some i\<rparr>))
      (ret True))
      else sq (release (ProcLock i))
        (ret False)))"

definition scheduler_back :: "nat \<Rightarrow> unit K" where
  "scheduler_back i =
    sq (modk (\<lambda>s. s\<lparr>cur := None\<rparr>))
    (release (ProcLock i))"

fun scheduler_scan :: "nat list \<Rightarrow> nat option K" where
  "scheduler_scan [] = ret None"
| "scheduler_scan (i # is) =
  bnd (scheduler_try i) (\<lambda>r.
  if r then ret (Some i) else scheduler_scan is)"

end
