(* ===== verification/Exec.thy ===== *)
theory Exec
  imports Proc
begin

text \<open>
  \<open>exec.c\<close>: replacing the image of a process by a program from the file system.

  The ELF structures are read at byte level. The arguments are the strings, without their NULs. The loops
  return whether they went through, together with the variables the label \<open>bad\<close> needs.
\<close>

section \<open>ELF headers (elf.h)\<close>

definition ELF_MAGIC :: u32 where
  "ELF_MAGIC = 0x464C457F"

definition ELFHDR_SIZE :: nat where [simp]: "ELFHDR_SIZE = 64"
definition PROGHDR_SIZE :: nat where [simp]: "PROGHDR_SIZE = 56"

definition elf_magic :: "u8 list \<Rightarrow> u32" where "elf_magic h = of_le (bslice 0 4 h)"
definition elf_entry :: "u8 list \<Rightarrow> u64" where "elf_entry h = of_le (bslice 24 8 h)"
definition elf_phoff :: "u8 list \<Rightarrow> u64" where "elf_phoff h = of_le (bslice 32 8 h)"
definition elf_phnum :: "u8 list \<Rightarrow> u16" where "elf_phnum h = of_le (bslice 56 2 h)"

record proghdr =
  ph_type :: u32
  ph_flags :: u32
  ph_off :: u64
  ph_vaddr :: u64
  ph_filesz :: u64
  ph_memsz :: u64

definition proghdr_of :: "u8 list \<Rightarrow> proghdr" where
  "proghdr_of h = \<lparr>ph_type = of_le (bslice 0 4 h), ph_flags = of_le (bslice 4 4 h), ph_off = of_le (bslice 8 8 h),
     ph_vaddr = of_le (bslice 16 8 h), ph_filesz = of_le (bslice 32 8 h), ph_memsz = of_le (bslice 40 8 h)\<rparr>"

section \<open>Operations\<close>

definition flags2perm :: "u32 \<Rightarrow> u64" where
  "flags2perm flags =
    (let perm = (if flags AND 0x1 \<noteq> 0 then PTE_X else 0) in
     if flags AND 0x2 \<noteq> 0 then perm OR PTE_W else perm)"

fun loadseg_loop :: "nat \<Rightarrow> u64 \<Rightarrow> u64 \<Rightarrow> nat \<Rightarrow> u32 \<Rightarrow> u32 \<Rightarrow> u32 \<Rightarrow> int K" where
  "loadseg_loop 0 pagetable va ip offset sz i = fault"
| "loadseg_loop (Suc fuel) pagetable va ip offset sz i =
    (if i < sz then bnd (walkaddr pagetable (va + ucast i)) (\<lambda>pa.
      if pa = 0 then panic ''loadseg: address should exist'' else
      (let n = (if sz - i < of_nat PGSIZE then sz - i else of_nat PGSIZE) in
      bnd (readi ip None (offset + i) n) (\<lambda>r.
      sq (write_mem pa 0 (snd r))
      (if fst r \<noteq> uint n then ret (-1) else
      loadseg_loop fuel pagetable va ip offset sz (i + of_nat PGSIZE)))))
     else ret 0)"

definition loadseg :: "u64 \<Rightarrow> u64 \<Rightarrow> nat \<Rightarrow> u32 \<Rightarrow> u32 \<Rightarrow> int K" where
  "loadseg pagetable va ip offset sz = loadseg_loop (unat sz div PGSIZE + 2) pagetable va ip offset sz 0"

text \<open>The loop over the program headers, with \<open>k\<close> of them to go: whether it went through, and \<open>sz\<close>.\<close>

primrec load_segments :: "nat \<Rightarrow> u64 \<Rightarrow> nat \<Rightarrow> u32 \<Rightarrow> u64 \<Rightarrow> (bool \<times> u64) K" where
  "load_segments 0 pagetable ip off sz = ret (True, sz)"
| "load_segments (Suc k) pagetable ip off sz =
  bnd (readi ip None off (of_nat PROGHDR_SIZE)) (\<lambda>r.
  if fst r \<noteq> int PROGHDR_SIZE then ret (False, sz) else
  (let ph = proghdr_of (snd r) in
  if ph_type ph \<noteq> 1 then load_segments k pagetable ip (off + of_nat PROGHDR_SIZE) sz
    else if ph_memsz ph < ph_filesz ph then ret (False, sz) else
      if ph_vaddr ph + ph_memsz ph < ph_vaddr ph then ret (False, sz) else
      if ph_vaddr ph mod of_nat PGSIZE \<noteq> 0 then ret (False, sz) else
      bnd (uvmalloc pagetable sz (ph_vaddr ph + ph_memsz ph) (flags2perm (ph_flags ph))) (\<lambda>sz1.
      if sz1 = 0 then ret (False, sz) else
      bnd (loadseg pagetable (ph_vaddr ph) ip (ucast (ph_off ph)) (ucast (ph_filesz ph))) (\<lambda>l.
      if l < 0 then ret (False, sz1) else
      load_segments k pagetable ip (off + of_nat PROGHDR_SIZE) sz1))))"

text \<open>Pushing the argument strings: whether it went through, the stack pointer and \<open>ustack\<close>.\<close>

fun push_args :: "u64 \<Rightarrow> u64 \<Rightarrow> u8 list list \<Rightarrow> u64 \<Rightarrow> u64 list \<Rightarrow> (bool \<times> u64 \<times> u64 list) K" where
  "push_args pagetable stackbase [] sp ustack = ret (True, sp, ustack)"
| "push_args pagetable stackbase (a # as) sp ustack =
  (if length ustack \<ge> MAXARG then ret (False, sp, ustack) else
  (let sp = sp - (of_nat (length a) + 1) in
  (let sp = sp - sp mod 16 in
  if sp < stackbase then ret (False, sp, ustack) else
  bnd (copyout pagetable sp (a @ [0])) (\<lambda>r.
  if r < 0 then ret (False, sp, ustack) else
  push_args pagetable stackbase as sp (ustack @ [sp])))))"

definition last_elem :: "u8 list \<Rightarrow> u8 list" where
  "last_elem path = rev (takeWhile (\<lambda>c. c \<noteq> slash) (rev path))"

definition kexec_bad :: "u64 \<Rightarrow> u64 \<Rightarrow> nat option \<Rightarrow> int K" where
  "kexec_bad pagetable sz ip =
    sq (whenk (pagetable \<noteq> 0) (proc_freepagetable pagetable sz))
    (sq (case ip of None \<Rightarrow> ret () | Some i \<Rightarrow> sq (iunlockput i)
      end_op)
    (ret (-1)))"

definition upd_tf :: "u64 \<Rightarrow> (trapframe \<Rightarrow> trapframe) \<Rightarrow> unit K" where
  [kdefs]: "upd_tf pa f =
    bnd (get_tf pa) (\<lambda>t.
    put_obj pa (Trapframe (f t)))"

text \<open>The part of \<open>kexec\<close> after the program is loaded.\<close>

definition kexec_stack :: "u8 list \<Rightarrow> u8 list list \<Rightarrow> u8 list \<Rightarrow> u64 \<Rightarrow> u64 \<Rightarrow> int K" where
  "kexec_stack path argv elf pagetable sz =
    bnd this_proc (\<lambda>i.
    bnd (get_proc i) (\<lambda>p.
    (let oldsz = p_sz p in
    (let sz = PGROUNDUP sz in
    bnd (uvmalloc pagetable sz (sz + 2 * of_nat PGSIZE) PTE_W) (\<lambda>sz1.
    if sz1 = 0 then kexec_bad pagetable sz None else
    sq (uvmclear pagetable (sz1 - 2 * of_nat PGSIZE))
    (let stackbase = sz1 - of_nat PGSIZE in
    bnd (push_args pagetable stackbase argv sz1 []) (\<lambda>r.
    (let ustack = snd (snd r) in
    if \<not> fst r then kexec_bad pagetable sz1 None else
    sq (needs (length ustack < MAXARG))
    (let sp = fst (snd r) - (of_nat (length ustack) + 1) * 8 in
    (let sp = sp - sp mod 16 in
    if sp < stackbase then kexec_bad pagetable sz1 None else
    bnd (copyout pagetable sp (concat (map (to_le 8) (ustack @ [0])))) (\<lambda>c.
    if c < 0 then kexec_bad pagetable sz1 None else
    sq (upd_tf (p_trapframe p) (\<lambda>t. t(TF_a1 := sp)))
    (sq (upd_proc i (\<lambda>p. p\<lparr>p_name := copy_name (p_name p) (last_elem path)\<rparr>))
    (bnd (get_proc i) (\<lambda>p.
    sq (upd_proc i (\<lambda>p. p\<lparr>p_pagetable := pagetable, p_sz := sz1\<rparr>))
    (sq (upd_tf (p_trapframe p) (\<lambda>t. t(TF_epc := elf_entry elf)))
    (sq (upd_tf (p_trapframe p) (\<lambda>t. t(TF_sp := sp)))
    (sq (proc_freepagetable (p_pagetable p) oldsz)
    (ret (int (length ustack))))))))))))))))))))"

definition kexec :: "u8 list \<Rightarrow> u8 list list \<Rightarrow> int K" where
  "kexec path argv =
    bnd this_proc (\<lambda>i.
    sq begin_op
    (bnd (namei path) (\<lambda>r.
    case r of None \<Rightarrow> sq end_op
      (ret (-1)) | Some ip \<Rightarrow> sq (ilock ip)
        (bnd (readi ip None 0 (of_nat ELFHDR_SIZE)) (\<lambda>h.
        (let elf = snd h in
        if fst h \<noteq> int ELFHDR_SIZE then kexec_bad 0 0 (Some ip) else
        if elf_magic elf \<noteq> ELF_MAGIC then kexec_bad 0 0 (Some ip) else
        bnd (proc_pagetable i) (\<lambda>pagetable.
        if pagetable = 0 then kexec_bad 0 0 (Some ip) else
        bnd (load_segments (unat (elf_phnum elf)) pagetable ip (ucast (elf_phoff elf)) 0) (\<lambda>l.
        if \<not> fst l then kexec_bad pagetable (snd l) (Some ip) else
        sq (iunlockput ip)
        (sq end_op
        (kexec_stack path argv elf pagetable (snd l)))))))))))"

end
