(* ===== verification/Sysproc.thy ===== *)
theory Sysproc
  imports Exec
begin

text \<open>
  The arguments of system calls, the first half of \<open>syscall.c\<close>, and the process system calls, \<open>sysproc.c\<close>.

  \<open>fetchstr\<close> returns the length with the string it copied. A system call returns a 64-bit value; an \<open>int\<close>
  result is sign-extended. \<open>sys_pause_resume\<close> is \<open>sys_pause\<close> from the return of \<open>sleep\<close> on.
\<close>

section \<open>Arguments\<close>

definition fetchaddr :: "u64 \<Rightarrow> u64 option K" where
  "fetchaddr addr =
    bnd this_proc (\<lambda>i.
    bnd (get_proc i) (\<lambda>p.
    if addr \<ge> p_sz p \<or> addr + 8 > p_sz p then ret None else
    bnd (copyin (p_pagetable p) addr 8) (\<lambda>r.
    if fst r \<noteq> 0 then ret None else
    ret (Some (of_le (snd r))))))"

definition fetchstr :: "u64 \<Rightarrow> nat \<Rightarrow> (int \<times> u8 list) K" where
  "fetchstr addr mx =
    bnd this_proc (\<lambda>i.
    bnd (get_proc i) (\<lambda>p.
    bnd (copyinstr (p_pagetable p) addr mx) (\<lambda>r.
    if fst r < 0 then ret (-1, snd r) else
    (let s = takeWhile (\<lambda>c. c \<noteq> 0) (snd r) in
    ret (int (length s), s)))))"

definition argraw :: "nat \<Rightarrow> u64 K" where
  "argraw n =
    bnd this_proc (\<lambda>i.
    bnd (get_proc i) (\<lambda>p.
    if n > 5 then panic ''argraw'' else
    bnd (get_tf (p_trapframe p)) (\<lambda>t.
    ret (t ([TF_a0, TF_a1, TF_a2, TF_a3, TF_a4, TF_a5] ! n)))))"

definition argint :: "nat \<Rightarrow> int K" where
  "argint n =
    bnd (argraw n) (\<lambda>a.
    ret (sint (ucast a :: u32)))"

definition argaddr :: "nat \<Rightarrow> u64 K" where
  "argaddr n = argraw n"

definition argstr :: "nat \<Rightarrow> nat \<Rightarrow> (int \<times> u8 list) K" where
  "argstr n mx =
    bnd (argaddr n) (\<lambda>addr.
    fetchstr addr mx)"

definition ret_int :: "int \<Rightarrow> u64 K" where
  [kdefs]: "ret_int r = ret (word_of_int r)"

section \<open>Process system calls\<close>

definition sys_exit :: "u64 K" where
  "sys_exit =
    bnd (argint 0) (\<lambda>n.
    sq (kexit n)
    (ret 0))"

definition sys_getpid :: "u64 K" where
  "sys_getpid =
    bnd this_proc (\<lambda>i.
    bnd (get_proc i) (\<lambda>p.
    ret_int (p_pid p)))"

definition sys_fork :: "u64 K" where
  "sys_fork =
    bnd kfork (\<lambda>r.
    ret_int r)"

definition sys_wait :: "u64 K" where
  "sys_wait =
    bnd (argaddr 0) (\<lambda>p.
    bnd (kwait p) (\<lambda>r.
    ret_int r))"

definition SBRK_EAGER :: int where [simp]: "SBRK_EAGER = 1"
definition SBRK_LAZY :: int where [simp]: "SBRK_LAZY = 2"

definition sys_sbrk :: "u64 K" where
  "sys_sbrk =
    bnd (argint 0) (\<lambda>n.
    bnd (argint 1) (\<lambda>t.
    bnd this_proc (\<lambda>i.
    bnd (get_proc i) (\<lambda>p.
    (let addr = p_sz p in
    if t = SBRK_EAGER \<or> n < 0 then bnd (growproc n) (\<lambda>g.
      if g < 0 then ret_int (-1) else ret addr)
      else if addr + word_of_int n < addr then ret_int (-1) else
        if addr + word_of_int n > TRAPFRAME then ret_int (-1) else
        sq (upd_proc i (p_sz_update (\<lambda>sz. sz + word_of_int n)))
        (ret addr))))))"

definition pause_wait :: "u32 \<Rightarrow> u32 \<Rightarrow> u64 K" where
  "pause_wait ticks0 n =
    bnd (getk ticks) (\<lambda>t.
    if t - ticks0 < n then bnd this_proc (\<lambda>i.
      bnd (killed i) (\<lambda>k.
      if k then (sq (release TicksLock)
        (ret_int (-1))) else
      sq (sleep ChTicks TicksLock)
      (ret 0)))
      else sq (release TicksLock)
        (ret 0))"

definition sys_pause :: "u64 K" where
  "sys_pause =
    bnd (argint 0) (\<lambda>n.
    sq (acquire TicksLock)
    (bnd (getk ticks) (\<lambda>ticks0.
    pause_wait ticks0 (word_of_int (max 0 n)))))"

definition sys_pause_resume :: "u32 \<Rightarrow> u32 \<Rightarrow> u64 K" where
  "sys_pause_resume ticks0 n =
    sq (sleep_resume TicksLock)
    (pause_wait ticks0 n)"

definition sys_kill :: "u64 K" where
  "sys_kill =
    bnd (argint 0) (\<lambda>pid.
    bnd (kkill pid) (\<lambda>r.
    ret_int r))"

definition sys_uptime :: "u64 K" where
  "sys_uptime =
    sq (acquire TicksLock)
    (bnd (getk ticks) (\<lambda>xticks.
    sq (release TicksLock)
    (ret (ucast xticks))))"

end
