(* ===== verification/Systx.thy ===== *)
theory Systx
  imports Sysproc
begin

text \<open>
  The transaction system calls, \<open>systx.c\<close>, with the commit, lock and unlock functions of the two object types
  from \<open>tx.c\<close>.
\<close>

section \<open>Operations\<close>

definition inode_commit :: "workset_entry \<Rightarrow> unit K" where
  "inode_commit e = (case w_header e of HInode i \<Rightarrow> sq begin_op
    (sq (whenk (\<not> w_read_only e) (iupdate i))
    (sq (iput i)
    end_op)) | _ \<Rightarrow> fault)"

definition buf_commit :: "workset_entry \<Rightarrow> unit K" where
  "buf_commit e = (case w_header e of HBuf b \<Rightarrow> sq begin_op
    (sq (log_write b)
    (sq end_op
    (bunpin b))) | _ \<Rightarrow> fault)"

definition commit_fn :: "workset_entry \<Rightarrow> unit K" where
  "commit_fn e = (case w_ops e of NoOps \<Rightarrow> fault | InodeOps \<Rightarrow> inode_commit e | BufferOps \<Rightarrow> buf_commit e)"

definition inode_lock :: "workset_entry \<Rightarrow> unit K" where
  "inode_lock e = (case w_header e of HInode i \<Rightarrow> ilock i | _ \<Rightarrow> fault)"

definition inode_unlock :: "workset_entry \<Rightarrow> unit K" where
  "inode_unlock e = (case w_header e of HInode i \<Rightarrow> iunlock i | _ \<Rightarrow> fault)"

definition buf_lock :: "workset_entry \<Rightarrow> unit K" where
  "buf_lock e = (case w_header e of HBuf b \<Rightarrow> acquiresleep (SLBuf b) | _ \<Rightarrow> fault)"

definition buf_unlock :: "workset_entry \<Rightarrow> unit K" where
  "buf_unlock e = (case w_header e of HBuf b \<Rightarrow> releasesleep (SLBuf b) | _ \<Rightarrow> fault)"

definition lock_fn :: "workset_entry \<Rightarrow> unit K" where
  "lock_fn e = (case w_ops e of NoOps \<Rightarrow> fault | InodeOps \<Rightarrow> inode_lock e | BufferOps \<Rightarrow> buf_lock e)"

definition unlock_fn :: "workset_entry \<Rightarrow> unit K" where
  "unlock_fn e = (case w_ops e of NoOps \<Rightarrow> fault | InodeOps \<Rightarrow> inode_unlock e | BufferOps \<Rightarrow> buf_unlock e)"

definition swap_data :: "workset_entry \<Rightarrow> unit K" where
  "swap_data e =
    bnd (get_data_ptr (w_header e)) (\<lambda>old.
    sq (kfree old)
    (set_data_ptr (w_header e) (w_shadow_data e)))"

definition for_entries :: "(workset_entry \<Rightarrow> unit K) \<Rightarrow> unit K" where
  "for_entries f = each_entry (Suc MAX_WORKSET) 0 f"

definition sys_txbegin :: "u64 K" where
  "sys_txbegin =
    bnd (argint 0) (\<lambda>_.
    bnd this_proc (\<lambda>i.
    bnd (get_proc i) (\<lambda>p.
    (let tx = p_tx p in
    if tx = 0 then ret_int (-1) else
    sq (upd_tx tx (\<lambda>t. t\<lparr>t_status := TX_ACTIVE, t_workset_size := 0\<rparr>))
    (sq (acquire TicksLock)
    (bnd (getk ticks) (\<lambda>now.
    sq (upd_tx tx (t_start_time_update (\<lambda>_. ucast now)))
    (sq (release TicksLock)
    (sq (upd_tx tx (t_retry_count_update (\<lambda>_. 0)))
    (bnd (get_tx tx) (\<lambda>t.
    sq (whenk (t_saved_tf t = 0) (bnd kalloc (\<lambda>pg.
      upd_tx tx (t_saved_tf_update (\<lambda>_. pg)))))
    (bnd (get_tx tx) (\<lambda>t.
    bnd (get_tf (p_trapframe p)) (\<lambda>tf.
    sq (put_obj (t_saved_tf t) (Trapframe tf))
    (sq (upd_tx tx (t_kjmp_valid_update (\<lambda>_. False)))
    (ret 0))))))))))))))))"

definition sys_txcommit :: "u64 K" where
  "sys_txcommit =
    bnd my_tx (\<lambda>tx.
    if tx = 0 then ret_int (-1) else
    bnd (get_tx tx) (\<lambda>t.
    if t_status t \<noteq> TX_ACTIVE then ret_int (-1) else
    sq (upd_tx tx (t_status_update (\<lambda>_. TX_COMMITTED)))
    (sq (for_entries lock_fn)
    (sq (for_entries swap_data)
    (sq (for_entries unlock_fn)
    (sq (for_entries commit_fn)
    (sq (upd_tx tx (\<lambda>t. t\<lparr>t_workset_size := 0, t_kjmp_valid := False\<rparr>))
    (ret 0))))))))"

definition sys_txabort :: "u64 K" where
  "sys_txabort =
    bnd my_tx (\<lambda>tx.
    if tx = 0 then ret_int (-1) else
    bnd (get_tx tx) (\<lambda>t.
    if t_status t \<noteq> TX_ACTIVE then ret_int (-1) else
    sq (upd_tx tx (t_status_update (\<lambda>_. TX_ABORTED)))
    (sq (for_entries lock_fn)
    (sq (for_entries unlock_fn)
    (sq (for_entries abort_fn)
    (sq (upd_tx tx (\<lambda>t. t\<lparr>t_workset_size := 0, t_kjmp_valid := False\<rparr>))
    (ret 0)))))))"

definition sys_txstatus :: "u64 K" where
  "sys_txstatus =
    bnd my_tx (\<lambda>tx.
    if tx = 0 then ret_int (-1) else
    bnd (get_tx tx) (\<lambda>t.
    ret_int (t_status t)))"

section \<open>The publication of a commit\<close>

definition has_tx :: "kstate \<Rightarrow> nat \<Rightarrow> u64 \<Rightarrow> transaction \<Rightarrow> bool" where
  "has_tx s p tx t \<longleftrightarrow> cur s = Some p \<and> p_tx (procs s p) = tx \<and> tx \<noteq> 0 \<and> heap s tx = Some (Tx t)"

abbreviation old_data :: "kstate \<Rightarrow> workset_entry \<Rightarrow> u64" where
  "old_data s e \<equiv> data_ptr s (w_header e)"

text \<open>The entries are of different objects, each with a page of its own, and no shadow is one of those pages.\<close>

definition swappable :: "kstate \<Rightarrow> workset_entry list \<Rightarrow> bool" where
  "swappable s es \<longleftrightarrow> distinct (map w_header es) \<and> distinct (map (old_data s) es) \<and>
     (\<forall>e \<in> set es. w_header e \<noteq> HNull \<and> valid_page (lay s) (old_data s e) \<and> w_shadow_data e \<notin> old_data s ` set es \<and>
       (\<exists>ob. heap s (old_data s e) = Some ob \<and> payload ob))"

definition set_ptr :: "hdr \<Rightarrow> u64 \<Rightarrow> kstate \<Rightarrow> kstate" where
  "set_ptr h pa s = (case h of HNull \<Rightarrow> s
     | HInode i \<Rightarrow> s\<lparr>itable := (itable s)(i := (itable s i)\<lparr>i_data := pa\<rparr>)\<rparr>
     | HBuf b \<Rightarrow> s\<lparr>bufs := (bufs s)(b := (bufs s b)\<lparr>b_data := pa\<rparr>)\<rparr>)"

lemma set_ptr_simps [simp]:
  "lay (set_ptr h pa s) = lay s" "held (set_ptr h pa s) = held s" "cur (set_ptr h pa s) = cur s" "heap (set_ptr h pa s) = heap s"
  "procs (set_ptr h pa s) = procs s" "freelist (set_ptr h pa s) = freelist s"
  by (cases h; simp add: set_ptr_def)+

lemma data_ptr_set_ptr: "h \<noteq> HNull \<Longrightarrow> data_ptr (set_ptr h pa s) h' = (if h' = h then pa else data_ptr s h')"
  by (cases h; cases h') (auto simp: set_ptr_def data_ptr_def)

lemma data_ptr_after_kfree [simp]: "data_ptr (after_kfree s pa) h = data_ptr s h"
  by (cases h) (simp_all add: data_ptr_def after_kfree_def)

lemma heap_after_kfree: "heap (after_kfree s pa) = (heap s)(pa \<mapsto> Run (freelist s))"
  by (simp add: after_kfree_def)

lemma swap_data_eq:
  assumes "w_header e \<noteq> HNull" "valid_page (lay s) (old_data s e)" "KmemLock \<notin> held s"
  shows "swap_data e s = Done () (set_ptr (w_header e) (w_shadow_data e) (after_kfree s (old_data s e)))"
proof -
  have "get_data_ptr (w_header e) s = Done (old_data s e) s" using assms(1) by (cases "w_header e") (simp_all add: kdefs data_ptr_def)
  moreover have "set_data_ptr (w_header e) pa s' = Done () (set_ptr (w_header e) pa s')" for pa s'
    using assms(1) by (cases "w_header e") (simp_all add: kdefs set_ptr_def)
  ultimately show ?thesis using kfree_eq [OF assms(2,3)] by (simp add: swap_data_def)
qed

lemma swap_entries:
  "has_tx s p tx t \<Longrightarrow> held s = {} \<Longrightarrow> kmem_wf s xs \<Longrightarrow> es = drop i (take (t_workset_size t) (t_workset t)) \<Longrightarrow>
   t_workset_size t \<le> length (t_workset t) \<Longrightarrow> i \<le> t_workset_size t \<Longrightarrow> swappable s es \<Longrightarrow> t_workset_size t - i < fuel \<Longrightarrow>
   \<exists>s'. each_entry fuel i swap_data s = Done () s' \<and> has_tx s' p tx t \<and> kmem_wf s' (rev (map (old_data s) es) @ xs) \<and>
     (\<forall>h. data_ptr s' h = (case map_of (map (\<lambda>e. (w_header e, w_shadow_data e)) es) h of None \<Rightarrow> data_ptr s h | Some pa \<Rightarrow> pa)) \<and>
     (\<forall>pa. pa \<notin> old_data s ` set es \<longrightarrow> heap s' pa = heap s pa)"
proof (induction fuel arbitrary: i s xs es)
  case (Suc fuel)
  let ?n = "t_workset_size t" and ?ws = "t_workset t"
  have tx: "my_tx s = Done tx s" "get_tx tx s = Done t s" using Suc.prems(1) by (simp_all add: has_tx_def kdefs)
  show ?case
  proof (cases "i < ?n")
    case True
    let ?e = "?ws ! i" and ?es = "drop (Suc i) (take ?n ?ws)"
    have dr: "es = ?e # ?es" using True Suc.prems(4,5) by (simp add: Cons_nth_drop_Suc [symmetric])
    have sw: "swappable s (?e # ?es)" using Suc.prems(7) unfolding dr .
    obtain ob where e: "w_header ?e \<noteq> HNull" "valid_page (lay s) (old_data s ?e)" "heap s (old_data s ?e) = Some ob" "payload ob"
      using sw by (auto simp: swappable_def)
    let ?s = "set_ptr (w_header ?e) (w_shadow_data ?e) (after_kfree s (old_data s ?e))"
    have neq: "w_header e \<noteq> w_header ?e" "old_data s e \<noteq> old_data s ?e" if "e \<in> set ?es" for e
      using sw that unfolding swappable_def list.map distinct.simps set_map by (metis imageI)+
    have old: "old_data ?s e = old_data s e" if "e \<in> set ?es" for e
      using neq(1) [OF that] e(1) by (simp add: data_ptr_set_ptr)
    have hp: "heap ?s (old_data s e) = heap s (old_data s e)" if "e \<in> set ?es" for e
      using neq(2) [OF that] by (simp add: after_kfree_def)
    have im: "old_data ?s ` set ?es = old_data s ` set ?es" "map (old_data ?s) ?es = map (old_data s) ?es"
      by (rule image_cong [OF refl old]) (simp_all add: old)
    have nin: "old_data s ?e \<notin> set xs" using kmem_wf_used [OF Suc.prems(3) e(3)] e(4) by (auto simp: payload_def)
    have wf: "kmem_wf ?s (old_data s ?e # xs)"
      using kmem_wf_kfree [OF Suc.prems(3) e(2) nin] by (rule kmem_wf_cong) simp_all
    have ne: "old_data s ?e \<noteq> tx" using e(3,4) Suc.prems(1) by (auto simp: has_tx_def payload_def)
    have htx: "has_tx ?s p tx t" using Suc.prems(1) ne by (simp add: has_tx_def after_kfree_def)
    have sw': "swappable ?s ?es"
      unfolding swappable_def im using sw hp by (auto simp: swappable_def old simp del: set_ptr_simps(4))
    have fu: "?n - Suc i < fuel" "Suc i \<le> ?n" "held ?s = {}" using Suc.prems(2,8) True by auto
    obtain s' where s': "each_entry fuel (Suc i) swap_data ?s = Done () s'" "has_tx s' p tx t"
        "kmem_wf s' (rev (map (old_data s) ?es) @ old_data s ?e # xs)"
        "\<forall>h. data_ptr s' h = (case map_of (map (\<lambda>e. (w_header e, w_shadow_data e)) ?es) h of None \<Rightarrow> data_ptr ?s h | Some pa \<Rightarrow> pa)"
        "\<forall>pa. pa \<notin> old_data s ` set ?es \<longrightarrow> heap s' pa = heap ?s pa"
      using Suc.IH [OF htx fu(3) wf refl Suc.prems(5) fu(2) sw' fu(1)] unfolding im by blast
    have "each_entry (Suc fuel) i swap_data s = Done () s'"
      using tx True s'(1) swap_data_eq [OF e(1,2)] Suc.prems(2) by simp
    moreover have "map_of (map (\<lambda>e. (w_header e, w_shadow_data e)) ?es) (w_header ?e) = None"
      using sw by (auto simp: swappable_def map_of_eq_None_iff)
    ultimately show ?thesis
      using s'(2-5) e(1) unfolding dr by (auto simp: data_ptr_set_ptr heap_after_kfree split: option.splits)
  next
    case False
    then have "each_entry (Suc fuel) i swap_data s = Done () s" using tx by (simp add: ret_def)
    then show ?thesis using Suc.prems False by auto
  qed
qed simp

text \<open>C29. The swap of a commit publishes the whole workset: afterwards every object of the workset has the payload that its
  shadow had, every other object has the payload it had, and the replaced pages are on the free list.\<close>

theorem commit_publishes:
  assumes tx: "has_tx s p tx t" "tx_wf (l_addr (lay s)) t" and s: "held s = {}" "kmem_wf s xs"
    and es: "es = take (t_workset_size t) (t_workset t)" "swappable s es"
    and sep: "\<forall>h. h \<notin> w_header ` set es \<longrightarrow> data_ptr s h \<notin> old_data s ` set es"
  shows "\<exists>s'. for_entries swap_data s = Done () s' \<and>
    (\<forall>e \<in> set es. heap s' (data_ptr s' (w_header e)) = heap s (w_shadow_data e)) \<and>
    (\<forall>h. h \<notin> w_header ` set es \<longrightarrow> heap s' (data_ptr s' h) = heap s (data_ptr s h)) \<and>
    kmem_wf s' (rev (map (old_data s) es) @ xs)"
proof -
  have n: "t_workset_size t \<le> length (t_workset t)" "t_workset_size t - 0 < Suc MAX_WORKSET" using tx(2) by (auto simp: tx_wf_def)
  obtain s' where s': "for_entries swap_data s = Done () s'" "kmem_wf s' (rev (map (old_data s) es) @ xs)"
      "\<And>h. data_ptr s' h = (case map_of (map (\<lambda>e. (w_header e, w_shadow_data e)) es) h of None \<Rightarrow> data_ptr s h | Some pa \<Rightarrow> pa)"
      "\<And>pa. pa \<notin> old_data s ` set es \<Longrightarrow> heap s' pa = heap s pa"
    using swap_entries [OF tx(1) s _ n(1) _ es(2) n(2)] es(1) unfolding for_entries_def by (auto simp del: each_entry.simps)
  have "data_ptr s' (w_header e) = w_shadow_data e" if "e \<in> set es" for e
  proof -
    have "map_of (map (\<lambda>e. (w_header e, w_shadow_data e)) es) (w_header e) = Some (w_shadow_data e)"
      using that es(2) by (intro map_of_is_SomeI) (auto simp: swappable_def comp_def)
    then show ?thesis by (simp add: s'(3))
  qed
  moreover have "data_ptr s' h = data_ptr s h" if "h \<notin> w_header ` set es" for h
  proof -
    have "map_of (map (\<lambda>e. (w_header e, w_shadow_data e)) es) h = None" using that by (auto simp: map_of_eq_None_iff image_iff)
    then show ?thesis by (simp add: s'(3))
  qed
  ultimately show ?thesis using s'(1,2,4) es(2) sep by (auto simp: swappable_def intro!: exI [of _ s'])
qed

definition publish_state :: kstate where
  "publish_state = abort_state\<lparr>heap := (heap abort_state)(PHYSTOP - 20480 \<mapsto> InodeData (zero_idata\<lparr>d_size := 7\<rparr>)),
     itable := (itable abort_state)(0 := (itable abort_state 0)\<lparr>i_data := PHYSTOP - 20480\<rparr>)\<rparr>"

lemma publish_state_ready:
  "has_tx publish_state 0 (PHYSTOP - 12288) abort_tx" "held publish_state = {}" "kmem_wf publish_state [PHYSTOP - 8192, PHYSTOP - 4096]"
  "lay publish_state = lay abort_state" "data_ptr publish_state h = (if h = HInode 0 then PHYSTOP - 20480 else data_ptr abort_state h)"
  "heap publish_state (PHYSTOP - 16384) = Some (InodeData zero_idata)"
  "swappable publish_state (take (t_workset_size abort_tx) (t_workset abort_tx))"
  by (simp_all add: has_tx_def publish_state_def abort_state_def abort_tx_def tx_state_def two_free_pages_def bss_state_def kmem_wf_def
      sample_entry_def swappable_def valid_page_def zero_tx_def empty_entry_def data_ptr_def payload_def split: hdr.splits)
    (simp_all add: sample_layout_def)

theorem commit_publishes_witness:
  "\<exists>s'. for_entries swap_data publish_state = Done () s' \<and> heap s' (data_ptr s' (HInode 0)) = Some (InodeData zero_idata) \<and>
     kmem_wf s' [PHYSTOP - 20480, PHYSTOP - 8192, PHYSTOP - 4096]"
proof -
  have t: "take (t_workset_size abort_tx) (t_workset abort_tx) = [(sample_entry (HInode 0))\<lparr>w_shadow_data := PHYSTOP - 16384\<rparr>]"
      "w_header (sample_entry (HInode 0)) = HInode 0"
    by (simp_all add: abort_tx_def zero_tx_def sample_entry_def)
  have "\<forall>h. h \<noteq> HInode 0 \<longrightarrow> data_ptr publish_state h \<noteq> PHYSTOP - 20480"
    by (auto simp: publish_state_def abort_state_def tx_state_def two_free_pages_def bss_state_def data_ptr_def zero_buf_def zero_inode_def
        split: hdr.splits)
  then show ?thesis
    using commit_publishes [OF publish_state_ready(1) _ publish_state_ready(2,3) refl publish_state_ready(7)]
      abort_state_ready(2) publish_state_ready(4-6) t by (simp, blast)
qed

end
