(* ===== verification/Sysfile.thy ===== *)
theory Sysfile
  imports Systx
begin

text \<open>
  The file-system system calls, \<open>sysfile.c\<close>. A descriptor or a file the source returns through a pointer is
  part of the result, \<open>None\<close> for its error return.
\<close>

section \<open>Descriptors\<close>

definition argfd :: "nat \<Rightarrow> (nat \<times> nat) option K" where
  "argfd n =
    bnd (argint n) (\<lambda>fd.
    if fd < 0 \<or> fd \<ge> int NOFILE then ret None else
    bnd this_proc (\<lambda>i.
    bnd (get_proc i) (\<lambda>p.
    case p_ofile p ! nat fd of None \<Rightarrow> ret None | Some f \<Rightarrow> ret (Some (nat fd, f)))))"

fun fdalloc_scan :: "nat list \<Rightarrow> nat \<Rightarrow> nat \<Rightarrow> nat option K" where
  "fdalloc_scan [] i f = ret None"
| "fdalloc_scan (fd # fds) i f =
  bnd (get_proc i) (\<lambda>p.
  if p_ofile p ! fd = None then sq (upd_proc i (p_ofile_update (\<lambda>l. l[fd := Some f])))
    (ret (Some fd))
    else fdalloc_scan fds i f)"

definition fdalloc :: "nat \<Rightarrow> nat option K" where
  "fdalloc f =
    bnd this_proc (\<lambda>i.
    fdalloc_scan [0..<NOFILE] i f)"

definition sys_dup :: "u64 K" where
  "sys_dup =
    bnd (argfd 0) (\<lambda>r.
    case r of None \<Rightarrow> ret_int (-1) | Some (_, f) \<Rightarrow> bnd (fdalloc f) (\<lambda>fd.
      case fd of None \<Rightarrow> ret_int (-1) | Some fd \<Rightarrow> bnd (filedup f) (\<lambda>_.
        ret (of_nat fd))))"

definition sys_read :: "u64 K" where
  "sys_read =
    bnd (argaddr 1) (\<lambda>p.
    bnd (argint 2) (\<lambda>n.
    bnd (argfd 0) (\<lambda>r.
    case r of None \<Rightarrow> ret_int (-1) | Some (_, f) \<Rightarrow> bnd (fileread f p n) (\<lambda>k.
      ret_int k))))"

definition sys_write :: "u64 K" where
  "sys_write =
    bnd (argaddr 1) (\<lambda>p.
    bnd (argint 2) (\<lambda>n.
    bnd (argfd 0) (\<lambda>r.
    case r of None \<Rightarrow> ret_int (-1) | Some (_, f) \<Rightarrow> bnd (filewrite f p n) (\<lambda>k.
      ret_int k))))"

definition clear_fd :: "nat \<Rightarrow> unit K" where
  [kdefs]: "clear_fd fd =
    bnd this_proc (\<lambda>i.
    upd_proc i (p_ofile_update (\<lambda>l. l[fd := None])))"

definition sys_close :: "u64 K" where
  "sys_close =
    bnd (argfd 0) (\<lambda>r.
    case r of None \<Rightarrow> ret_int (-1) | Some (fd, f) \<Rightarrow> sq (clear_fd fd)
      (sq (fileclose f)
      (ret 0)))"

definition sys_fstat :: "u8 list \<Rightarrow> u64 K" where
  "sys_fstat pad =
    bnd (argaddr 1) (\<lambda>st.
    bnd (argfd 0) (\<lambda>r.
    case r of None \<Rightarrow> ret_int (-1) | Some (_, f) \<Rightarrow> bnd (filestat pad f st) (\<lambda>k.
      ret_int k)))"

section \<open>Links\<close>

definition end_op_fail :: "u64 K" where
  [kdefs]: "end_op_fail =
    sq end_op
    (ret_int (-1))"

definition link_bad :: "nat \<Rightarrow> u64 K" where
  "link_bad ip =
    sq (ilock ip)
    (bnd (idata ip) (\<lambda>ipd.
    sq (upd_idata ipd (d_nlink_update (\<lambda>n. n - 1)))
    (sq (iupdate ip)
    (sq (iunlockput ip)
    end_op_fail))))"

definition sys_link :: "u64 K" where
  "sys_link =
    bnd (argstr 0 MAXPATH) (\<lambda>old.
    if fst old < 0 then ret_int (-1) else
    bnd (argstr 1 MAXPATH) (\<lambda>new.
    if fst new < 0 then ret_int (-1) else
    sq begin_op
    (bnd (namei (snd old)) (\<lambda>r.
    case r of None \<Rightarrow> end_op_fail | Some ip \<Rightarrow> sq (ilock ip)
      (bnd (idata ip) (\<lambda>ipd.
      bnd (get_idata ipd) (\<lambda>x.
      if d_type x = T_DIR then (sq (iunlockput ip)
        end_op_fail) else
      sq (upd_idata ipd (d_nlink_update (\<lambda>n. n + 1)))
      (sq (iupdate ip)
      (sq (iunlock ip)
      (bnd (nameiparent (snd new)) (\<lambda>q.
      case q of None \<Rightarrow> link_bad ip | Some (dp, name) \<Rightarrow> sq (ilock dp)
        (bnd (get_inode dp) (\<lambda>d.
        bnd (get_inode ip) (\<lambda>i.
        bnd (if i_dev d \<noteq> i_dev i then ret (-1) else dirlink dp name (i_inum i)) (\<lambda>l.
        if l < 0 then (sq (iunlockput dp)
          (link_bad ip)) else
        sq (iunlockput dp)
        (sq (iput ip)
        (sq end_op
        (ret 0))))))))))))))))))"

fun isdirempty_loop :: "nat \<Rightarrow> nat \<Rightarrow> u32 \<Rightarrow> bool K" where
  "isdirempty_loop 0 dp off = fault"
| "isdirempty_loop (Suc n) dp off =
  bnd (idata dp) (\<lambda>d.
  bnd (get_idata d) (\<lambda>x.
  if off < d_size x then bnd (readi dp None off (of_nat DIRENT_SIZE)) (\<lambda>r.
    if fst r \<noteq> int DIRENT_SIZE then panic ''isdirempty: readi'' else
    if de_inum (snd r) \<noteq> 0 then ret False
      else isdirempty_loop n dp (off + of_nat DIRENT_SIZE))
    else ret True))"

text \<open>A directory has at most \<open>MAXFILE\<close> blocks, which bounds the number of its entries.\<close>

definition isdirempty :: "nat \<Rightarrow> bool K" where
  "isdirempty dp = isdirempty_loop (MAXFILE * BSIZE div DIRENT_SIZE + 2) dp (2 * of_nat DIRENT_SIZE)"

definition unlink_bad :: "nat \<Rightarrow> u64 K" where
  [kdefs]: "unlink_bad dp =
    sq (iunlockput dp)
    end_op_fail"

definition sys_unlink :: "u64 K" where
  "sys_unlink =
    bnd (argstr 0 MAXPATH) (\<lambda>path.
    if fst path < 0 then ret_int (-1) else
    sq begin_op
    (bnd (nameiparent (snd path)) (\<lambda>r.
    case r of None \<Rightarrow> end_op_fail | Some (dp, name) \<Rightarrow> sq (ilock dp)
      (if namecmp name [0x2e] = 0 \<or> namecmp name [0x2e, 0x2e] = 0 then unlink_bad dp else
      bnd (dirlookup dp name) (\<lambda>q.
      case q of None \<Rightarrow> unlink_bad dp | Some (ip, off) \<Rightarrow> sq (ilock ip)
        (bnd (idata ip) (\<lambda>ipd.
        bnd (get_idata ipd) (\<lambda>x.
        if sint (d_nlink x) < 1 then panic ''unlink: nlink < 1'' else
        bnd (if d_type x = T_DIR then bnd (isdirempty ip) (\<lambda>e.
          ret (\<not> e)) else ret False) (\<lambda>full.
        if full then (sq (iunlockput ip)
          (unlink_bad dp)) else
        bnd (writei dp (KSrc (replicate DIRENT_SIZE 0)) off (of_nat DIRENT_SIZE)) (\<lambda>w.
        if w \<noteq> int DIRENT_SIZE then panic ''unlink: writei'' else
        bnd (get_idata ipd) (\<lambda>x.
        sq (whenk (d_type x = T_DIR) (bnd (idata dp) (\<lambda>dpd.
          sq (upd_idata dpd (d_nlink_update (\<lambda>n. n - 1)))
          (iupdate dp))))
        (sq (iunlockput dp)
        (sq (upd_idata ipd (d_nlink_update (\<lambda>n. n - 1)))
        (sq (iupdate ip)
        (sq (iunlockput ip)
        (sq end_op
        (ret 0)))))))))))))))))"

section \<open>Creating and opening\<close>

definition create_fail :: "nat \<Rightarrow> u64 \<Rightarrow> nat \<Rightarrow> nat option K" where
  "create_fail ip ipd dp =
    sq (upd_idata ipd (d_nlink_update (\<lambda>_. 0)))
    (sq (iupdate ip)
    (sq (iunlockput ip)
    (sq (iunlockput dp)
    (ret None))))"

definition create :: "u8 list \<Rightarrow> u16 \<Rightarrow> u16 \<Rightarrow> u16 \<Rightarrow> nat option K" where
  "create path type major minor =
    bnd (nameiparent path) (\<lambda>r.
    case r of None \<Rightarrow> ret None | Some (dp, name) \<Rightarrow> sq (ilock dp)
      (bnd (dirlookup dp name) (\<lambda>q.
      case q of
          Some (ip, _) \<Rightarrow> sq (iunlockput dp)
            (sq (ilock ip)
            (bnd (idata ip) (\<lambda>ipd.
            bnd (get_idata ipd) (\<lambda>x.
            if type = T_FILE \<and> (d_type x = T_FILE \<or> d_type x = T_DEVICE) then ret (Some ip)
              else sq (iunlockput ip)
                (ret None)))))
        | None \<Rightarrow> bnd (get_inode dp) (\<lambda>d.
          bnd (ialloc (i_dev d) type) (\<lambda>a.
          case a of None \<Rightarrow> sq (iunlockput dp)
            (ret None) | Some ip \<Rightarrow> sq (ilock ip)
              (bnd (idata ip) (\<lambda>ipd.
              sq (upd_idata ipd (\<lambda>x. x\<lparr>d_major := major, d_minor := minor, d_nlink := 1\<rparr>))
              (sq (iupdate ip)
              (bnd (get_inode ip) (\<lambda>i.
              bnd (if type = T_DIR then bnd (dirlink ip [0x2e] (i_inum i)) (\<lambda>l.
                if l < 0 then ret False else bnd (get_inode dp) (\<lambda>d.
                  bnd (dirlink ip [0x2e, 0x2e] (i_inum d)) (\<lambda>l.
                  ret (\<not> l < 0))))
                else ret True) (\<lambda>ok.
              if \<not> ok then create_fail ip ipd dp else
              bnd (dirlink dp name (i_inum i)) (\<lambda>l.
              if l < 0 then create_fail ip ipd dp else
              sq (whenk (type = T_DIR) (bnd (idata dp) (\<lambda>dpd.
                sq (upd_idata dpd (d_nlink_update (\<lambda>n. n + 1)))
                (iupdate dp))))
              (sq (iunlockput dp)
              (ret (Some ip)))))))))))))))"

text \<open>The part of \<open>sys_open\<close> that finds the inode and locks it.\<close>

definition open_inode :: "u8 list \<Rightarrow> u32 \<Rightarrow> nat option K" where
  "open_inode path omode =
    (if omode AND O_CREATE \<noteq> 0 then create path T_FILE 0 0
     else bnd (namei path) (\<lambda>r.
       case r of None \<Rightarrow> ret None | Some ip \<Rightarrow> sq (ilock ip)
         (bnd (idata ip) (\<lambda>ipd.
         bnd (get_idata ipd) (\<lambda>x.
         if d_type x = T_DIR \<and> omode \<noteq> O_RDONLY then (sq (iunlockput ip)
           (ret None)) else
         ret (Some ip))))))"

definition open_fail :: "nat \<Rightarrow> nat option \<Rightarrow> u64 K" where
  "open_fail ip f =
    sq (close_opt f)
    (sq (iunlockput ip)
    end_op_fail)"

definition sys_open :: "u64 K" where
  "sys_open =
    bnd (argint 1) (\<lambda>om.
    (let omode = (word_of_int om :: u32) in
    bnd (argstr 0 MAXPATH) (\<lambda>path.
    if fst path < 0 then ret_int (-1) else
    sq begin_op
    (bnd (open_inode (snd path) omode) (\<lambda>r.
    case r of None \<Rightarrow> end_op_fail | Some ip \<Rightarrow> bnd (idata ip) (\<lambda>ipd.
      bnd (get_idata ipd) (\<lambda>x.
      if d_type x = T_DEVICE \<and> (sint (d_major x) < 0 \<or> sint (d_major x) \<ge> NDEV) then (sq (iunlockput ip)
        end_op_fail) else
      bnd filealloc (\<lambda>fo.
      case fo of None \<Rightarrow> open_fail ip None | Some f \<Rightarrow> bnd (fdalloc f) (\<lambda>fdo.
        case fdo of None \<Rightarrow> open_fail ip (Some f) | Some fd \<Rightarrow> bnd (get_idata ipd) (\<lambda>x.
          sq (if d_type x = T_DEVICE then upd_file f (\<lambda>r. r\<lparr>f_type := FD_DEVICE, f_major := d_major x\<rparr>)
            else upd_file f (\<lambda>r. r\<lparr>f_type := FD_INODE, f_off := 0\<rparr>))
          (sq (upd_file f (\<lambda>r. r\<lparr>f_ip := Some ip, f_readable := (omode AND O_WRONLY = 0),
            f_writable := (omode AND O_WRONLY \<noteq> 0 \<or> omode AND O_RDWR \<noteq> 0)\<rparr>))
          (sq (whenk (omode AND O_TRUNC \<noteq> 0 \<and> d_type x = T_FILE) (itrunc ip))
          (sq (iunlock ip)
          (sq end_op
          (ret (of_nat fd))))))))))))))))"

definition sys_mkdir :: "u64 K" where
  "sys_mkdir =
    sq begin_op
    (bnd (argstr 0 MAXPATH) (\<lambda>path.
    if fst path < 0 then end_op_fail else
    bnd (create (snd path) T_DIR 0 0) (\<lambda>r.
    case r of None \<Rightarrow> end_op_fail | Some ip \<Rightarrow> sq (iunlockput ip)
      (sq end_op
      (ret 0)))))"

definition sys_mknod :: "u64 K" where
  "sys_mknod =
    sq begin_op
    (bnd (argint 1) (\<lambda>major.
    bnd (argint 2) (\<lambda>minor.
    bnd (argstr 0 MAXPATH) (\<lambda>path.
    if fst path < 0 then end_op_fail else
    bnd (create (snd path) T_DEVICE (word_of_int major) (word_of_int minor)) (\<lambda>r.
    case r of None \<Rightarrow> end_op_fail | Some ip \<Rightarrow> sq (iunlockput ip)
      (sq end_op
      (ret 0)))))))"

definition sys_chdir :: "u64 K" where
  "sys_chdir =
    bnd this_proc (\<lambda>i.
    sq begin_op
    (bnd (argstr 0 MAXPATH) (\<lambda>path.
    if fst path < 0 then end_op_fail else
    bnd (namei (snd path)) (\<lambda>r.
    case r of None \<Rightarrow> end_op_fail | Some ip \<Rightarrow> sq (ilock ip)
      (bnd (idata ip) (\<lambda>d.
      bnd (get_idata d) (\<lambda>x.
      if d_type x \<noteq> T_DIR then (sq (iunlockput ip)
        end_op_fail) else
      sq (iunlock ip)
      (bnd (get_proc i) (\<lambda>p.
      bnd (the_ip (p_cwd p)) (\<lambda>cwd.
      sq (iput cwd)
      (sq end_op
      (sq (upd_proc i (p_cwd_update (\<lambda>_. Some ip)))
      (ret 0)))))))))))))"

section \<open>Executing and pipes\<close>

text \<open>The loop of \<open>sys_exec\<close> from argument \<open>i\<close> on, with \<open>k\<close> slots left: whether it went through, the pages of
  \<open>argv\<close> and the strings in them.\<close>

primrec exec_args :: "nat \<Rightarrow> nat \<Rightarrow> u64 \<Rightarrow> u64 list \<Rightarrow> u8 list list \<Rightarrow> (bool \<times> u64 list \<times> u8 list list) K" where
  "exec_args 0 i uargv pages strs = ret (False, pages, strs)"
| "exec_args (Suc k) i uargv pages strs =
  bnd (fetchaddr (uargv + 8 * of_nat i)) (\<lambda>u.
  case u of None \<Rightarrow> ret (False, pages, strs) | Some uarg \<Rightarrow> if uarg = 0 then ret (True, pages, strs) else
    bnd kalloc (\<lambda>pg.
    if pg = 0 then ret (False, pages, strs) else
    bnd (fetchstr uarg PGSIZE) (\<lambda>r.
    sq (write_mem pg 0 (snd r))
    (if fst r < 0 then ret (False, pages @ [pg], strs) else
    exec_args k (Suc i) uargv (pages @ [pg]) (strs @ [snd r])))))"

definition sys_exec :: "u64 K" where
  "sys_exec =
    bnd (argaddr 1) (\<lambda>uargv.
    bnd (argstr 0 MAXPATH) (\<lambda>path.
    if fst path < 0 then ret_int (-1) else
    bnd (exec_args MAXARG 0 uargv [] []) (\<lambda>a.
    if \<not> fst a then (sq (for_each (fst (snd a)) kfree)
      (ret_int (-1))) else
    bnd (kexec (snd path) (snd (snd a))) (\<lambda>r.
    sq (for_each (fst (snd a)) kfree)
    (ret_int r)))))"

definition sys_pipe :: "u64 K" where
  "sys_pipe =
    bnd this_proc (\<lambda>i.
    bnd (argaddr 0) (\<lambda>fdarray.
    bnd pipealloc (\<lambda>r.
    case r of None \<Rightarrow> ret_int (-1) | Some (rfile, wfile) \<Rightarrow> bnd (fdalloc rfile) (\<lambda>a.
      bnd (if a = None then ret None else fdalloc wfile) (\<lambda>b.
      case (a, b) of
          (Some fd0, Some fd1) \<Rightarrow> bnd (get_proc i) (\<lambda>p.
            bnd (copyout (p_pagetable p) fdarray (to_le 4 (of_nat fd0 :: u32))) (\<lambda>c.
            bnd (if c < 0 then ret c else copyout (p_pagetable p) (fdarray + 4) (to_le 4 (of_nat fd1 :: u32))) (\<lambda>c.
            if c < 0 then (sq (clear_fd fd0)
              (sq (clear_fd fd1)
              (sq (fileclose rfile)
              (sq (fileclose wfile)
              (ret_int (-1)))))) else
            ret 0)))
        | _ \<Rightarrow> sq (case a of None \<Rightarrow> ret () | Some fd0 \<Rightarrow> clear_fd fd0)
          (sq (fileclose rfile)
          (sq (fileclose wfile)
          (ret_int (-1)))))))))"

end
