(* ===== verification/Virtio.thy ===== *)
theory Virtio
  imports Bio
begin

text \<open>
  The disk driver, \<open>virtio_disk.c\<close>.

  The driver and the device share a queue: descriptors, a ring of requests (\<open>avail\<close>) and a ring of completed
  requests (\<open>used\<close>), whose device-side index is \<open>v_dev_idx\<close>. \<open>virtio_disk_rw\<close> always sleeps until the interrupt
  clears \<open>b->disk\<close>: \<open>virtio_disk_rw_start\<close> is the routine up to there and \<open>virtio_disk_rw_finish\<close> the code from
  the return of \<open>sleep\<close> on. The registers of the device are \<open>v_mmio\<close>; a register reads as it was last written.
\<close>

section \<open>Operations\<close>

definition upd_vd :: "(vdisk \<Rightarrow> vdisk) \<Rightarrow> unit K" where
  [kdefs]: "upd_vd f = modk (\<lambda>s. s\<lparr>vd := f (vd s)\<rparr>)"

definition rd_reg :: "nat \<Rightarrow> u32 K" where
  [kdefs]: "rd_reg r = getk (\<lambda>s. v_mmio (vd s) r)"

definition wr_reg :: "nat \<Rightarrow> u32 \<Rightarrow> unit K" where
  [kdefs]: "wr_reg r v = upd_vd (v_mmio_update (\<lambda>m. m(r := v)))"

definition VIRTIO_MMIO_MAGIC_VALUE :: nat where [simp]: "VIRTIO_MMIO_MAGIC_VALUE = 0x000"
definition VIRTIO_MMIO_VERSION :: nat where [simp]: "VIRTIO_MMIO_VERSION = 0x004"
definition VIRTIO_MMIO_DEVICE_ID :: nat where [simp]: "VIRTIO_MMIO_DEVICE_ID = 0x008"
definition VIRTIO_MMIO_VENDOR_ID :: nat where [simp]: "VIRTIO_MMIO_VENDOR_ID = 0x00c"
definition VIRTIO_MMIO_DEVICE_FEATURES :: nat where [simp]: "VIRTIO_MMIO_DEVICE_FEATURES = 0x010"
definition VIRTIO_MMIO_DRIVER_FEATURES :: nat where [simp]: "VIRTIO_MMIO_DRIVER_FEATURES = 0x020"
definition VIRTIO_MMIO_QUEUE_SEL :: nat where [simp]: "VIRTIO_MMIO_QUEUE_SEL = 0x030"
definition VIRTIO_MMIO_QUEUE_NUM_MAX :: nat where [simp]: "VIRTIO_MMIO_QUEUE_NUM_MAX = 0x034"
definition VIRTIO_MMIO_QUEUE_NUM :: nat where [simp]: "VIRTIO_MMIO_QUEUE_NUM = 0x038"
definition VIRTIO_MMIO_QUEUE_READY :: nat where [simp]: "VIRTIO_MMIO_QUEUE_READY = 0x044"
definition VIRTIO_MMIO_QUEUE_NOTIFY :: nat where [simp]: "VIRTIO_MMIO_QUEUE_NOTIFY = 0x050"
definition VIRTIO_MMIO_INTERRUPT_STATUS :: nat where [simp]: "VIRTIO_MMIO_INTERRUPT_STATUS = 0x060"
definition VIRTIO_MMIO_INTERRUPT_ACK :: nat where [simp]: "VIRTIO_MMIO_INTERRUPT_ACK = 0x064"
definition VIRTIO_MMIO_STATUS :: nat where [simp]: "VIRTIO_MMIO_STATUS = 0x070"
definition VIRTIO_MMIO_QUEUE_DESC_LOW :: nat where [simp]: "VIRTIO_MMIO_QUEUE_DESC_LOW = 0x080"
definition VIRTIO_MMIO_QUEUE_DESC_HIGH :: nat where [simp]: "VIRTIO_MMIO_QUEUE_DESC_HIGH = 0x084"
definition VIRTIO_MMIO_DRIVER_DESC_LOW :: nat where [simp]: "VIRTIO_MMIO_DRIVER_DESC_LOW = 0x090"
definition VIRTIO_MMIO_DRIVER_DESC_HIGH :: nat where [simp]: "VIRTIO_MMIO_DRIVER_DESC_HIGH = 0x094"
definition VIRTIO_MMIO_DEVICE_DESC_LOW :: nat where [simp]: "VIRTIO_MMIO_DEVICE_DESC_LOW = 0x0a0"
definition VIRTIO_MMIO_DEVICE_DESC_HIGH :: nat where [simp]: "VIRTIO_MMIO_DEVICE_DESC_HIGH = 0x0a4"

text \<open>The feature bits the driver turns off: 5, 7, 11, 12, 27, 29 and 28.\<close>

definition negotiate :: "u32 \<Rightarrow> u32" where
  "negotiate features = fold (\<lambda>b f. f AND NOT (push_bit b 1)) [5, 7, 11, 12, 27, 29, 28] features"

definition queue_addr :: "nat \<Rightarrow> nat \<Rightarrow> u64 \<Rightarrow> unit K" where
  [kdefs]: "queue_addr lo hi pa =
    sq (wr_reg lo (ucast pa))
    (wr_reg hi (ucast (drop_bit 32 pa)))"

definition virtio_disk_init :: "unit K" where
  "virtio_disk_init =
    sq (initlock VdiskLock)
    (bnd (rd_reg VIRTIO_MMIO_MAGIC_VALUE) (\<lambda>magic.
    bnd (rd_reg VIRTIO_MMIO_VERSION) (\<lambda>version.
    bnd (rd_reg VIRTIO_MMIO_DEVICE_ID) (\<lambda>device.
    bnd (rd_reg VIRTIO_MMIO_VENDOR_ID) (\<lambda>vendor.
    if magic \<noteq> 0x74726976 \<or> version \<noteq> 2 \<or> device \<noteq> 2 \<or> vendor \<noteq> 0x554d4551 then panic ''could not find virtio disk'' else
    sq (wr_reg VIRTIO_MMIO_STATUS 0)
    (sq (wr_reg VIRTIO_MMIO_STATUS 1)
    (sq (wr_reg VIRTIO_MMIO_STATUS 3)
    (bnd (rd_reg VIRTIO_MMIO_DEVICE_FEATURES) (\<lambda>features.
    sq (wr_reg VIRTIO_MMIO_DRIVER_FEATURES (negotiate features))
    (sq (wr_reg VIRTIO_MMIO_STATUS 11)
    (bnd (rd_reg VIRTIO_MMIO_STATUS) (\<lambda>status.
    if status AND 8 = 0 then panic ''virtio disk FEATURES_OK unset'' else
    sq (wr_reg VIRTIO_MMIO_QUEUE_SEL 0)
    (bnd (rd_reg VIRTIO_MMIO_QUEUE_READY) (\<lambda>ready.
    if ready \<noteq> 0 then panic ''virtio disk should not be ready'' else
    bnd (rd_reg VIRTIO_MMIO_QUEUE_NUM_MAX) (\<lambda>mx.
    if mx = 0 then panic ''virtio disk has no queue 0'' else
    if mx < of_nat NUM then panic ''virtio disk max queue too short'' else
    bnd kalloc (\<lambda>desc.
    bnd kalloc (\<lambda>avail.
    bnd kalloc (\<lambda>used.
    sq (upd_vd (\<lambda>v. v\<lparr>v_desc_page := desc, v_avail_page := avail, v_used_page := used\<rparr>))
    (if desc = 0 \<or> avail = 0 \<or> used = 0 then panic ''virtio disk kalloc'' else
    sq (upd_vd (\<lambda>v. v\<lparr>v_desc := replicate NUM zero_desc, v_avail_idx := 0, v_avail := replicate NUM 0,
      v_dev_idx := 0, v_used := replicate NUM 0\<rparr>))
    (sq (wr_reg VIRTIO_MMIO_QUEUE_NUM (of_nat NUM))
    (sq (queue_addr VIRTIO_MMIO_QUEUE_DESC_LOW VIRTIO_MMIO_QUEUE_DESC_HIGH desc)
    (sq (queue_addr VIRTIO_MMIO_DRIVER_DESC_LOW VIRTIO_MMIO_DRIVER_DESC_HIGH avail)
    (sq (queue_addr VIRTIO_MMIO_DEVICE_DESC_LOW VIRTIO_MMIO_DEVICE_DESC_HIGH used)
    (sq (wr_reg VIRTIO_MMIO_QUEUE_READY 1)
    (sq (upd_vd (v_free_update (\<lambda>_. replicate NUM True)))
    (wr_reg VIRTIO_MMIO_STATUS (status OR 4)))))))))))))))))))))))))))"

fun alloc_scan :: "nat list \<Rightarrow> nat option K" where
  "alloc_scan [] = ret None"
| "alloc_scan (i # is) =
  bnd (getk vd) (\<lambda>v.
  if v_free v ! i then sq (upd_vd (v_free_update (\<lambda>l. l[i := False])))
    (ret (Some i))
    else alloc_scan is)"

definition alloc_desc :: "nat option K" where
  "alloc_desc = alloc_scan [0..<NUM]"

definition free_desc :: "nat \<Rightarrow> unit K" where
  "free_desc i =
    (if i \<ge> NUM then panic ''free_desc 1'' else
    bnd (getk vd) (\<lambda>v.
    if v_free v ! i then panic ''free_desc 2'' else
    sq (upd_vd (v_desc_update (\<lambda>l. l[i := zero_desc])))
    (sq (upd_vd (v_free_update (\<lambda>l. l[i := True])))
    (wakeup ChDiskFree))))"

text \<open>A chain has at most \<open>NUM\<close> descriptors: freeing one of them twice is a panic.\<close>

fun free_chain_loop :: "nat \<Rightarrow> nat \<Rightarrow> unit K" where
  "free_chain_loop 0 i = fault"
| "free_chain_loop (Suc n) i =
  bnd (getk vd) (\<lambda>v.
  if i \<ge> length (v_desc v) then fault else
  (let d = v_desc v ! i in
  sq (free_desc i)
  (if ds_flags d AND 1 \<noteq> 0 then free_chain_loop n (unat (ds_next d)) else ret ())))"

definition free_chain :: "nat \<Rightarrow> unit K" where
  "free_chain i = free_chain_loop (Suc NUM) i"

definition alloc3_desc :: "(nat \<times> nat \<times> nat) option K" where
  "alloc3_desc =
    bnd alloc_desc (\<lambda>a.
    case a of None \<Rightarrow> ret None | Some i0 \<Rightarrow> bnd alloc_desc (\<lambda>b.
      case b of None \<Rightarrow> sq (free_desc i0)
        (ret None) | Some i1 \<Rightarrow> bnd alloc_desc (\<lambda>c.
          case c of None \<Rightarrow> sq (free_desc i0)
            (sq (free_desc i1)
            (ret None))
            | Some i2 \<Rightarrow> ret (Some (i0, i1, i2)))))"

text \<open>Formatting the request and passing it to the device.\<close>

definition submit :: "nat \<Rightarrow> bool \<Rightarrow> nat \<Rightarrow> nat \<Rightarrow> nat \<Rightarrow> unit K" where
  "submit b wr i0 i1 i2 =
    bnd (get_buf b) (\<lambda>x.
    sq (upd_vd (v_ops_update (\<lambda>l. l[i0 := \<lparr>rq_type = (if wr then 1 else 0), rq_reserved = 0,
      rq_sector = ucast (b_blockno x * of_nat (BSIZE div 512))\<rparr>])))
    (sq (upd_vd (v_desc_update (\<lambda>l. l[i0 := \<lparr>ds_addr = DReq i0, ds_len = 16, ds_flags = 1, ds_next = of_nat i1\<rparr>])))
    (sq (upd_vd (v_desc_update (\<lambda>l. l[i1 := \<lparr>ds_addr = DData (b_data x), ds_len = of_nat BSIZE,
      ds_flags = (if wr then 0 else 2) OR 1, ds_next = of_nat i2\<rparr>])))
    (sq (upd_vd (v_info_update (\<lambda>l. l[i0 := (l ! i0)\<lparr>vi_status := 0xff\<rparr>])))
    (sq (upd_vd (v_desc_update (\<lambda>l. l[i2 := \<lparr>ds_addr = DStatus i0, ds_len = 1, ds_flags = 2, ds_next = 0\<rparr>])))
    (sq (upd_buf b (b_disk_update (\<lambda>_. True)))
    (sq (upd_vd (v_info_update (\<lambda>l. l[i0 := (l ! i0)\<lparr>vi_b := Some b\<rparr>])))
    (sq (upd_vd (\<lambda>v. v\<lparr>v_avail := (v_avail v)[unat (v_avail_idx v) mod NUM := of_nat i0]\<rparr>))
    (sq (upd_vd (v_avail_idx_update (\<lambda>n. n + 1)))
    (wr_reg VIRTIO_MMIO_QUEUE_NOTIFY 0))))))))))"

text \<open>The first half, until \<open>sleep\<close>. The result is the head of the chain, which is a local variable of the routine;
  \<open>virtio_disk_rw_retry\<close> is what it does when it had to wait for descriptors.\<close>

definition virtio_disk_rw_try :: "nat \<Rightarrow> bool \<Rightarrow> nat option K" where
  "virtio_disk_rw_try b wr =
    bnd alloc3_desc (\<lambda>r.
    case r of
        None \<Rightarrow> sq (sleep ChDiskFree VdiskLock)
          (ret None)
      | Some (i0, i1, i2) \<Rightarrow> sq (submit b wr i0 i1 i2)
        (ret (Some i0)))"

definition virtio_disk_rw_start :: "nat \<Rightarrow> bool \<Rightarrow> nat option K" where
  "virtio_disk_rw_start b wr =
    sq (acquire VdiskLock)
    (virtio_disk_rw_try b wr)"

definition virtio_disk_rw_retry :: "nat \<Rightarrow> bool \<Rightarrow> nat option K" where
  "virtio_disk_rw_retry b wr =
    sq (sleep_resume VdiskLock)
    (virtio_disk_rw_try b wr)"

definition virtio_disk_rw_wait :: "nat \<Rightarrow> nat \<Rightarrow> unit K" where
  "virtio_disk_rw_wait b i0 =
    bnd (get_buf b) (\<lambda>x.
    if b_disk x then sleep (ChBuf b) VdiskLock
      else sq (upd_vd (v_info_update (\<lambda>l. l[i0 := (l ! i0)\<lparr>vi_b := None\<rparr>])))
        (sq (free_chain i0)
        (release VdiskLock)))"

definition virtio_disk_rw_finish :: "nat \<Rightarrow> nat \<Rightarrow> unit K" where
  "virtio_disk_rw_finish b i0 =
    sq (sleep_resume VdiskLock)
    (virtio_disk_rw_wait b i0)"

text \<open>The interrupt handles the requests between its own index and the device's.\<close>

fun intr_loop :: "nat \<Rightarrow> unit K" where
  "intr_loop 0 = ret ()"
| "intr_loop (Suc n) =
  bnd (getk vd) (\<lambda>v.
  if v_used_idx v \<noteq> v_dev_idx v then (let id = unat (v_used v ! (unat (v_used_idx v) mod NUM)) in
    sq (needs (id < NUM))
    (if vi_status (v_info v ! id) \<noteq> 0 then panic ''virtio_disk_intr status'' else
    case vi_b (v_info v ! id) of None \<Rightarrow> fault | Some b \<Rightarrow> sq (upd_buf b (b_disk_update (\<lambda>_. False)))
      (sq (wakeup (ChBuf b))
      (sq (upd_vd (v_used_idx_update (\<lambda>i. i + 1)))
      (intr_loop n)))))
    else ret ())"

definition virtio_disk_intr :: "unit K" where
  "virtio_disk_intr =
    sq (acquire VdiskLock)
    (bnd (rd_reg VIRTIO_MMIO_INTERRUPT_STATUS) (\<lambda>st.
    sq (wr_reg VIRTIO_MMIO_INTERRUPT_ACK (st AND 3))
    (bnd (getk vd) (\<lambda>v.
    sq (intr_loop (unat (v_dev_idx v - v_used_idx v)))
    (release VdiskLock)))))"

end
