(* ===== verification/Trap.thy ===== *)
theory Trap
  imports Sysfile Virtio
begin

text \<open>
  Entering and leaving the kernel: the interrupt controller \<open>plic.c\<close>, the traps \<open>trap.c\<close>, the dispatch of
  system calls \<open>syscall()\<close>, \<open>forkret\<close> of \<open>proc.c\<close> and the boot sequence \<open>main.c\<close>.

  The registers of the controller are the memory \<open>plic\<close>. The kernel stack of a process is empty on every entry
  from user space, so that the frame of \<open>syscall()\<close> lies at the same address each time and the jump buffer of a
  transaction, filled on the entry of its first system call, always leads to the frame of the current one: a
  \<open>LongJmp\<close> of a system call ends in \<open>syscall()\<close>.
\<close>

section \<open>The interrupt controller\<close>

definition UART0_IRQ :: nat where [simp]: "UART0_IRQ = 10"
definition VIRTIO0_IRQ :: nat where [simp]: "VIRTIO0_IRQ = 1"

definition cpuid :: "u32 K" where
  [kdefs]: "cpuid =
    bnd (r_csr TP) (\<lambda>tp.
    ret (ucast tp))"

definition wr_plic :: "u64 \<Rightarrow> u32 \<Rightarrow> unit K" where
  [kdefs]: "wr_plic a v = modk (\<lambda>s. s\<lparr>plic := (plic s)(a := v)\<rparr>)"

definition PLIC_SENABLE :: "u32 \<Rightarrow> u64" where
  "PLIC_SENABLE hart = PLIC + 0x2080 + scast hart * 0x100"

definition PLIC_SPRIORITY :: "u32 \<Rightarrow> u64" where
  "PLIC_SPRIORITY hart = PLIC + 0x201000 + scast hart * 0x2000"

definition PLIC_SCLAIM :: "u32 \<Rightarrow> u64" where
  "PLIC_SCLAIM hart = PLIC + 0x201004 + scast hart * 0x2000"

definition plicinit :: "unit K" where
  [kdefs]: "plicinit =
    sq (wr_plic (PLIC + of_nat UART0_IRQ * 4) 1)
    (wr_plic (PLIC + of_nat VIRTIO0_IRQ * 4) 1)"

definition plicinithart :: "unit K" where
  [kdefs]: "plicinithart =
    bnd cpuid (\<lambda>hart.
    sq (wr_plic (PLIC_SENABLE hart) (push_bit UART0_IRQ 1 OR push_bit VIRTIO0_IRQ 1))
    (wr_plic (PLIC_SPRIORITY hart) 0))"

definition plic_claim :: "u32 K" where
  [kdefs]: "plic_claim =
    bnd cpuid (\<lambda>hart.
    getk (\<lambda>s. plic s (PLIC_SCLAIM hart)))"

definition plic_complete :: "u32 \<Rightarrow> unit K" where
  [kdefs]: "plic_complete irq =
    bnd cpuid (\<lambda>hart.
    wr_plic (PLIC_SCLAIM hart) irq)"

section \<open>System calls\<close>

definition sys_call :: "u8 list \<Rightarrow> int \<Rightarrow> u64 K option" where
  "sys_call pad num =
    (if num \<le> 0 \<or> num \<ge> 26 then None
     else Some ([sys_fork, sys_exit, sys_wait, sys_pipe, sys_read, sys_kill, sys_exec, sys_fstat pad, sys_chdir, sys_dup,
       sys_getpid, sys_sbrk, sys_pause, sys_uptime, sys_open, sys_write, sys_mknod, sys_unlink, sys_link, sys_mkdir,
       sys_close, sys_txbegin, sys_txcommit, sys_txabort, sys_txstatus] ! (nat num - 1)))"

definition catch_longjmp :: "unit K \<Rightarrow> unit K \<Rightarrow> unit K" where
  "catch_longjmp m h = (\<lambda>s. case m s of LongJmp s' \<Rightarrow> h s' | r \<Rightarrow> r)"

definition dispatch :: "u8 list \<Rightarrow> nat \<Rightarrow> unit K" where
  "dispatch pad i =
    bnd (get_proc i) (\<lambda>p.
    bnd (get_tf (p_trapframe p)) (\<lambda>t.
    (let num = sint (ucast (t TF_a7) :: u32) in
    case sys_call pad num of
        Some f \<Rightarrow> bnd f (\<lambda>r.
          bnd (get_proc i) (\<lambda>p.
          upd_tf (p_trapframe p) (\<lambda>t. t(TF_a0 := r))))
      | None \<Rightarrow> sq (printk (''%d %s: unknown sys call %d'' @ NL)
          [PInt (word_of_int (p_pid p)), PStr (Some (p_name p)), PInt (word_of_int num)])
        (upd_tf (p_trapframe p) (\<lambda>t. t(TF_a0 := - 1))))))"

definition abort_return :: "nat \<Rightarrow> unit K" where
  "abort_return i =
    bnd (get_proc i) (\<lambda>p.
    bnd (get_tx (p_tx p)) (\<lambda>t.
    bnd (get_tf (t_saved_tf t)) (\<lambda>tf.
    put_obj (p_trapframe p) (Trapframe (tf(TF_a0 := - 1))))))"

definition syscall :: "u8 list \<Rightarrow> unit K" where
  "syscall pad =
    bnd this_proc (\<lambda>i.
    bnd (get_proc i) (\<lambda>p.
    bnd tx_active (\<lambda>a.
    sq (whenk a (bnd (get_tx (p_tx p)) (\<lambda>t.
      whenk (\<not> t_kjmp_valid t) (upd_tx (p_tx p) (t_kjmp_valid_update (\<lambda>_. True))))))
    (catch_longjmp (dispatch pad i) (abort_return i)))))"

section \<open>Traps\<close>

definition trapinit :: "unit K" where
  [kdefs]: "trapinit = initlock TicksLock"

definition trapinithart :: "unit K" where
  [kdefs]: "trapinithart =
    bnd (getk (\<lambda>s. l_kernelvec (lay s))) (\<lambda>kv.
    w_csr STVEC kv)"

definition csr_intr_on :: "unit K" where
  [kdefs]: "csr_intr_on =
    bnd (r_csr SSTATUS) (\<lambda>x.
    w_csr SSTATUS (x OR 2))"

definition csr_intr_off :: "unit K" where
  [kdefs]: "csr_intr_off =
    bnd (r_csr SSTATUS) (\<lambda>x.
    w_csr SSTATUS (x AND NOT 2))"

definition clockintr :: "unit K" where
  "clockintr =
    bnd cpuid (\<lambda>id.
    sq (whenk (id = 0) (sq (acquire TicksLock)
      (sq (modk (\<lambda>s. s\<lparr>ticks := ticks s + 1\<rparr>))
      (sq (wakeup ChTicks)
      (release TicksLock)))))
    (bnd (r_csr TIME) (\<lambda>t.
    w_csr STIMECMP (t + 1000000))))"

definition devintr :: "int K" where
  "devintr =
    bnd (r_csr SCAUSE) (\<lambda>scause.
    if scause = 0x8000000000000009 then bnd plic_claim (\<lambda>irq.
      sq (if irq = of_nat UART0_IRQ then uartintr
        else if irq = of_nat VIRTIO0_IRQ then virtio_disk_intr
        else whenk (irq \<noteq> 0) (printk (''unexpected interrupt irq=%d'' @ NL) [PInt (scast irq)]))
      (sq (whenk (irq \<noteq> 0) (plic_complete irq))
      (ret 1)))
      else if scause = 0x8000000000000005 then sq clockintr
        (ret 2)
      else ret 0)"

definition prepare_return :: "unit K" where
  "prepare_return =
    bnd this_proc (\<lambda>i.
    bnd (get_proc i) (\<lambda>p.
    sq csr_intr_off
    (bnd (getk lay) (\<lambda>l.
    sq (w_csr STVEC (TRAMPOLINE + (l_uservec l - l_trampoline l)))
    (bnd (r_csr SATP) (\<lambda>satp.
    bnd (r_csr TP) (\<lambda>tp.
    sq (upd_tf (p_trapframe p) (\<lambda>t. t(TF_kernel_satp := satp, TF_kernel_sp := p_kstack p + of_nat PGSIZE,
      TF_kernel_trap := l_usertrap l, TF_kernel_hartid := tp)))
    (bnd (r_csr SSTATUS) (\<lambda>x.
    sq (w_csr SSTATUS ((x AND NOT (push_bit 8 1)) OR push_bit 5 1))
    (bnd (get_tf (p_trapframe p)) (\<lambda>t.
    w_csr SEPC (t TF_epc))))))))))))"

text \<open>What a trap from user space comes to before the process returns; the result is \<open>which_dev\<close>.\<close>

definition user_event :: "u8 list \<Rightarrow> nat \<Rightarrow> int K" where
  "user_event pad i =
    bnd (get_proc i) (\<lambda>p.
    bnd (r_csr SCAUSE) (\<lambda>scause.
    if scause = 8 then bnd (killed i) (\<lambda>k.
      sq (whenk k (kexit (-1)))
      (sq (upd_tf (p_trapframe p) (\<lambda>t. t(TF_epc := t TF_epc + 4)))
      (sq csr_intr_on
      (sq (syscall pad)
      (ret 0)))))
      else bnd devintr (\<lambda>dev.
        if dev \<noteq> 0 then ret dev else
        bnd (r_csr STVAL) (\<lambda>stval.
        bnd (if scause = 15 \<or> scause = 13 then vmfault (p_pagetable p) stval (scause = 13) else ret 0) (\<lambda>f.
        if f \<noteq> 0 then ret 0 else
        bnd (r_csr SEPC) (\<lambda>sepc.
        sq (printk (''usertrap(): unexpected scause 0x%lx pid=%d'' @ NL) [PInt scause, PInt (word_of_int (p_pid p))])
        (sq (printk (''            sepc=0x%lx stval=0x%lx'' @ NL) [PInt sepc, PInt stval])
        (sq (setkilled i)
        (ret 0)))))))))"

definition usertrap_end :: "nat \<Rightarrow> u64 K" where
  "usertrap_end i =
    sq prepare_return
    (bnd (get_proc i) (\<lambda>p.
    ret (MAKE_SATP (p_pagetable p))))"

definition usertrap :: "u8 list \<Rightarrow> u64 K" where
  "usertrap pad =
    bnd (r_csr SSTATUS) (\<lambda>st.
    if st AND push_bit 8 1 \<noteq> 0 then panic ''usertrap: not from user mode'' else
    bnd (getk (\<lambda>s. l_kernelvec (lay s))) (\<lambda>kv.
    sq (w_csr STVEC kv)
    (bnd this_proc (\<lambda>i.
    bnd (get_proc i) (\<lambda>p.
    bnd (r_csr SEPC) (\<lambda>sepc.
    sq (upd_tf (p_trapframe p) (\<lambda>t. t(TF_epc := sepc)))
    (bnd (user_event pad i) (\<lambda>dev.
    bnd (killed i) (\<lambda>k.
    sq (whenk k (kexit (-1)))
    (sq (whenk (dev = 2) yield)
    (usertrap_end i)))))))))))"

text \<open>After a timer interrupt the process is in \<open>yield\<close>; this is the rest of \<open>usertrap\<close> when it runs again.\<close>

definition usertrap_resume :: "u64 K" where
  "usertrap_resume =
    sq yield_resume
    (bnd this_proc (\<lambda>i.
    usertrap_end i))"

definition kerneltrap_end :: "u64 \<Rightarrow> u64 \<Rightarrow> unit K" where
  [kdefs]: "kerneltrap_end sepc sstatus =
    sq (w_csr SEPC sepc)
    (w_csr SSTATUS sstatus)"

definition kerneltrap :: "unit K" where
  "kerneltrap =
    bnd (r_csr SEPC) (\<lambda>sepc.
    bnd (r_csr SSTATUS) (\<lambda>sstatus.
    bnd (r_csr SCAUSE) (\<lambda>scause.
    if sstatus AND push_bit 8 1 = 0 then panic ''kerneltrap: not from supervisor mode'' else
    if sstatus AND 2 \<noteq> 0 then panic ''kerneltrap: interrupts enabled'' else
    bnd devintr (\<lambda>dev.
    if dev = 0 then (bnd (r_csr STVAL) (\<lambda>stval.
      sq (printk (''scause=0x%lx sepc=0x%lx stval=0x%lx'' @ NL) [PInt scause, PInt sepc, PInt stval])
      (panic ''kerneltrap''))) else
    bnd myproc (\<lambda>p.
    sq (whenk (dev = 2 \<and> p \<noteq> None) yield)
    (kerneltrap_end sepc sstatus))))))"

definition kerneltrap_resume :: "u64 \<Rightarrow> u64 \<Rightarrow> unit K" where
  "kerneltrap_resume sepc sstatus =
    sq yield_resume
    (kerneltrap_end sepc sstatus)"

section \<open>The first process and booting\<close>

text \<open>\<open>forkret\<close> up to the jump to the trampoline; the result is the value it passes in \<open>a0\<close>.\<close>

definition init_path :: "u8 list" where
  "init_path = bytes_of ''/init''"

definition forkret :: "u64 K" where
  "forkret =
    bnd this_proc (\<lambda>i.
    sq (release (ProcLock i))
    (bnd (getk fs_first) (\<lambda>first.
    sq (whenk first (sq (fsinit ROOTDEV)
      (sq (modk (\<lambda>s. s\<lparr>fs_first := False\<rparr>))
      (bnd (kexec init_path [init_path]) (\<lambda>r.
      bnd (get_proc i) (\<lambda>p.
      sq (upd_tf (p_trapframe p) (\<lambda>t. t(TF_a0 := word_of_int r)))
      (whenk (r = -1) (panic ''exec''))))))))
    (usertrap_end i))))"

text \<open>\<open>main\<close> on the first CPU, up to \<open>scheduler()\<close>.\<close>

definition main_boot :: "unit K" where
  "main_boot =
    sq consoleinit
    (sq (initlock PrLock)
    (sq (printk NL [])
    (sq (printk (''xv6 kernel is booting'' @ NL) [])
    (sq (printk NL [])
    (sq kinit
    (sq kvminit
    (sq kvminithart
    (sq procinit
    (sq trapinit
    (sq trapinithart
    (sq plicinit
    (sq plicinithart
    (sq binit
    (sq iinit
    (sq fileinit
    (sq virtio_disk_init
    userinit))))))))))))))))"

definition main_other :: "unit K" where
  "main_other =
    bnd cpuid (\<lambda>hart.
    sq (printk (''hart %d starting'' @ NL) [PInt (scast hart)])
    (sq kvminithart
    (sq trapinithart
    plicinithart)))"

end
