(* ===== verification/Usys.thy ===== *)
theory Usys
  imports Printf
begin

text \<open>
  What the user programs share: the system calls as a process sees them (\<open>user.h\<close>), and programs that use them.

  The kernel is a parameter here: a function \<open>sys\<close> from a call and the state \<open>'w\<close> of everything outside the process
  to the value returned, the bytes stored through a pointer argument, and the next state. A program maps the state
  to \<open>Some\<close> of a result, or to \<open>None\<close> when it does not return:
  \<^item> \<open>Val a w\<close>: the function returned \<open>a\<close>;
  \<^item> \<open>Exited n w\<close>: the process called \<open>exit(n)\<close>;
  \<^item> \<open>Execed w\<close>: \<open>exec\<close> replaced the program;
  \<^item> \<open>Wrong\<close>: the C program has no defined meaning here.

  Strings are lists of the bytes before the terminating NUL.
\<close>

section \<open>Programs\<close>

datatype call =
    CFork | CWait | CPipe
  | CWrite int "u8 list"
  | CRead int nat
  | CClose int
  | CKill int
  | CExec "u8 list" "u8 list list"
  | COpen "u8 list" u32
  | CMknod "u8 list" nat nat
  | CUnlink "u8 list"
  | CFstat int
  | CLink "u8 list" "u8 list"
  | CMkdir "u8 list"
  | CChdir "u8 list"
  | CDup int
  | CTxbegin | CTxcommit | CTxabort

type_synonym 'w sys = "call \<Rightarrow> 'w \<Rightarrow> int \<times> u8 list \<times> 'w"

datatype ('a, 'w) uout = Val 'a 'w | Exited int 'w | Execed 'w | Wrong

type_synonym ('w, 'a) umon = "'w \<Rightarrow> ('a, 'w) uout option"

named_theorems udefs \<open>the combinators of user programs unfolded\<close>

definition uret :: "'a \<Rightarrow> ('w, 'a) umon" where
  [udefs]: "uret a = (\<lambda>w. Some (Val a w))"

definition ubnd :: "('w, 'a) umon \<Rightarrow> ('a \<Rightarrow> ('w, 'b) umon) \<Rightarrow> ('w, 'b) umon" where
  [udefs]: "ubnd m f = (\<lambda>w. Option.bind (m w) (\<lambda>r. case r of
      Val a w' \<Rightarrow> f a w'
    | Exited n w' \<Rightarrow> Some (Exited n w')
    | Execed w' \<Rightarrow> Some (Execed w')
    | Wrong \<Rightarrow> Some Wrong))"

definition usq :: "('w, 'a) umon \<Rightarrow> ('w, 'b) umon \<Rightarrow> ('w, 'b) umon" where
  [udefs]: "usq m k = ubnd m (\<lambda>_. k)"

definition usys :: "'w sys \<Rightarrow> call \<Rightarrow> ('w, int) umon" where
  [udefs]: "usys sys c = (\<lambda>w. case sys c w of (r, d, w') \<Rightarrow> Some (Val r w'))"

text \<open>A call that stores bytes through a pointer argument.\<close>

definition usys_data :: "'w sys \<Rightarrow> call \<Rightarrow> ('w, int \<times> u8 list) umon" where
  [udefs]: "usys_data sys c = (\<lambda>w. case sys c w of (r, d, w') \<Rightarrow> Some (Val (r, d) w'))"

definition uexit :: "int \<Rightarrow> ('w, 'a) umon" where
  [udefs]: "uexit n = (\<lambda>w. Some (Exited n w))"

definition wrong :: "('w, 'a) umon" where
  [udefs]: "wrong = (\<lambda>w. Some Wrong)"

definition uexec :: "'w sys \<Rightarrow> u8 list \<Rightarrow> u8 list list \<Rightarrow> ('w, int) umon" where
  [udefs]: "uexec sys path argv = (\<lambda>w. case sys (CExec path argv) w of (r, d, w') \<Rightarrow>
     if r < 0 then Some (Val r w') else Some (Execed w'))"

text \<open>\<open>start\<close> of \<open>ulib.c\<close>: what runs \<open>main\<close>.\<close>

definition ustart :: "('w, int) umon \<Rightarrow> ('w, int) umon" where
  "ustart main = ubnd main (\<lambda>r. uexit r)"

lemma ubnd_simps [simp]:
  "m w = Some (Val a w') \<Longrightarrow> ubnd m f w = f a w'" "m w = Some (Exited n w') \<Longrightarrow> ubnd m f w = Some (Exited n w')"
  "m w = Some (Execed w') \<Longrightarrow> ubnd m f w = Some (Execed w')"
  "m w = Some (Val a w') \<Longrightarrow> usq m k w = k w'" "m w = Some (Exited n w') \<Longrightarrow> usq m k w = Some (Exited n w')"
  "m w = Some (Execed w') \<Longrightarrow> usq m k w = Some (Execed w')"
  "ubnd (uret a) f = f a" "usq (uret a) k = k" "ubnd (uexit n) g = uexit n" "usq (uexit n) k = uexit n"
  by (simp_all add: udefs)

lemma ubnd_assoc: "ubnd (ubnd m f) g = ubnd m (\<lambda>a. ubnd (f a) g)"
  by (rule ext) (auto simp: ubnd_def bind_eq_None_conv split: option.splits uout.splits Option.bind_splits)

lemma ubnd_mono [partial_function_mono]:
  assumes "\<And>w. mono_option (\<lambda>f. B f w)" and "\<And>a w. mono_option (\<lambda>f. C f a w)"
  shows "mono_option (\<lambda>f. ubnd (B f) (C f) w)"
  unfolding ubnd_def
proof (rule bind_mono [OF assms(1)])
  fix r show "mono_option (\<lambda>f. case r of Val a w' \<Rightarrow> C f a w' | Exited n w' \<Rightarrow> Some (Exited n w')
      | Execed w' \<Rightarrow> Some (Execed w') | Wrong \<Rightarrow> Some Wrong)"
    by (cases r) (simp_all add: assms(2) option.const_mono)
qed

lemma usq_mono [partial_function_mono]:
  assumes "\<And>w. mono_option (\<lambda>f. B f w)" and "\<And>w. mono_option (\<lambda>f. C f w)"
  shows "mono_option (\<lambda>f. usq (B f) (C f) w)"
  unfolding usq_def by (intro ubnd_mono assms)

lemma uif_mono [partial_function_mono]:
  assumes "mono_option (\<lambda>f. B f w)" and "mono_option (\<lambda>f. C f w)"
  shows "mono_option (\<lambda>f. (if b then B f else C f) w)"
  using assms by (cases b) simp_all

section \<open>Output\<close>

primrec uputs :: "'w sys \<Rightarrow> int \<Rightarrow> u8 list \<Rightarrow> ('w, unit) umon" where
  "uputs sys fd [] = uret ()"
| "uputs sys fd (c # cs) = usq (usys sys (CWrite fd [c])) (uputs sys fd cs)"

definition fprintf :: "'w sys \<Rightarrow> int \<Rightarrow> string \<Rightarrow> parg list \<Rightarrow> ('w, unit) umon" where
  "fprintf sys fd fmt args = (case vprintf (bytes_of fmt) args of None \<Rightarrow> wrong | Some out \<Rightarrow> uputs sys fd out)"

section \<open>Streams\<close>

text \<open>The contract of \<open>read\<close> and \<open>write\<close> that the filters rely on: \<open>St w inp out\<close> says that in state \<open>w\<close> the bytes
  \<open>inp\<close> are still to be read from \<open>fd\<close> and \<open>out\<close> was written to descriptor 1. A read returns some of the bytes asked
  for, none only at the end; a write takes all bytes.\<close>

definition streams :: "'w sys \<Rightarrow> int \<Rightarrow> ('w \<Rightarrow> u8 list \<Rightarrow> u8 list \<Rightarrow> bool) \<Rightarrow> bool" where
  "streams sys fd St \<longleftrightarrow>
     (\<forall>w inp out n. St w inp out \<longrightarrow> (\<exists>c rest w'. sys (CRead fd n) w = (int (length c), c, w') \<and> inp = c @ rest \<and>
        length c \<le> n \<and> (c = [] \<longleftrightarrow> n = 0 \<or> inp = []) \<and> St w' rest out)) \<and>
     (\<forall>w inp out bs. St w inp out \<longrightarrow> (\<exists>d w'. sys (CWrite 1 bs) w = (int (length bs), d, w') \<and> St w' inp (out @ bs)))"

lemma streams_read:
  assumes "streams sys fd St" "St w inp out"
  obtains c rest w' where "usys_data sys (CRead fd n) w = Some (Val (int (length c), c) w')" "inp = c @ rest" "length c \<le> n"
    "c = [] \<longleftrightarrow> n = 0 \<or> inp = []" "St w' rest out"
proof -
  obtain c rest w' where "sys (CRead fd n) w = (int (length c), c, w')" "inp = c @ rest" "length c \<le> n"
      "c = [] \<longleftrightarrow> n = 0 \<or> inp = []" "St w' rest out"
    using assms unfolding streams_def by metis
  then show thesis using that [of c w' rest] by (simp add: usys_data_def)
qed

lemma streams_write:
  assumes "streams sys fd St" "St w inp out"
  obtains w' where "usys sys (CWrite 1 bs) w = Some (Val (int (length bs)) w')" "St w' inp (out @ bs)"
proof -
  obtain d w' where "sys (CWrite 1 bs) w = (int (length bs), d, w')" "St w' inp (out @ bs)"
    using assms unfolding streams_def by metis
  then show thesis using that [of w'] by (simp add: usys_def)
qed

lemma streams_uputs:
  assumes "streams sys fd St" "St w inp out"
  obtains w' where "uputs sys 1 bs w = Some (Val () w')" "St w' inp (out @ bs)"
  using assms(2)
proof (induction bs arbitrary: w out thesis)
  case Nil
  then show ?case by (simp add: uret_def)
next
  case (Cons b bs)
  obtain w1 where "usys sys (CWrite 1 [b]) w = Some (Val 1 w1)" "St w1 inp (out @ [b])"
    using streams_write [OF assms(1) Cons.prems(2), of "[b]"] by auto
  then show ?case using Cons.IH [of w1 "out @ [b]"] Cons.prems(1) by auto
qed

text \<open>A kernel that keeps the contract and reads at most three bytes at a time.\<close>

fun pair_sys :: "(u8 list \<times> u8 list) sys" where
  "pair_sys (CRead fd n) (i, out) = (int (length (take (min n 3) i)), take (min n 3) i, (drop (min n 3) i, out))"
| "pair_sys (CWrite fd bs) (i, out) = (int (length bs), [], (i, out @ bs))"
| "pair_sys c w = (- 1, [], w)"

lemma pair_sys_streams: "streams pair_sys fd (\<lambda>w inp out. w = (inp, out))"
  by (auto simp: streams_def min_def)

end
