(* ===== verification/Grep.thy ===== *)
theory Grep
  imports Usys
begin

text \<open>
  The program \<open>grep.c\<close>: the matcher of regular expressions, and the loop that reads a file through a buffer of 1024
  bytes and prints the lines that match. The matcher is shown to decide the language that its expression denotes; the
  loop prints exactly the matching lines, however the file is cut into reads.
\<close>

section \<open>Operations\<close>

text \<open>\<open>matchhere\<close> and \<open>matchstar\<close>, with the end of a list for the NUL byte.\<close>

function matchhere :: "u8 list \<Rightarrow> u8 list \<Rightarrow> bool" and matchstar :: "u8 \<Rightarrow> u8 list \<Rightarrow> u8 list \<Rightarrow> bool" where
  "matchhere re text = (case re of
      [] \<Rightarrow> True
    | r # rs \<Rightarrow>
      if byte_at re 1 = 0x2a then matchstar r (tl rs) text
      else if r = 0x24 \<and> rs = [] then text = []
      else (case text of [] \<Rightarrow> False | t # ts \<Rightarrow> (r = 0x2e \<or> r = t) \<and> matchhere rs ts))"
| "matchstar c re text =
    (matchhere re text \<or> (case text of [] \<Rightarrow> False | t # ts \<Rightarrow> (t = c \<or> c = 0x2e) \<and> matchstar c re ts))"
  by pat_completeness auto

termination
proof (relation "measures [\<lambda>x. case x of Inl (re, text) \<Rightarrow> length re | Inr (c, re, text) \<Rightarrow> length re,
    \<lambda>x. case x of Inl (re, text) \<Rightarrow> 2 * length text | Inr (c, re, text) \<Rightarrow> 2 * length text + 1]")
qed auto

declare matchhere.simps [simp del] matchstar.simps [simp del]

fun match_any :: "u8 list \<Rightarrow> u8 list \<Rightarrow> bool" where
  "match_any re text = (matchhere re text \<or> (case text of [] \<Rightarrow> False | t # ts \<Rightarrow> match_any re ts))"

declare match_any.simps [simp del]

definition match :: "u8 list \<Rightarrow> u8 list \<Rightarrow> bool" where
  "match re text = (if byte_at re 0 = 0x5e then matchhere (tl re) text else match_any re text)"

text \<open>\<open>strchr(p, '\n')\<close> on the bytes from \<open>p\<close> to the NUL after the buffer: the line before the newline and what is
  behind it.\<close>

fun split_nl :: "u8 list \<Rightarrow> (u8 list \<times> u8 list) option" where
  "split_nl [] = None"
| "split_nl (b # bs) =
    (if b = 0 then None else if b = 10 then Some ([], bs)
     else map_option (\<lambda>(l, r). (b # l, r)) (split_nl bs))"

lemma split_nl_Some: "split_nl bs = Some (l, r) \<Longrightarrow> bs = l @ 10 # r \<and> 10 \<notin> set l"
  by (induction bs arbitrary: l) (auto split: if_splits)

function grep_lines :: "'w sys \<Rightarrow> u8 list \<Rightarrow> u8 list \<Rightarrow> ('w, u8 list) umon" where
  "grep_lines sys pattern p = (case split_nl p of
      None \<Rightarrow> uret p
    | Some (line, rest) \<Rightarrow>
      usq (if match pattern line then usys sys (CWrite 1 (line @ [10])) else uret 0)
      (grep_lines sys pattern rest))"
  by auto

termination by (relation "measure (\<lambda>(sys, pattern, p). length p)") (auto dest: split_nl_Some)

declare grep_lines.simps [simp del]

text \<open>The outer loop; \<open>kept\<close> are the \<open>m\<close> bytes at the start of \<open>buf\<close>.\<close>

partial_function (option) grep_loop :: "'w sys \<Rightarrow> u8 list \<Rightarrow> int \<Rightarrow> u8 list \<Rightarrow> 'w \<Rightarrow> (unit, 'w) uout option" where
  "grep_loop sys pattern fd kept w =
    ubnd (usys_data sys (CRead fd (1024 - length kept - 1))) (\<lambda>(n, c).
    if n > 0 then ubnd (grep_lines sys pattern (kept @ take (nat n) c)) (grep_loop sys pattern fd)
    else uret ()) w"

definition grep :: "'w sys \<Rightarrow> u8 list \<Rightarrow> int \<Rightarrow> ('w, unit) umon" where
  "grep sys pattern fd = grep_loop sys pattern fd []"

primrec grep_files :: "'w sys \<Rightarrow> u8 list \<Rightarrow> u8 list list \<Rightarrow> ('w, unit) umon" where
  "grep_files sys pattern [] = uret ()"
| "grep_files sys pattern (f # fs) =
    ubnd (usys sys (COpen f O_RDONLY)) (\<lambda>fd.
    if fd < 0 then usq (fprintf sys 1 (''grep: cannot open %s'' @ NL) [PStr (Some f)]) (uexit 1) else
    usq (grep sys pattern fd)
    (usq (usys sys (CClose fd))
    (grep_files sys pattern fs)))"

definition grep_main :: "'w sys \<Rightarrow> u8 list list \<Rightarrow> ('w, unit) umon" where
  "grep_main sys argv = (case argv of
      _ # pattern # files \<Rightarrow>
        if files = [] then usq (grep sys pattern 0) (uexit 0)
        else usq (grep_files sys pattern files) (uexit 0)
    | _ \<Rightarrow> usq (fprintf sys 2 (''usage: grep pattern [file ...]'' @ NL) []) (uexit 1))"

section \<open>The language of an expression\<close>

text \<open>An expression is a sequence of characters, each alone or starred, and may end with \<open>$\<close>.\<close>

datatype atom = One u8 | Star u8

fun atoms :: "u8 list \<Rightarrow> atom list \<times> bool" where
  "atoms [] = ([], False)"
| "atoms [r] = (if r = 0x24 then ([], True) else ([One r], False))"
| "atoms (r # s # rs) = (if s = 0x2a then apfst (Cons (Star r)) (atoms rs) else apfst (Cons (One r)) (atoms (s # rs)))"

definition fits :: "u8 \<Rightarrow> u8 set" where
  "fits c = {x. c = 0x2e \<or> x = c}"

primrec atom_lang :: "atom \<Rightarrow> u8 list set" where
  "atom_lang (One c) = (\<lambda>x. [x]) ` fits c"
| "atom_lang (Star c) = lists (fits c)"

primrec lang :: "atom list \<Rightarrow> u8 list set" where
  "lang [] = {[]}"
| "lang (a # as) = {u @ v |u v. u \<in> atom_lang a \<and> v \<in> lang as}"

text \<open>The expression describes \<open>text\<close> at its start: a prefix is in the language, and is all of it after \<open>$\<close>.\<close>

definition describes :: "u8 list \<Rightarrow> u8 list \<Rightarrow> bool" where
  "describes re text \<longleftrightarrow> (\<exists>u v. text = u @ v \<and> u \<in> lang (fst (atoms re)) \<and> (snd (atoms re) \<longrightarrow> v = []))"

text \<open>The same by recursion on the atoms.\<close>

fun tail_ok :: "atom list \<Rightarrow> bool \<Rightarrow> u8 list \<Rightarrow> bool" where
  "tail_ok as e text \<longleftrightarrow> (\<exists>u v. text = u @ v \<and> u \<in> lang as \<and> (e \<longrightarrow> v = []))"

declare tail_ok.simps [simp del]

lemma tail_ok_Cons: "tail_ok (a # as) e text \<longleftrightarrow> (\<exists>u rest. text = u @ rest \<and> u \<in> atom_lang a \<and> tail_ok as e rest)"
proof
  assume "tail_ok (a # as) e text"
  then obtain x v where x: "text = x @ v" "x \<in> lang (a # as)" "e \<longrightarrow> v = []" unfolding tail_ok.simps by blast
  then obtain u w where "x = u @ w" "u \<in> atom_lang a" "w \<in> lang as" unfolding lang.simps by blast
  then have "text = u @ w @ v" "u \<in> atom_lang a" "w \<in> lang as" "e \<longrightarrow> v = []" using x by simp_all
  then show "\<exists>u rest. text = u @ rest \<and> u \<in> atom_lang a \<and> tail_ok as e rest" unfolding tail_ok.simps by blast
next
  assume "\<exists>u rest. text = u @ rest \<and> u \<in> atom_lang a \<and> tail_ok as e rest"
  then obtain u w v where "text = (u @ w) @ v" "u \<in> atom_lang a" "w \<in> lang as" "e \<longrightarrow> v = []"
    unfolding tail_ok.simps by auto
  then show "tail_ok (a # as) e text" unfolding tail_ok.simps lang.simps by blast
qed

lemma tail_ok_One: "tail_ok (One c # as) e text \<longleftrightarrow> (case text of [] \<Rightarrow> False | t # ts \<Rightarrow> t \<in> fits c \<and> tail_ok as e ts)"
proof (cases "text")
  case (Cons t ts)
  have "t # ts = u @ rest \<and> u \<in> atom_lang (One c) \<longleftrightarrow> u = [t] \<and> rest = ts \<and> t \<in> fits c" for u rest by auto
  then show ?thesis unfolding tail_ok_Cons Cons by auto
qed (auto simp: tail_ok_Cons)

lemma tail_ok_Star:
  "tail_ok (Star c # as) e text \<longleftrightarrow>
    tail_ok as e text \<or> (case text of [] \<Rightarrow> False | t # ts \<Rightarrow> t \<in> fits c \<and> tail_ok (Star c # as) e ts)"
  (is "?l \<longleftrightarrow> ?r")
proof
  assume ?l
  then obtain u rest where u: "text = u @ rest" "u \<in> lists (fits c)" "tail_ok as e rest"
    unfolding tail_ok_Cons atom_lang.simps by blast
  then show ?r by (cases u) (auto simp: tail_ok_Cons)
next
  have "tail_ok as e text \<Longrightarrow> ?l" by (auto simp: tail_ok_Cons intro: exI [of _ "[]"])
  moreover have "?l" if l: "text = t # ts" "t \<in> fits c" "tail_ok (Star c # as) e ts" for t ts
  proof -
    obtain u rest where "ts = u @ rest" "u \<in> lists (fits c)" "tail_ok as e rest"
      using l(3) unfolding tail_ok_Cons atom_lang.simps by blast
    then show ?l using l(1,2) unfolding tail_ok_Cons by (intro exI [of _ "t # u"] exI [of _ rest]) simp
  qed
  moreover assume ?r
  ultimately show ?l by (auto split: list.splits)
qed

lemma describes_tail_ok: "describes re text = tail_ok (fst (atoms re)) (snd (atoms re)) text"
  by (simp add: describes_def tail_ok.simps)

lemma describes_star:
  "describes (c # 0x2a # re) text \<longleftrightarrow>
    describes re text \<or> (case text of [] \<Rightarrow> False | t # ts \<Rightarrow> t \<in> fits c \<and> describes (c # 0x2a # re) ts)"
  using tail_ok_Star [of c "fst (atoms re)" "snd (atoms re)" "text"] by (cases "text") (simp_all add: describes_tail_ok)

lemma describes_one:
  assumes "byte_at (r # rs) 1 \<noteq> 0x2a" "\<not> (r = 0x24 \<and> rs = [])"
  shows "describes (r # rs) text \<longleftrightarrow> (case text of [] \<Rightarrow> False | t # ts \<Rightarrow> t \<in> fits r \<and> describes rs ts)"
proof -
  have "atoms (r # rs) = apfst (Cons (One r)) (atoms rs)"
    using assms by (cases rs) (auto simp: byte_at_def)
  then show ?thesis by (simp add: describes_tail_ok tail_ok_One split: list.splits)
qed

lemma matcher_correct:
  "matchhere re text = describes re text" "matchstar c re text = describes (c # 0x2a # re) text"
proof (induction re "text" and c re "text" rule: matchhere_matchstar.induct)
  case (1 re "text")
  show ?case
  proof (cases re)
    case Nil
    then show ?thesis by (simp add: matchhere.simps describes_def)
  next
    case (Cons r rs)
    have st: "re = r # 0x2a # tl rs" if "byte_at re 1 = 0x2a"
      using that Cons by (cases rs) (auto simp: byte_at_def)
    have one: "describes [0x24] text = (text = [])" by (auto simp: describes_def)
    consider "byte_at re 1 = 0x2a" | "byte_at re 1 \<noteq> 0x2a" "r = 0x24 \<and> rs = []" | "byte_at re 1 \<noteq> 0x2a" "\<not> (r = 0x24 \<and> rs = [])"
      by blast
    then show ?thesis
    proof cases
      case 1
      then show ?thesis using "1.IH"(1) [OF Cons] st Cons by (simp add: matchhere.simps)
    next
      case 2
      then show ?thesis using one Cons by (simp add: matchhere.simps)
    next
      case 3
      then show ?thesis
        using "1.IH"(2) [OF Cons 3(1)] describes_one [of r rs "text"] Cons
        by (subst matchhere.simps) (cases "text"; auto simp: fits_def)
    qed
  qed
next
  case (2 c re "text")
  then show ?case
    by (subst matchstar.simps, subst describes_star) (cases "text"; auto simp: fits_def)
qed

lemma match_any_iff: "match_any re text \<longleftrightarrow> (\<exists>pre post. text = pre @ post \<and> matchhere re post)"
proof (induction "text")
  case Nil
  then show ?case by (simp add: match_any.simps)
next
  case (Cons t ts)
  have "t # ts = pre @ post \<longleftrightarrow> pre = [] \<and> post = t # ts \<or> (\<exists>pre'. pre = t # pre' \<and> ts = pre' @ post)" for pre post
    by (cases pre) auto
  then show ?case using Cons.IH unfolding match_any.simps [of re "t # ts"] by auto
qed

text \<open>C30. \<open>match\<close> decides whether the text contains a part that the regular expression describes: a part at the start after
  \<open>^\<close>, a part at the end before \<open>$\<close>, any part otherwise, where the described part is a word of the language of the
  expression.\<close>

theorem match_correct:
  "match re text \<longleftrightarrow>
    (if byte_at re 0 = 0x5e then describes (tl re) text else \<exists>pre post. text = pre @ post \<and> describes re post)"
  by (simp add: match_def match_any_iff matcher_correct)

section \<open>The lines printed\<close>

text \<open>The complete lines of a file, without their newlines; \<open>l\<close> is the start of the first one.\<close>

fun lines_from :: "u8 list \<Rightarrow> u8 list \<Rightarrow> u8 list list" where
  "lines_from l [] = []"
| "lines_from l (b # bs) = (if b = 10 then l # lines_from [] bs else lines_from (l @ [b]) bs)"

definition grepped :: "u8 list \<Rightarrow> u8 list list \<Rightarrow> u8 list" where
  "grepped re ls = concat (map (\<lambda>l. l @ [10]) (filter (match re) ls))"

lemma lines_from_split: "10 \<notin> set l \<Longrightarrow> lines_from k (l @ bs) = lines_from (k @ l) bs"
  by (induction l arbitrary: k) auto

lemma split_nl_None: "0 \<notin> set bs \<Longrightarrow> split_nl bs = None \<longleftrightarrow> 10 \<notin> set bs"
  by (induction bs) auto

lemma lines_from_none: "10 \<notin> set l \<Longrightarrow> lines_from k l = []"
  by (induction l arbitrary: k) auto

lemma grep_lines_ok:
  "streams sys fd St \<Longrightarrow> 0 \<notin> set p \<Longrightarrow> St w inp out \<Longrightarrow>
   \<exists>w' rest ls. grep_lines sys re p w = Some (Val rest w') \<and> 10 \<notin> set rest \<and>
    (\<exists>pre. p = pre @ rest) \<and> (\<forall>bs. lines_from [] (p @ bs) = ls @ lines_from [] (rest @ bs)) \<and> St w' inp (out @ grepped re ls)"
proof (induction sys re p arbitrary: w out rule: grep_lines.induct)
  case (1 sys re p)
  show ?case
  proof (cases "split_nl p")
    case None
    then have "grep_lines sys re p w = Some (Val p w)" "10 \<notin> set p"
      using split_nl_None [OF 1(3)] by (auto simp: uret_def grep_lines.simps)
    then show ?thesis using 1(4) by (intro exI [of _ w] exI [of _ p] exI [of _ "[]"]) (simp add: grepped_def)
  next
    case (Some lr)
    then obtain l r where s: "split_nl p = Some (l, r)" by (cases lr) auto
    have p: "p = l @ 10 # r" "10 \<notin> set l" using split_nl_Some [OF s] by auto
    obtain w1 k where w1: "(if match re l then usys sys (CWrite 1 (l @ [10])) else uret 0) w = Some (Val k w1)"
        "St w1 inp (out @ grepped re [l])"
    proof (cases "match re l")
      case True
      obtain w1 where "usys sys (CWrite 1 (l @ [10])) w = Some (Val (int (length (l @ [10]))) w1)" "St w1 inp (out @ l @ [10])"
        using streams_write [OF 1(2,4)] .
      then show ?thesis using that [of "int (length (l @ [10]))" w1] True by (simp add: grepped_def)
    next
      case False
      then show ?thesis using that [of 0 w] 1(4) by (simp add: uret_def grepped_def)
    qed
    obtain w' rest ls where IH: "grep_lines sys re r w1 = Some (Val rest w')" "10 \<notin> set rest" "\<exists>pre. r = pre @ rest"
        "\<forall>bs. lines_from [] (r @ bs) = ls @ lines_from [] (rest @ bs)" "St w' inp ((out @ grepped re [l]) @ grepped re ls)"
      using 1(1) [OF s refl 1(2) _ w1(2)] 1(3) p(1) by auto
    have "grep_lines sys re p w = Some (Val rest w')" using w1(1) IH(1) by (subst grep_lines.simps) (simp add: s)
    moreover have "\<exists>pre. p = pre @ rest" using IH(3) p(1) by (metis append_assoc append_Cons)
    moreover have "\<forall>bs. lines_from [] (p @ bs) = (l # ls) @ lines_from [] (rest @ bs)"
      using IH(4) lines_from_split [OF p(2), of "[]"] by (simp add: p(1))
    moreover have "(out @ grepped re [l]) @ grepped re ls = out @ grepped re (l # ls)" by (simp add: grepped_def)
    ultimately show ?thesis using IH(2,5) by metis
  qed
qed

text \<open>Lines are shorter than the buffer.\<close>

definition short_lines :: "u8 list \<Rightarrow> bool" where
  "short_lines bs \<longleftrightarrow> (\<forall>a b c. bs = a @ b @ c \<and> 10 \<notin> set b \<longrightarrow> length b < 1023)"

lemma short_lines_suffix: "short_lines (a @ bs) \<Longrightarrow> short_lines bs"
  unfolding short_lines_def by (metis append_assoc)

lemma grep_loop_ok:
  assumes str: "streams sys fd St"
  shows "St w inp out \<Longrightarrow> 10 \<notin> set kept \<Longrightarrow> 0 \<notin> set (kept @ inp) \<Longrightarrow> short_lines (kept @ inp) \<Longrightarrow>
    \<exists>w'. grep_loop sys re fd kept w = Some (Val () w') \<and> St w' [] (out @ grepped re (lines_from [] (kept @ inp)))"
proof (induction "length inp" arbitrary: inp kept w out rule: less_induct)
  case less
  have k: "length kept < 1023" using less.prems(2,4) unfolding short_lines_def by (metis append_Nil)
  then have n: "1024 - length kept - 1 \<noteq> 0" by simp
  obtain c rest w1 where r: "usys_data sys (CRead fd (1024 - length kept - 1)) w = Some (Val (int (length c), c) w1)" "inp = c @ rest"
      "c = [] \<longleftrightarrow> inp = []" "St w1 rest out"
    using streams_read [OF str less.prems(1), of "1024 - length kept - 1"] n by metis
  show ?case
  proof (cases "c = []")
    case True
    then have "grep_loop sys re fd kept w = Some (Val () w1)" using r(1) by (subst grep_loop.simps) (simp add: uret_def)
    then show ?thesis using r(2,3,4) True less.prems(2) by (simp add: lines_from_none grepped_def)
  next
    case False
    obtain w2 rest' ls where g: "grep_lines sys re (kept @ c) w1 = Some (Val rest' w2)" "10 \<notin> set rest'" "\<exists>pre. kept @ c = pre @ rest'"
        "\<forall>bs. lines_from [] ((kept @ c) @ bs) = ls @ lines_from [] (rest' @ bs)" "St w2 rest (out @ grepped re ls)"
      using grep_lines_ok [OF str _ r(4), of "kept @ c" re] less.prems(3) r(2) by auto
    obtain pre where pre: "kept @ inp = pre @ rest' @ rest" using g(3) r(2) by (metis append_assoc)
    obtain w' where w': "grep_loop sys re fd rest' w2 = Some (Val () w')"
        "St w' [] ((out @ grepped re ls) @ grepped re (lines_from [] (rest' @ rest)))"
      using less.hyps [OF _ g(5,2)] False r(2) less.prems(3,4) short_lines_suffix unfolding pre by fastforce
    have "grep_loop sys re fd kept w = Some (Val () w')" using r(1) g(1) w'(1) False by (subst grep_loop.simps) simp
    then show ?thesis using w'(2) g(4) r(2) by (simp add: grepped_def)
  qed
qed

text \<open>C31. On a file without NUL bytes whose lines are shorter than the buffer, \<open>grep\<close> returns and has printed exactly the
  complete lines that match, in their order, however the reads cut the file. What follows the last newline is ignored.\<close>

theorem grep_correct:
  assumes "streams sys fd St" "St w inp out" "0 \<notin> set inp" "short_lines inp"
  shows "\<exists>w'. grep sys re fd w = Some (Val () w') \<and> St w' [] (out @ grepped re (lines_from [] inp))"
  using grep_loop_ok [OF assms(1,2), of "[]" re] assms(3,4) by (simp add: grep_def)

theorem grep_correct_witness:
  "grep pair_sys (bytes_of ''b*.$'') 0 (bytes_of (''ab'' @ NL @ NL @ ''c''), []) = Some (Val () ([], bytes_of (''ab'' @ NL)))"
proof -
  let ?f = "bytes_of (''ab'' @ NL @ NL @ ''c'')"
  have s: "short_lines ?f"
    unfolding short_lines_def
  proof (intro allI impI)
    fix a b c assume "?f = a @ b @ c \<and> 10 \<notin> set b"
    then have "length ?f = length (a @ b @ c)" by simp
    then have "length a + length b + length c = 5" by (simp add: bytes_of_def NL_def)
    then show "length b < 1023" by simp
  qed
  have "lines_from [] ?f = [bytes_of ''ab'', []]" by (simp add: bytes_of_def NL_def)
  moreover have "match (bytes_of ''b*.$'') (bytes_of ''ab'')" "\<not> match (bytes_of ''b*.$'') []"
    by (simp_all add: match_def bytes_of_def match_any.simps matchhere.simps matchstar.simps byte_at_def)
  ultimately have "grepped (bytes_of ''b*.$'') (lines_from [] ?f) = bytes_of (''ab'' @ NL)" by (simp add: grepped_def bytes_of_def NL_def)
  then show ?thesis
    using grep_correct [OF pair_sys_streams refl _ s, where fd = 0 and re = "bytes_of ''b*.$''" and out = "[]"] by (auto simp: bytes_of_def NL_def)
qed

end
