(* ===== verification/Uprogs.thy ===== *)
theory Uprogs
  imports Usys
begin

text \<open>
  The small user programs: \<open>cat.c\<close>, \<open>wc.c\<close>, \<open>echo.c\<close>, \<open>kill.c\<close>, \<open>ln.c\<close>, \<open>mkdir.c\<close>, \<open>rm.c\<close>, \<open>ls.c\<close> and \<open>init.c\<close>,
  with \<open>stat\<close> of \<open>ulib.c\<close>. \<open>argv\<close> is the list of the arguments. \<open>cat\<close> is shown to copy its input and \<open>wc\<close> to count
  lines, words and bytes, however the input is cut into reads.
\<close>

section \<open>Operations\<close>

subsection \<open>cat\<close>

partial_function (option) cat_loop :: "'w sys \<Rightarrow> int \<Rightarrow> 'w \<Rightarrow> (int, 'w) uout option" where
  "cat_loop sys fd w =
    ubnd (usys_data sys (CRead fd 512)) (\<lambda>(n, buf).
    if n > 0 then ubnd (usys sys (CWrite 1 (take (nat n) buf))) (\<lambda>k.
      if k \<noteq> n then usq (fprintf sys 2 (''cat: write error'' @ NL) []) (uexit 1) else cat_loop sys fd)
    else uret n) w"

definition cat :: "'w sys \<Rightarrow> int \<Rightarrow> ('w, unit) umon" where
  "cat sys fd = ubnd (cat_loop sys fd) (\<lambda>n.
    if n < 0 then usq (fprintf sys 2 (''cat: read error'' @ NL) []) (uexit 1) else uret ())"

primrec cat_files :: "'w sys \<Rightarrow> u8 list list \<Rightarrow> ('w, unit) umon" where
  "cat_files sys [] = uret ()"
| "cat_files sys (f # fs) =
    ubnd (usys sys (COpen f O_RDONLY)) (\<lambda>fd.
    if fd < 0 then usq (fprintf sys 2 (''cat: cannot open %s'' @ NL) [PStr (Some f)]) (uexit 1) else
    usq (cat sys fd)
    (usq (usys sys (CClose fd))
    (cat_files sys fs)))"

definition cat_main :: "'w sys \<Rightarrow> u8 list list \<Rightarrow> ('w, unit) umon" where
  "cat_main sys argv =
    (if length argv \<le> 1 then usq (cat sys 0) (uexit 0) else usq (cat_files sys (tl argv)) (uexit 0))"

subsection \<open>wc\<close>

record counts =
  wl :: u32
  ww :: u32
  wc_c :: u32
  inword :: bool

definition wc_space :: "u8 \<Rightarrow> bool" where
  "wc_space b \<longleftrightarrow> b \<in> {0x20, 0x0d, 0x09, 0x0a, 0x0b}"

definition wc_byte :: "u8 \<Rightarrow> counts \<Rightarrow> counts" where
  "wc_byte b k =
    (let k = k\<lparr>wc_c := wc_c k + 1\<rparr>;
         k = (if b = 10 then k\<lparr>wl := wl k + 1\<rparr> else k) in
     if wc_space b then k\<lparr>inword := False\<rparr>
     else if \<not> inword k then k\<lparr>ww := ww k + 1, inword := True\<rparr>
     else k)"

partial_function (option) wc_loop :: "'w sys \<Rightarrow> int \<Rightarrow> counts \<Rightarrow> 'w \<Rightarrow> (int \<times> counts, 'w) uout option" where
  "wc_loop sys fd k w =
    ubnd (usys_data sys (CRead fd 512)) (\<lambda>(n, buf).
    if n > 0 then wc_loop sys fd (fold wc_byte (take (nat n) buf) k) else uret (n, k)) w"

definition wc_args :: "counts \<Rightarrow> u8 list \<Rightarrow> parg list" where
  "wc_args k name = [PInt (scast (wl k)), PInt (scast (ww k)), PInt (scast (wc_c k)), PStr (Some name)]"

definition wc :: "'w sys \<Rightarrow> int \<Rightarrow> u8 list \<Rightarrow> ('w, unit) umon" where
  "wc sys fd name =
    ubnd (wc_loop sys fd \<lparr>wl = 0, ww = 0, wc_c = 0, inword = False\<rparr>) (\<lambda>(n, k).
    if n < 0 then usq (fprintf sys 1 (''wc: read error'' @ NL) []) (uexit 1) else
    fprintf sys 1 (''%d %d %d %s'' @ NL) (wc_args k name))"

primrec wc_files :: "'w sys \<Rightarrow> u8 list list \<Rightarrow> ('w, unit) umon" where
  "wc_files sys [] = uret ()"
| "wc_files sys (f # fs) =
    ubnd (usys sys (COpen f O_RDONLY)) (\<lambda>fd.
    if fd < 0 then usq (fprintf sys 1 (''wc: cannot open %s'' @ NL) [PStr (Some f)]) (uexit 1) else
    usq (wc sys fd f)
    (usq (usys sys (CClose fd))
    (wc_files sys fs)))"

definition wc_main :: "'w sys \<Rightarrow> u8 list list \<Rightarrow> ('w, unit) umon" where
  "wc_main sys argv =
    (if length argv \<le> 1 then usq (wc sys 0 []) (uexit 0) else usq (wc_files sys (tl argv)) (uexit 0))"

subsection \<open>echo, kill, ln, mkdir, rm\<close>

fun echo_args :: "'w sys \<Rightarrow> u8 list list \<Rightarrow> ('w, unit) umon" where
  "echo_args sys [] = uret ()"
| "echo_args sys (a # as) =
    usq (usys sys (CWrite 1 a))
    (usq (if as \<noteq> [] then usys sys (CWrite 1 [0x20]) else usys sys (CWrite 1 [10]))
    (echo_args sys as))"

definition echo_main :: "'w sys \<Rightarrow> u8 list list \<Rightarrow> ('w, unit) umon" where
  "echo_main sys argv = usq (echo_args sys (tl argv)) (uexit 0)"

text \<open>\<open>atoi\<close> on a string that stands alone in memory.\<close>

definition atoi_str :: "u8 list \<Rightarrow> int option" where
  "atoi_str s = atoi 0 (byte_at s)"

primrec kill_args :: "'w sys \<Rightarrow> u8 list list \<Rightarrow> ('w, unit) umon" where
  "kill_args sys [] = uret ()"
| "kill_args sys (a # as) = (case atoi_str a of
      None \<Rightarrow> (\<lambda>w. None)
    | Some pid \<Rightarrow> usq (usys sys (CKill pid)) (kill_args sys as))"

definition kill_main :: "'w sys \<Rightarrow> u8 list list \<Rightarrow> ('w, unit) umon" where
  "kill_main sys argv =
    (if length argv < 2 then usq (fprintf sys 2 (''usage: kill pid...'' @ NL) []) (uexit 1) else
     usq (kill_args sys (tl argv)) (uexit 0))"

definition ln_main :: "'w sys \<Rightarrow> u8 list list \<Rightarrow> ('w, unit) umon" where
  "ln_main sys argv = (case argv of
      [_, old, new] \<Rightarrow>
        ubnd (usys sys (CLink old new)) (\<lambda>r.
        usq (if r < 0 then fprintf sys 2 (''link %s %s: failed'' @ NL) [PStr (Some old), PStr (Some new)] else uret ())
        (uexit 0))
    | _ \<Rightarrow> usq (fprintf sys 2 (''Usage: ln old new'' @ NL) []) (uexit 1))"

primrec mkdir_args :: "'w sys \<Rightarrow> u8 list list \<Rightarrow> ('w, unit) umon" where
  "mkdir_args sys [] = uret ()"
| "mkdir_args sys (a # as) =
    ubnd (usys sys (CMkdir a)) (\<lambda>r.
    if r < 0 then fprintf sys 2 (''mkdir: %s failed to create'' @ NL) [PStr (Some a)] else mkdir_args sys as)"

definition mkdir_main :: "'w sys \<Rightarrow> u8 list list \<Rightarrow> ('w, unit) umon" where
  "mkdir_main sys argv =
    (if length argv < 2 then usq (fprintf sys 2 (''Usage: mkdir files...'' @ NL) []) (uexit 1) else
     usq (mkdir_args sys (tl argv)) (uexit 0))"

primrec rm_args :: "'w sys \<Rightarrow> u8 list list \<Rightarrow> ('w, unit) umon" where
  "rm_args sys [] = uret ()"
| "rm_args sys (a # as) =
    ubnd (usys sys (CUnlink a)) (\<lambda>r.
    if r < 0 then fprintf sys 2 (''rm: %s failed to delete'' @ NL) [PStr (Some a)] else rm_args sys as)"

definition rm_main :: "'w sys \<Rightarrow> u8 list list \<Rightarrow> ('w, unit) umon" where
  "rm_main sys argv =
    (if length argv < 2 then usq (fprintf sys 2 (''Usage: rm files...'' @ NL) []) (uexit 1) else
     usq (rm_args sys (tl argv)) (uexit 0))"

subsection \<open>ls\<close>

text \<open>The loop of \<open>fmtname\<close>, from \<open>p = path + k - 1\<close> downwards; the result is \<open>p + 1 - path\<close>.\<close>

primrec fmt_start :: "u8 list \<Rightarrow> nat \<Rightarrow> nat" where
  "fmt_start path 0 = 0"
| "fmt_start path (Suc k) = (if byte_at path k \<noteq> 0x2f then fmt_start path k else Suc k)"

definition fmtname :: "u8 list \<Rightarrow> u8 list" where
  "fmtname path =
    (let p = drop (fmt_start path (length path + 1)) path in
     if length p \<ge> DIRSIZ then p else p @ replicate (DIRSIZ - length p) 0x20)"

definition stat :: "'w sys \<Rightarrow> u8 list \<Rightarrow> ('w, int \<times> u8 list) umon" where
  "stat sys n =
    ubnd (usys sys (COpen n O_RDONLY)) (\<lambda>fd.
    if fd < 0 then uret (- 1, []) else
    ubnd (usys_data sys (CFstat fd)) (\<lambda>r.
    usq (usys sys (CClose fd))
    (uret r)))"

definition ls_line :: "'w sys \<Rightarrow> u8 list \<Rightarrow> u8 list \<Rightarrow> ('w, unit) umon" where
  "ls_line sys path st = fprintf sys 1 (''%s %d %d %d'' @ NL)
    [PStr (Some (fmtname path)), PInt (scast (of_le (bslice 8 2 st) :: u16)), PInt (ucast (of_le (bslice 4 4 st) :: u32)),
     PInt (scast (ucast (of_le (bslice 16 8 st) :: u64) :: u32))]"

text \<open>The string in \<open>buf\<close> after the name of the entry was copied behind the slash.\<close>

definition entry_path :: "u8 list \<Rightarrow> u8 list \<Rightarrow> u8 list" where
  "entry_path path de = path @ [0x2f] @ takeWhile (\<lambda>b. b \<noteq> 0) (bslice 2 DIRSIZ de)"

partial_function (option) ls_dir :: "'w sys \<Rightarrow> int \<Rightarrow> u8 list \<Rightarrow> 'w \<Rightarrow> (unit, 'w) uout option" where
  "ls_dir sys fd path w =
    ubnd (usys_data sys (CRead fd 16)) (\<lambda>(n, de).
    if n \<noteq> 16 then uret () else
    if (of_le (bslice 0 2 de) :: u16) = 0 then ls_dir sys fd path else
    ubnd (stat sys (entry_path path de)) (\<lambda>(r, st).
    usq (if r < 0 then fprintf sys 1 (''ls: cannot stat %s'' @ NL) [PStr (Some (entry_path path de))]
         else ls_line sys (entry_path path de) st)
    (ls_dir sys fd path))) w"

definition ls :: "'w sys \<Rightarrow> u8 list \<Rightarrow> ('w, unit) umon" where
  "ls sys path =
    ubnd (usys sys (COpen path O_RDONLY)) (\<lambda>fd.
    if fd < 0 then fprintf sys 2 (''ls: cannot open %s'' @ NL) [PStr (Some path)] else
    ubnd (usys_data sys (CFstat fd)) (\<lambda>(r, st).
    if r < 0 then usq (fprintf sys 2 (''ls: cannot stat %s'' @ NL) [PStr (Some path)]) (usq (usys sys (CClose fd)) (uret ())) else
    (let ty = of_le (bslice 8 2 st) :: u16 in
    usq (if ty = T_DEVICE \<or> ty = T_FILE then ls_line sys path st
         else if ty = T_DIR then
           if length path + 1 + DIRSIZ + 1 > 512 then fprintf sys 1 (''ls: path too long'' @ NL) []
           else ls_dir sys fd path
         else uret ())
    (usq (usys sys (CClose fd))
    (uret ())))))"

primrec ls_args :: "'w sys \<Rightarrow> u8 list list \<Rightarrow> ('w, unit) umon" where
  "ls_args sys [] = uret ()"
| "ls_args sys (a # as) = usq (ls sys a) (ls_args sys as)"

definition ls_main :: "'w sys \<Rightarrow> u8 list list \<Rightarrow> ('w, unit) umon" where
  "ls_main sys argv =
    (if length argv < 2 then usq (ls sys (bytes_of ''.'')) (uexit 0) else usq (ls_args sys (tl argv)) (uexit 0))"

subsection \<open>init\<close>

definition CONSOLE :: nat where
  "CONSOLE = 1"

partial_function (option) init_wait :: "'w sys \<Rightarrow> int \<Rightarrow> 'w \<Rightarrow> (unit, 'w) uout option" where
  "init_wait sys pid w =
    ubnd (usys sys CWait) (\<lambda>wpid.
    if wpid = pid then uret ()
    else if wpid < 0 then usq (fprintf sys 1 (''init: wait returned an error'' @ NL) []) (uexit 1)
    else init_wait sys pid) w"

partial_function (option) init_loop :: "'w sys \<Rightarrow> 'w \<Rightarrow> (unit, 'w) uout option" where
  "init_loop sys w =
    usq (fprintf sys 1 (''init: starting sh'' @ NL) [])
    (ubnd (usys sys CFork) (\<lambda>pid.
    if pid < 0 then usq (fprintf sys 1 (''init: fork failed'' @ NL) []) (uexit 1)
    else if pid = 0 then
      usq (uexec sys (bytes_of ''sh'') [bytes_of ''sh''])
      (usq (fprintf sys 1 (''init: exec sh failed'' @ NL) [])
      (uexit 1))
    else usq (init_wait sys pid) (init_loop sys))) w"

definition init_main :: "'w sys \<Rightarrow> ('w, unit) umon" where
  "init_main sys =
    ubnd (usys sys (COpen (bytes_of ''console'') O_RDWR)) (\<lambda>fd.
    usq (if fd < 0 then
           usq (usys sys (CMknod (bytes_of ''console'') CONSOLE 0))
           (usys sys (COpen (bytes_of ''console'') O_RDWR))
         else uret 0)
    (usq (usys sys (CDup 0))
    (usq (usys sys (CDup 0))
    (init_loop sys))))"

section \<open>Filters\<close>

lemma cat_loop_ok:
  assumes str: "streams sys fd St"
  shows "St w inp out \<Longrightarrow> \<exists>w'. cat_loop sys fd w = Some (Val 0 w') \<and> St w' [] (out @ inp)"
proof (induction "length inp" arbitrary: inp w out rule: less_induct)
  case less
  obtain c rest w1 where r: "usys_data sys (CRead fd 512) w = Some (Val (int (length c), c) w1)" "inp = c @ rest"
      "c = [] \<longleftrightarrow> inp = []" "St w1 rest out"
    using streams_read [OF str less.prems, of 512] by (metis zero_neq_numeral)
  show ?case
  proof (cases "c = []")
    case True
    then have "cat_loop sys fd w = Some (Val 0 w1)" using r(1) by (subst cat_loop.simps) (simp add: uret_def)
    then show ?thesis using r(2-4) True by simp
  next
    case False
    obtain w2 where w2: "usys sys (CWrite 1 c) w1 = Some (Val (int (length c)) w2)" "St w2 rest (out @ c)"
      using streams_write [OF str r(4)] .
    have "cat_loop sys fd w = cat_loop sys fd w2" using r(1) w2(1) False by (subst cat_loop.simps) simp
    moreover have "length rest < length inp" using r(2) False by simp
    ultimately show ?thesis using less.hyps [OF _ w2(2)] r(2) by simp
  qed
qed

text \<open>C32. \<open>cat\<close> without arguments copies its input to its output, byte for byte, however the input is cut into reads, and
  exits with status 0.\<close>

theorem cat_copies:
  assumes "streams sys 0 St" "St w inp out"
  shows "\<exists>w'. cat_main sys [name] w = Some (Exited 0 w') \<and> St w' [] (out @ inp)"
  using cat_loop_ok [OF assms] by (auto simp: cat_main_def cat_def uret_def uexit_def)

theorem cat_copies_witness:
  "cat_main pair_sys [bytes_of ''cat''] (bytes_of ''hello'', []) = Some (Exited 0 ([], bytes_of ''hello''))"
  using cat_copies [OF pair_sys_streams refl, of "bytes_of ''cat''" "bytes_of ''hello''" "[]"] by auto

text \<open>The words of a text: its longest parts without a blank, that is a space or a control character from tab (9) to
  carriage return (13) other than form feed.\<close>

definition blank :: "u8 \<Rightarrow> bool" where
  "blank b \<longleftrightarrow> b = 32 \<or> 9 \<le> b \<and> b \<le> 13 \<and> b \<noteq> 12"

function words :: "u8 list \<Rightarrow> u8 list list" where
  "words bs = (case dropWhile blank bs of
      [] \<Rightarrow> []
    | b # rest \<Rightarrow> (b # takeWhile (\<lambda>b. \<not> blank b) rest) # words (dropWhile (\<lambda>b. \<not> blank b) rest))"
  by auto

termination
proof (relation "measure length", simp, unfold in_measure)
  fix bs b rest assume "dropWhile blank bs = b # rest"
  then have "length (b # rest) \<le> length bs" using length_dropWhile_le [of blank bs] by simp
  then show "length (dropWhile (\<lambda>b. \<not> blank b) rest) < length bs"
    using length_dropWhile_le [of "\<lambda>b. \<not> blank b" rest] by simp
qed

lemma blank_eq: "blank = wc_space"
proof
  fix b :: u8
  have "9 \<le> b \<and> b \<le> 13 \<longleftrightarrow> unat b \<in> {9, 10, 11, 12, 13}" by (auto simp: word_le_nat_alt)
  also have "\<dots> \<longleftrightarrow> b \<in> {9, 10, 11, 12, 13}" by (simp add: word_unat_eq_iff)
  finally show "blank b = wc_space b" by (auto simp: blank_def wc_space_def)
qed

declare words.simps [simp del]

lemma words_Cons:
  "words (b # bs) = (if wc_space b then words bs
     else (b # takeWhile (\<lambda>b. \<not> wc_space b) bs) # words (dropWhile (\<lambda>b. \<not> wc_space b) bs))"
  by (simp add: words.simps [of "b # bs"] blank_eq) (simp add: words.simps [of bs] blank_eq)

lemma wc_fold:
  "fold wc_byte bs k = \<lparr>wl = wl k + of_nat (count_list bs 10),
     ww = ww k + of_nat (length (words (if inword k then dropWhile (\<lambda>b. \<not> wc_space b) bs else bs))),
     wc_c = wc_c k + of_nat (length bs),
     inword = (if bs = [] then inword k else \<not> wc_space (last bs))\<rparr>"
proof (induction bs arbitrary: k)
  case Nil
  then show ?case by (simp add: words.simps [of "[]"])
next
  case (Cons b bs)
  have nl: "b = 10 \<Longrightarrow> wc_space b" by (simp add: wc_space_def)
  show ?case
    unfolding fold_simps Cons.IH using nl
    by (cases "b = 10"; cases "wc_space b"; cases "inword k") (simp_all add: wc_byte_def words_Cons)
qed

lemma wc_loop_ok:
  assumes str: "streams sys fd St"
  shows "St w inp out \<Longrightarrow> \<exists>w'. wc_loop sys fd k w = Some (Val (0, fold wc_byte inp k) w') \<and> St w' [] out"
proof (induction "length inp" arbitrary: inp w k rule: less_induct)
  case less
  obtain c rest w1 where r: "usys_data sys (CRead fd 512) w = Some (Val (int (length c), c) w1)" "inp = c @ rest"
      "c = [] \<longleftrightarrow> inp = []" "St w1 rest out"
    using streams_read [OF str less.prems, of 512] by (metis zero_neq_numeral)
  show ?case
  proof (cases "c = []")
    case True
    then have "wc_loop sys fd k w = Some (Val (0, k) w1)" using r(1) by (subst wc_loop.simps) (simp add: uret_def)
    then show ?thesis using r(2-4) True by simp
  next
    case False
    then have "wc_loop sys fd k w = wc_loop sys fd (fold wc_byte c k) w1" using r(1) by (subst wc_loop.simps) simp
    then show ?thesis using less.hyps [OF _ r(4), of "fold wc_byte c k"] r(2) False by simp
  qed
qed

text \<open>The text of \<open>%d\<close> for a number of type \<open>int\<close>.\<close>

definition dec :: "u32 \<Rightarrow> u8 list" where
  "dec n = printint_user (scast n) 10 True"

lemma wc_text:
  "vprintf (bytes_of (''%d %d %d %s'' @ NL)) (wc_args k name) =
    Some (dec (wl k) @ [0x20] @ dec (ww k) @ [0x20] @ dec (wc_c k) @ [0x20] @ takeWhile (\<lambda>c. c \<noteq> 0) name @ [10])"
proof -
  have "ucast (scast n :: u64) = n" for n :: u32 by (rule bit_word_eqI) (auto simp: bit_simps)
  then have i: "as_int (scast n) = scast n" for n :: u32 by (simp add: as_int_def)
  have c: "ucast (ucast b :: u32) = b" for b :: u8 by (rule bit_word_eqI) (auto simp: bit_simps)
  show ?thesis
    unfolding vprintf_def
    by ((subst vprintf_from.simps, simp add: bytes_of_def NL_def byte_at_def convert_user_def take_int_def take_str_user_def wc_args_def
          i dec_def putc_def c)+)
qed

text \<open>C33. \<open>wc\<close> prints the number of newlines, of words and of bytes of its input as \<open>int\<close>s, and the name of the file,
  however the input is cut into reads: no word is split or counted twice at the end of a buffer.\<close>

theorem wc_counts:
  assumes str: "streams sys fd St" "St w inp out"
  shows "\<exists>w'. wc sys fd name w = Some (Val () w') \<and> St w' [] (out @ dec (of_nat (count_list inp 10)) @ [0x20] @
    dec (of_nat (length (words inp))) @ [0x20] @ dec (of_nat (length inp)) @ [0x20] @ takeWhile (\<lambda>c. c \<noteq> 0) name @ [10])"
    (is "\<exists>w'. _ \<and> St w' [] (out @ ?txt)")
proof -
  let ?k = "\<lparr>wl = 0, ww = 0, wc_c = 0, inword = False\<rparr>"
  obtain w1 where w1: "wc_loop sys fd ?k w = Some (Val (0, fold wc_byte inp ?k) w1)" "St w1 [] out"
    using wc_loop_ok [OF str] by blast
  obtain w' where "uputs sys 1 ?txt w1 = Some (Val () w')" "St w' [] (out @ ?txt)" using streams_uputs [OF str(1) w1(2)] .
  moreover have "vprintf (bytes_of (''%d %d %d %s'' @ NL)) (wc_args (fold wc_byte inp ?k) name) = Some ?txt"
    unfolding wc_text by (simp add: wc_fold)
  ultimately show ?thesis using w1(1) by (simp add: wc_def fprintf_def)
qed

theorem wc_counts_witness:
  "wc pair_sys 0 (bytes_of ''f'') (bytes_of (''ab  c'' @ NL), []) = Some (Val () ([], bytes_of (''1 2 6 f'' @ NL)))"
proof -
  let ?f = "bytes_of (''ab  c'' @ NL)"
  have "length (words ?f) = 2" by (simp add: bytes_of_def NL_def words_Cons words.simps [of "[]"] wc_space_def)
  moreover have "dec 1 = bytes_of ''1''" "dec 2 = bytes_of ''2''" "dec 6 = bytes_of ''6''"
    by (simp_all add: dec_def printint_user_def printint_buf_user_def digits_user_def bytes_of_def digit_loop_user.simps(2) [of 63, simplified])
  ultimately show ?thesis
    using wc_counts [OF pair_sys_streams refl, where fd = 0 and inp = ?f and out = "[]" and name = "bytes_of ''f''"]
    by (simp add: bytes_of_def NL_def)
qed

end
