(* ===== verification/Spec2Isabelle.thy ===== *)
theory Spec2Isabelle
  imports Logspace Strings Printf Pagetable Pipe Trap Grep Uprogs
begin

text \<open>
  A verification development of txv6: the xv6 teaching kernel for RISC-V, extended by transactions on the file
  system (\<open>txbegin\<close>, \<open>txcommit\<close>, \<open>txabort\<close>, \<open>txstatus\<close>). All files named here are below \<open>src\<close>.

  \<^bold>\<open>How the kernel is modelled.\<close> A routine is a function from the state \<open>kstate\<close> (theory \<open>Kernel\<close>: every global
  variable the code touches, one field each) to an outcome (theory \<open>Prelude\<close>): it returned, panicked, did something
  that has no meaning in C (\<open>Fault\<close>), jumped back to \<open>syscall()\<close> with \<open>klongjmp\<close>, or gave up the CPU (\<open>Sleep\<close>). The
  combinators \<open>bnd\<close> and \<open>sq\<close> put routines in sequence, and a definition follows its C function statement by
  statement. What a routine does after it was woken up is a routine of its own whose name ends in \<open>_resume\<close>. Pages
  from \<open>kalloc\<close> are typed by what they were last written as, and a page used as something else is a \<open>Fault\<close>. Integers
  have their width where it matters (\<open>8\<close>, \<open>16\<close>, \<open>32\<close>, \<open>64 word\<close>).

  \<^bold>\<open>The theories\<close>, from the bottom up:
  \<^item> \<open>Spinlock\<close>: \<open>kernel/spinlock.c\<close>, on lock words with several CPUs as a transition system (mutual exclusion,
    interrupts off while a lock is held), and as the set of held locks the rest of the kernel model uses; the
    interface is the locale \<open>lock_api\<close>.
  \<^item> \<open>Sched\<close>: \<open>sleep\<close>, \<open>wakeup\<close>, \<open>yield\<close>, \<open>kkill\<close> of \<open>kernel/proc.c\<close> and \<open>kernel/sleeplock.c\<close>.
  \<^item> \<open>Kalloc\<close>: \<open>kernel/kalloc.c\<close>. The free list as a chain through the free pages, and the locale \<open>page_alloc\<close>, which
    the allocator interprets: what is allocated is fresh and what is freed can be allocated again.
  \<^item> \<open>Bio\<close>, \<open>Bcache\<close>: \<open>kernel/bio.c\<close>. The invariant of the buffer cache, \<open>bget\<close> and \<open>brelse\<close> against an abstract
    least-recently-used list, \<open>bread\<close> against the content of the disk, and the view of the cache that the log uses.
  \<^item> \<open>Log\<close>, \<open>Logspace\<close>: \<open>kernel/log.c\<close>. A crash after any prefix of the disk writes of a commit, followed by
    recovery, gives all of the transaction or nothing; and operations that keep to \<open>MAXOPBLOCKS\<close> never overflow the
    log, however they interleave.
  \<^item> \<open>Tx\<close>: \<open>kernel/tx.c\<close>, the shadow copies. The workset stays sorted, the binary search is right, and a shadow is a
    fresh copy that leaves the object itself alone.
  \<^item> \<open>Vm\<close>, \<open>Pagetable\<close>: \<open>kernel/vm.c\<close>. The page-table tree as a map from page numbers to entries, and user memory as
    the bytes a program sees, with \<open>mappages\<close>, \<open>walkaddr\<close>, \<open>copyin\<close>, \<open>copyout\<close> specified over them.
  \<^item> \<open>Pipe\<close>: \<open>kernel/pipe.c\<close>. The locale \<open>fifo\<close> of bounded queues, its interpretation by the ring of a pipe, reading
    and writing between two address spaces, and that a reader or writer that sleeps is woken by the other end.
  \<^item> \<open>Inode\<close>, \<open>Dir\<close>: \<open>kernel/fs.c\<close> and the abort path of \<open>kernel/tx.c\<close>. The references to the slots of the inode table, what a
    transaction defers, and what an abort leaves behind.
  \<^item> \<open>Strings\<close>, \<open>Printf\<close>: \<open>kernel/string.c\<close>, \<open>user/ulib.c\<close>, \<open>kernel/printf.c\<close>, \<open>user/printf.c\<close>, as pure functions. The printing
    routines of the kernel and of the library are separate definitions, proved to print the same text.
  \<^item> \<open>Console\<close>: \<open>kernel/uart.c\<close> and \<open>kernel/console.c\<close>; \<open>Virtio\<close>: \<open>kernel/virtio_disk.c\<close>.
  \<^item> \<open>File\<close>, \<open>Proc\<close>, \<open>Exec\<close>: \<open>kernel/file.c\<close>, the rest of \<open>kernel/proc.c\<close>, \<open>kernel/exec.c\<close>.
  \<^item> \<open>Sysproc\<close>, \<open>Systx\<close>, \<open>Sysfile\<close>, \<open>Trap\<close>: the system calls (\<open>kernel/sysproc.c\<close>, \<open>systx.c\<close>, \<open>sysfile.c\<close>), the
    dispatch in \<open>kernel/syscall.c\<close>, \<open>kernel/trap.c\<close>, \<open>kernel/plic.c\<close> and the boot sequence of \<open>kernel/main.c\<close>.
  \<^item> \<open>Usys\<close>, \<open>Grep\<close>, \<open>Uprogs\<close>: the programs \<open>grep\<close>, \<open>cat\<close>, \<open>wc\<close>, \<open>echo\<close>, \<open>kill\<close>, \<open>ln\<close>, \<open>mkdir\<close>, \<open>rm\<close>, \<open>ls\<close> and \<open>init\<close> below \<open>user\<close>. They
    take the kernel as a parameter, and their theorems rely on the contract \<open>streams\<close> of reading and writing.

  \<^bold>\<open>Fuel.\<close> Loops over a list or a counter are structural recursion. The loops whose end depends on the state carry
  fuel, and running out of it is a \<open>Fault\<close>, so that every theorem that a routine returns also shows that the fuel is
  enough: \<open>NBUF + 1\<close> steps for a scan of the buffer list, the number of pages plus one for \<open>freerange\<close> and the loops
  of \<open>vm.c\<close>, the length of the path plus one for \<open>namex\<close>.

  \<^bold>\<open>Not modelled.\<close> Assembly (\<open>entry.S\<close>, \<open>swtch.S\<close>, \<open>trampoline.S\<close>, \<open>kernelvec.S\<close>, \<open>kjmp.S\<close>) and \<open>start.c\<close>, which
  set up machine registers: their effect on control is in the outcome type. The disk is a map from block numbers to
  blocks for the buffer cache; the driver \<open>Virtio\<close> models the queue it shares with the device up to the device's
  side of it. Interleavings of several CPUs are modelled for spinlocks and for the log space; the other routines run
  from one point where they give up the CPU to the next, under the locks they take. Test programs below \<open>user\<close>
  (\<open>usertests.c\<close>, \<open>txtest.c\<close> and others) only call the kernel and have no contract of their own. The shell \<open>user/sh.c\<close>, the allocator \<open>user/umalloc.c\<close> and the host
  program \<open>mkfs/mkfs.c\<close>.
\<close>

end
